(* ===== verification/Prelude.thy ===== *)
theory Prelude
  imports Main "HOL-Library.Word" "HOL-Library.Signed_Division"
begin

text \<open>
  The vocabulary every component of the development shares: the machine integer types of the C
  sources, the value a run that goes wrong yields, the counted loop
  \<^verbatim>\<open>for (T i = a; i < n; i++)\<close> over an unsigned counter, little-endian reads and the byte form
  of C string literals, together with the lemmas about them that the component theories use.
\<close>

unbundle bit_operations_syntax

section \<open>Machine integers\<close>

text \<open>
  \<open>i32\<close> is the C type \<^verbatim>\<open>int\<close>; it has the same representation as \<open>u32\<close> and is read with
  \<open>sint\<close> and compared with \<open><s\<close> and \<open><=s\<close>.  A \<^verbatim>\<open>char\<close> is the byte that represents it.
\<close>

type_synonym u8 = "8 word"
type_synonym u16 = "16 word"
type_synonym u32 = "32 word"
type_synonym u64 = "64 word"
type_synonym i32 = "32 word"

text \<open>
  libc is compiled twice, once by the i686 compiler for the boot loader and once by the x86_64
  compiler for the kernel, and tests \<^verbatim>\<open>__x86_64__\<close> to tell the two apart.
\<close>

datatype build = Boot32 | Kernel64

named_theorems word_facts "conversions of word comparisons and arithmetic to natural numbers"

lemmas word_nat_facts [word_facts] =
  word_less_nat_alt word_le_nat_alt word_unat_eq_iff unat_word_ariths

lemma unat_of_nat_small [simp]:
  "n < 2 ^ LENGTH('a) \<Longrightarrow> unat (of_nat n :: 'a::len word) = n"
  by (simp add: unat_of_nat take_bit_nat_eq_self)

lemma unat_Suc_if_less:
  fixes i n :: "'a::len word"
  assumes "i < n"
  shows "unat (i + 1) = Suc (unat i)"
proof -
  have "Suc (unat i) \<le> unat n"
    using assms by (simp add: word_less_nat_alt)
  also have "unat n < 2 ^ LENGTH('a)"
    by (rule unsigned_less)
  finally show ?thesis by (simp add: unat_word_ariths)
qed

lemma sint_eq_unat:
  fixes w :: "'a::len word"
  shows "sint w = (if 2 * unat w < 2 ^ LENGTH('a) then int (unat w)
                   else int (unat w) - 2 ^ LENGTH('a))"
proof -
  obtain n where n: "LENGTH('a) = Suc n"
    using len_gt_0 [where 'a = 'a] gr0_implies_Suc by blast
  have bound: "int (unat w) < 2 * 2 ^ n"
    using uint_lt2p [of w] n by simp
  have "sint w = (int (unat w) + 2 ^ n) mod (2 * 2 ^ n) - 2 ^ n"
    by (simp add: sint_uint n signed_take_bit_eq_take_bit_shift take_bit_eq_mod)
  also have "\<dots> = (if int (unat w) < 2 ^ n then int (unat w) else int (unat w) - 2 * 2 ^ n)"
  proof (cases "int (unat w) < 2 ^ n")
    case False
    have "(int (unat w) + 2 ^ n) mod (2 * 2 ^ n) = (int (unat w) + 2 ^ n - 2 * 2 ^ n) mod (2 * 2 ^ n)"
      by (simp only: minus_mod_self2)
    also have "\<dots> = int (unat w) + 2 ^ n - 2 * 2 ^ n"
      by (rule mod_pos_pos_trivial) (use False bound in linarith)+
    finally show ?thesis using False by simp
  qed simp
  also have "int (unat w) < 2 ^ n \<longleftrightarrow> unat w < 2 ^ n"
    by (metis of_nat_less_iff of_nat_numeral of_nat_power)
  finally show ?thesis by (simp add: n)
qed

section \<open>Runs that go wrong\<close>

text \<open>
  What the C sources can run into without a diagnostic: the CPU's divide error, a null pointer,
  an access outside the object it is made through, a \<^verbatim>\<open>va_arg\<close> for which no argument of that
  kind was passed, and an access to an address that is not mapped.  An operation that can do so returns \<open>Inl\<close> of the fault.
\<close>

datatype fault = DivideError | NullPointer | OutOfBounds | BadVarArg | PageFault

type_synonym 'a res = "fault + 'a"

definition bindE :: "'e + 'a \<Rightarrow> ('a \<Rightarrow> 'e + 'b) \<Rightarrow> 'e + 'b" where
  "bindE r k = (case r of Inl e \<Rightarrow> Inl e | Inr x \<Rightarrow> k x)"

lemma bindE_simps [simp]:
  "bindE (Inl e) k = Inl e"
  "bindE (Inr x) k = k x"
  by (simp_all add: bindE_def)

lemma bindE_eq_Inr: "bindE r k = Inr y \<longleftrightarrow> (\<exists>x. r = Inr x \<and> k x = Inr y)"
  by (cases r) simp_all

lemma bindE_cong [fundef_cong]:
  "r = r' \<Longrightarrow> (\<And>x. r' = Inr x \<Longrightarrow> k x = k' x) \<Longrightarrow> bindE r k = bindE r' k'"
  by (cases r') simp_all

section \<open>Counted loops\<close>

function for_up :: "'a::len word \<Rightarrow> 'a word \<Rightarrow> ('a word \<Rightarrow> 's \<Rightarrow> 's) \<Rightarrow> 's \<Rightarrow> 's" where
  "for_up i n f s = (if i < n then for_up (i + 1) n f (f i s) else s)"
  by pat_completeness auto
termination
proof (relation "measure (\<lambda>(i, n, f, s). unat n - unat i)")
  show "((i + 1, n, f, f i s), i, n, f, s) \<in> measure (\<lambda>(i, n, f, s). unat n - unat i)"
    if "i < n" for i n :: "'a word" and f :: "'a word \<Rightarrow> 's \<Rightarrow> 's" and s
    using that unat_Suc_if_less [OF that] by (simp add: word_less_nat_alt)
qed simp

declare for_up.simps [simp del]

text \<open>The loop is a fold over the counter's values.\<close>

lemma for_up_fold:
  fixes i n :: "'a::len word"
  shows "for_up i n f s = fold (\<lambda>k. f (of_nat k)) [unat i..<unat n] s"
proof (induction i n f s rule: for_up.induct)
  case (1 i n f s)
  show ?case
  proof (cases "i < n")
    case True
    then have "[unat i..<unat n] = unat i # [unat (i + 1)..<unat n]"
      by (simp add: unat_Suc_if_less upt_conv_Cons word_less_nat_alt)
    with True "1.IH" show ?thesis by (simp add: for_up.simps [of i])
  next
    case False
    then show ?thesis by (simp add: for_up.simps [of i] word_less_nat_alt)
  qed
qed

text \<open>An invariant of the body is an invariant of the loop.\<close>

lemma fold_invariant_list:
  "P s \<Longrightarrow> (\<And>x s. x \<in> set xs \<Longrightarrow> P s \<Longrightarrow> P (f x s)) \<Longrightarrow> P (fold f xs s)"
  by (induction xs arbitrary: s) auto

lemma for_up_invariant:
  fixes i n :: "'a::len word"
  assumes "P s"
    and "\<And>k s. unat i \<le> k \<Longrightarrow> k < unat n \<Longrightarrow> P s \<Longrightarrow> P (f (of_nat k) s)"
  shows "P (for_up i n f s)"
  unfolding for_up_fold by (rule fold_invariant_list) (use assms in auto)

section \<open>Bytes\<close>

definition le16 :: "u8 \<Rightarrow> u8 \<Rightarrow> u16" where
  "le16 lo hi = ucast lo OR push_bit 8 (ucast hi)"

definition le32 :: "u8 \<Rightarrow> u8 \<Rightarrow> u8 \<Rightarrow> u8 \<Rightarrow> u32" where
  "le32 b0 b1 b2 b3 = ucast (le16 b0 b1) OR push_bit 16 (ucast (le16 b2 b3))"

lemma unat_ucast_fits [simp]:
  fixes w :: "'a::len word"
  assumes "LENGTH('a) \<le> LENGTH('b)"
  shows "unat (ucast w :: 'b::len word) = unat w"
proof -
  have "unat w < 2 ^ LENGTH('b)"
    using assms by (rule_tac less_le_trans [OF unsigned_less]) simp
  then show ?thesis by (simp add: unsigned_ucast_eq take_bit_nat_eq_self)
qed

text \<open>Bytes placed side by side do not overlap, so that \<open>OR\<close> adds them.\<close>

lemma or_push_bit_ucast:
  fixes lo :: "'a::len word" and hi :: "'b::len word"
  assumes "LENGTH('a) \<le> n" and "n + LENGTH('b) \<le> LENGTH('c)"
  shows "unat (ucast lo OR push_bit n (ucast hi) :: 'c::len word) = unat lo + 2 ^ n * unat hi"
proof -
  have disj: "ucast lo AND push_bit n (ucast hi :: 'c word) = 0"
    by (rule bit_word_eqI) (use assms in \<open>auto simp: bit_simps dest: bit_imp_le_length\<close>)
  have lo: "unat lo < 2 ^ n"
    using assms(1) by (rule_tac less_le_trans [OF unsigned_less]) simp
  have "2 ^ n * unat hi + unat lo < 2 ^ n * (unat hi + 1)"
    using lo by (simp add: algebra_simps)
  also have "\<dots> \<le> 2 ^ n * 2 ^ LENGTH('b)"
    by (intro mult_le_mono) (use unsigned_less [of hi] in \<open>simp_all add: Suc_le_eq\<close>)
  also have "\<dots> \<le> 2 ^ LENGTH('c)"
    using assms(2) by (simp flip: power_add)
  finally have sum: "2 ^ n * unat hi + unat lo < 2 ^ LENGTH('c)" .
  have hi: "unat (push_bit n (ucast hi :: 'c word)) = 2 ^ n * unat hi"
    unfolding unsigned_push_bit_eq
    using sum assms by (simp add: push_bit_nat_def take_bit_nat_eq_self mult.commute)
  show ?thesis
    unfolding disjunctive_add_eq_or [OF disj, symmetric] unat_word_ariths hi
    using sum assms by simp
qed

lemma unat_le16: "unat (le16 lo hi) = unat lo + 256 * unat hi"
  by (simp add: le16_def or_push_bit_ucast)

lemma unat_le32:
  "unat (le32 b0 b1 b2 b3) =
     unat b0 + 256 * unat b1 + 65536 * unat b2 + 16777216 * unat b3"
  by (simp add: le32_def or_push_bit_ucast unat_le16)

text \<open>The bytes of a string literal of the sources, without the terminating null.\<close>

definition bytes_of :: "string \<Rightarrow> u8 list" where
  "bytes_of s = map (\<lambda>c. of_nat (of_char c)) s"

lemma bytes_of_simps [simp]:
  "bytes_of [] = []"
  "bytes_of (c # cs) = of_nat (of_char c) # bytes_of cs"
  by (simp_all add: bytes_of_def)

lemma length_bytes_of [simp]: "length (bytes_of s) = length s"
  by (simp add: bytes_of_def)

end
