(* ===== verification/Store.thy ===== *)
theory Store
  imports Prelude
begin

text \<open>
  Two interfaces that several components implement.  An \<^emph>\<open>indexed store\<close> is a state in which a
  value can be put at an index and is later found there: the screen cells of the console, the
  descriptor tables of the kernel and its table of interrupt routines.  The lemmas about runs of
  stores (filling, moving, writing a list of entries) are proved here once.
\<close>

locale indexed_store =
  fixes fetch :: "'s \<Rightarrow> 'i \<Rightarrow> 'v"
    and store :: "'i \<Rightarrow> 'p \<Rightarrow> 's \<Rightarrow> 's"
    and valid :: "'i \<Rightarrow> bool"
    and view :: "'p \<Rightarrow> 'v"
  assumes fetch_store:
    "valid i \<Longrightarrow> valid j \<Longrightarrow> fetch (store i p s) j = (if j = i then view p else fetch s j)"
begin

lemma fetch_fold_store:
  assumes "\<And>i. i \<in> set is \<Longrightarrow> valid i" and "valid j"
  shows "fetch (fold (\<lambda>i. store i (f i)) is s) j = (if j \<in> set is then view (f j) else fetch s j)"
  using assms(1)
proof (induction "is" rule: rev_induct)
  case (snoc i "is")
  then show ?case using assms(2) by (simp add: fetch_store)
qed simp

text \<open>Writing a list of distinct entries leaves exactly those entries changed.\<close>

lemma fetch_fold_entries:
  assumes "list_all (\<lambda>(i, p). valid i) ps" and "distinct (map fst ps)" and "valid j"
  shows "fetch (fold (\<lambda>(i, p). store i p) ps s) j =
    (case map_of ps j of Some p \<Rightarrow> view p | None \<Rightarrow> fetch s j)"
  using assms(1,2)
proof (induction ps arbitrary: s)
  case (Cons ip ps)
  obtain i p where ip: "ip = (i, p)" by (cases ip)
  have "i \<notin> fst ` set ps" using Cons.prems(2) ip by simp
  then have "map_of ps i = None" by (simp add: map_of_eq_None_iff)
  moreover have "valid i" using Cons.prems(1) ip by simp
  ultimately show ?case
    using Cons.IH [of "store i p s"] Cons.prems ip assms(3)
    by (auto simp: fetch_store split: option.splits)
qed simp

end

text \<open>Where what is put is what is found, values can also be moved between indices.\<close>

locale cell_store = indexed_store fetch store valid "\<lambda>v. v"
  for fetch :: "'s \<Rightarrow> 'i \<Rightarrow> 'v" and store :: "'i \<Rightarrow> 'v \<Rightarrow> 's \<Rightarrow> 's" and valid :: "'i \<Rightarrow> bool"
begin

lemma fetch_fold_move:
  assumes "\<And>i. i \<in> set is \<Longrightarrow> valid i \<and> valid (src i)" and "valid j"
    and "distinct is" and "sorted_wrt (\<lambda>a b. src b \<noteq> a) is"
  shows "fetch (fold (\<lambda>i s. store i (fetch s (src i)) s) is s) j =
    (if j \<in> set is then fetch s (src j) else fetch s j)"
  using assms
proof (induction "is" arbitrary: j rule: rev_induct)
  case (snoc i "is")
  let ?s = "fold (\<lambda>i s. store i (fetch s (src i)) s) is s"
  have "valid i" "valid (src i)" "src i \<notin> set is"
    using snoc.prems(1,4) by (auto simp: sorted_wrt_append)
  moreover have "fetch ?s k = (if k \<in> set is then fetch s (src k) else fetch s k)" if "valid k" for k
    using snoc.IH [OF _ that] snoc.prems by (simp add: sorted_wrt_append)
  ultimately show ?case
    using snoc.prems(2,3) by (simp add: fetch_store)
qed simp

end

text \<open>Nested folds visit the concatenation of what the inner ones visit.\<close>

lemma fold_nested: "fold (\<lambda>y. fold f (g y)) ys s = fold f (concat (map g ys)) s"
  by (induction ys arbitrary: s) simp_all

end
