(* ===== verification/Libc_String.thy ===== *)
theory Libc_String
  imports Prelude
begin

text \<open>
  \<^verbatim>\<open>src/libc/string\<close>, \<^verbatim>\<open>src/libc/ctype\<close> and \<^verbatim>\<open>src/libc/netclover/minmax\<close>.  The functions run on a
  flat byte memory whose address type is a parameter, because the same C files are compiled with
  32-bit and with 64-bit pointers and \<^verbatim>\<open>size_t\<close>; the null pointer is the address 0.  A scan for a
  terminator that is not there never returns, which the model shows as \<open>None\<close>.
\<close>

type_synonym 'a memory = "'a word \<Rightarrow> u8"

section \<open>\<^verbatim>\<open>memcpy\<close>, \<^verbatim>\<open>memset\<close>, \<^verbatim>\<open>memcmp\<close>\<close>

definition memcpy ::
  "'a::len word \<Rightarrow> 'a word \<Rightarrow> 'a word \<Rightarrow> 'a memory \<Rightarrow> 'a word \<times> 'a memory" where
  "memcpy dest src n m = (dest, for_up 0 n (\<lambda>i m. m(dest + i := m (src + i))) m)"

definition memset ::
  "'a::len word \<Rightarrow> i32 \<Rightarrow> 'a word \<Rightarrow> 'a memory \<Rightarrow> 'a word \<times> 'a memory" where
  "memset dest value n m = (dest, for_up 0 n (\<lambda>i m. m(dest + i := ucast value)) m)"

function memcmp_loop ::
  "'a::len memory \<Rightarrow> 'a word \<Rightarrow> 'a word \<Rightarrow> 'a word \<Rightarrow> 'a word \<Rightarrow> i32" where
  "memcmp_loop m p1 p2 n i =
     (if i < n then
        if m (p1 + i) \<noteq> m (p2 + i) then ucast (m (p1 + i)) - ucast (m (p2 + i))
        else memcmp_loop m p1 p2 n (i + 1)
      else 0)"
  by pat_completeness auto
termination
proof (relation "measure (\<lambda>(m, p1, p2, n, i). unat n - unat i)")
  show "((m, p1, p2, n, i + 1), m, p1, p2, n, i)
      \<in> measure (\<lambda>(m, p1, p2, n, i). unat n - unat i)"
    if "i < n" for m and p1 p2 n i :: "'a word"
    using that unat_Suc_if_less [OF that] by (simp add: word_less_nat_alt)
qed simp

declare memcmp_loop.simps [simp del]

definition memcmp :: "'a::len memory \<Rightarrow> 'a word \<Rightarrow> 'a word \<Rightarrow> 'a word \<Rightarrow> i32" where
  "memcmp m ptr1 ptr2 n = memcmp_loop m ptr1 ptr2 n 0"

section \<open>\<^verbatim>\<open>strlen\<close>, \<^verbatim>\<open>strchr\<close>, \<^verbatim>\<open>strcpy\<close>\<close>

partial_function (option) strlen_loop ::
  "'a::len memory \<Rightarrow> 'a word \<Rightarrow> 'a word \<Rightarrow> 'a word option" where
  "strlen_loop m str len =
     (if m (str + len) \<noteq> 0 then strlen_loop m str (len + 1) else Some len)"

definition strlen :: "'a::len memory \<Rightarrow> 'a word \<Rightarrow> 'a word option" where
  "strlen m str = strlen_loop m str 0"

partial_function (option) strchr_loop ::
  "'a::len memory \<Rightarrow> 'a word \<Rightarrow> u8 \<Rightarrow> 'a word option" where
  "strchr_loop m str chr =
     (if m str \<noteq> 0 then if m str = chr then Some str else strchr_loop m (str + 1) chr
      else Some 0)"

definition strchr :: "'a::len memory \<Rightarrow> 'a word \<Rightarrow> u8 \<Rightarrow> 'a word option" where
  "strchr m str chr = (if str = 0 then Some 0 else strchr_loop m str chr)"

partial_function (option) strcpy_loop ::
  "'a::len word \<Rightarrow> 'a word \<Rightarrow> 'a memory \<Rightarrow> 'a memory option" where
  "strcpy_loop dest src m =
     (if m src \<noteq> 0 then strcpy_loop (dest + 1) (src + 1) (m(dest := m src))
      else Some (m(dest := m src)))"

definition strcpy ::
  "'a::len word \<Rightarrow> 'a word \<Rightarrow> 'a memory \<Rightarrow> ('a word \<times> 'a memory) option" where
  "strcpy dest src m =
     (if dest = 0 then Some (0, m)
      else if src = 0 then Some (dest, m(dest := 0))
      else map_option (Pair dest) (strcpy_loop dest src m))"

section \<open>\<^verbatim>\<open>ctype\<close> and \<^verbatim>\<open>minmax\<close>\<close>

definition islower :: "u8 \<Rightarrow> bool" where
  "islower c \<longleftrightarrow> 0x61 <=s c \<and> c <=s 0x7A"

definition isupper :: "u8 \<Rightarrow> bool" where
  "isupper c \<longleftrightarrow> 0x41 <=s c \<and> c <=s 0x5A"

definition toupper :: "u8 \<Rightarrow> u8" where
  "toupper c = (if islower c then c - 0x61 + 0x41 else c)"

definition tolower :: "u8 \<Rightarrow> u8" where
  "tolower c = (if isupper c then c - 0x41 + 0x61 else c)"

definition min_int :: "i32 \<Rightarrow> i32 \<Rightarrow> i32" where
  "min_int a b = (if a <s b then a else b)"

definition max_int :: "i32 \<Rightarrow> i32 \<Rightarrow> i32" where
  "max_int a b = (if b <s a then a else b)"

section \<open>Objects seen as lists of bytes\<close>

text \<open>
  What the C functions promise about the objects they are given: the contents of an object of
  \<open>n\<close> bytes at address \<open>p\<close>, and the string of nonzero bytes that a terminated array at \<open>p\<close> holds.
\<close>

definition object :: "'a::len memory \<Rightarrow> 'a word \<Rightarrow> nat \<Rightarrow> u8 list" where
  "object m p n = map (\<lambda>i. m (p + of_nat i)) [0..<n]"

definition cstring :: "'a::len memory \<Rightarrow> 'a word \<Rightarrow> u8 list \<Rightarrow> bool" where
  "cstring m p cs \<longleftrightarrow>
     object m p (length cs) = cs \<and> 0 \<notin> set cs \<and> m (p + of_nat (length cs)) = 0"

lemma length_object [simp]: "length (object m p n) = n"
  by (simp add: object_def)

lemma nth_object [simp]: "i < n \<Longrightarrow> object m p n ! i = m (p + of_nat i)"
  by (simp add: object_def)

lemma object_Suc: "object m p (Suc n) = m p # object m (p + 1) n"
proof -
  have "[0..<Suc n] = 0 # map Suc [0..<n]"
    by (simp add: map_Suc_upt upt_conv_Cons del: upt_Suc)
  then show ?thesis
    by (simp add: object_def comp_def add.assoc [symmetric] del: upt_Suc)
qed

lemma cstring_Nil: "cstring m p [] \<longleftrightarrow> m p = 0"
  by (simp add: cstring_def object_def)

lemma cstring_Cons:
  "cstring m p (c # cs) \<longleftrightarrow> m p = c \<and> c \<noteq> 0 \<and> cstring m (p + 1) cs"
  by (auto simp: cstring_def object_Suc add.assoc)

section \<open>Copying and filling\<close>

text \<open>
  \<open>a - d < n\<close> says that the address \<open>a\<close> lies in the \<open>n\<close> bytes at \<open>d\<close>, also where the object
  wraps around the end of the address space.
\<close>

lemma region_step:
  fixes a d :: "'a::len word"
  assumes "k < 2 ^ LENGTH('a)"
  shows "unat (a - d) < Suc k \<longleftrightarrow> unat (a - d) < k \<or> a = d + of_nat k"
proof -
  have "a = d + of_nat k \<longleftrightarrow> a - d = of_nat k"
    by (auto simp: algebra_simps)
  also have "\<dots> \<longleftrightarrow> unat (a - d) = k"
    using assms by (auto simp: word_unat_eq_iff)
  finally show ?thesis by auto
qed

lemma memset_prefix:
  fixes d :: "'a::len word"
  assumes "k \<le> 2 ^ LENGTH('a)"
  shows "fold (\<lambda>i m. m(d + of_nat i := v)) [0..<k] m = (\<lambda>a. if unat (a - d) < k then v else m a)"
  using assms
proof (induction k)
  case (Suc k)
  then show ?case by (auto simp: region_step fun_eq_iff)
qed simp

lemma memset_eq:
  "memset d value n m = (d, \<lambda>a. if a - d < n then ucast value else m a)"
  by (simp add: memset_def for_up_fold memset_prefix word_less_nat_alt less_imp_le)

lemma unat_of_nat_diff_ge:
  fixes w :: "'a::len word"
  assumes "k < unat w"
  shows "k \<le> unat (of_nat k - w)"
proof -
  have w: "unat w < 2 ^ LENGTH('a)" by (rule unsigned_less)
  have k: "unat (of_nat k :: 'a word) = k"
    by (rule unat_of_nat_small) (rule less_trans [OF assms w])
  have "\<not> unat w \<le> k" using assms by simp
  with w show ?thesis unfolding unat_sub_if' k by (simp only: if_False)
qed

lemma memcpy_prefix:
  fixes d s :: "'a::len word"
  assumes "k \<le> unat n" and "d = s \<or> n \<le> d - s"
  shows "fold (\<lambda>i m. m(d + of_nat i := m (s + of_nat i))) [0..<k] m
       = (\<lambda>a. if unat (a - d) < k then m (s + (a - d)) else m a)"
  using assms
proof (induction k)
  case (Suc k)
  have k: "k < unat n" "k < 2 ^ LENGTH('a)"
    using Suc.prems(1) by (simp_all add: less_trans [OF _ unsigned_less [of n]])
  have fresh: "\<not> unat (s + of_nat k - d) < k"
  proof (cases "d = s")
    case True
    then show ?thesis using k by simp
  next
    case False
    have "s + of_nat k - d = of_nat k - (d - s)" by simp
    moreover have "k < unat (d - s)"
      using False Suc.prems(2) k(1) by (simp add: word_le_nat_alt)
    ultimately show ?thesis
      using unat_of_nat_diff_ge [of k "d - s"] by (simp only: not_less)
  qed
  show ?case
    using Suc k fresh by (auto simp: region_step fun_eq_iff)
qed simp


text \<open>
  \<^verbatim>\<open>memcpy\<close> returns its first argument, makes the \<open>n\<close> bytes at \<open>dest\<close> equal to what the
  \<open>n\<close> bytes at \<open>src\<close> were before the call and changes no other byte, unless the destination
  starts strictly inside the source (\<open>d - s < n\<close> with \<open>d \<noteq> s\<close>).
\<close>

theorem memcpy_copies:
  assumes "dest = src \<or> n \<le> dest - src"
  shows "memcpy dest src n m = (dest, \<lambda>a. if a - dest < n then m (src + (a - dest)) else m a)"
  using memcpy_prefix [OF le_refl assms, of m]
  by (simp add: memcpy_def for_up_fold word_less_nat_alt)

theorem memcpy_copies_witness:
  "snd (memcpy (0x30000 :: u32) 0x100000 0x10000 (\<lambda>a. ucast a)) =
     (\<lambda>a. if a - 0x30000 < 0x10000 then ucast (0x100000 + (a - 0x30000)) else ucast a)"
proof -
  have "(0x30000 :: u32) = 0x100000 \<or> (0x10000 :: u32) \<le> 0x30000 - 0x100000" by simp
  from memcpy_copies [OF this] show ?thesis by simp
qed

section \<open>Comparing\<close>

text \<open>The C comparison over two lists of bytes: the difference at the first place they differ.\<close>

fun bytes_cmp :: "u8 list \<Rightarrow> u8 list \<Rightarrow> i32" where
  "bytes_cmp (x # xs) (y # ys) = (if x \<noteq> y then ucast x - ucast y else bytes_cmp xs ys)"
| "bytes_cmp _ _ = 0"

lemma bytes_cmp_refl [simp]: "bytes_cmp xs xs = 0"
  by (induction xs) auto

lemma ucast_u8_eq_iff: "ucast x = (ucast y :: i32) \<longleftrightarrow> x = y" for x y :: u8
proof -
  have "unat (ucast x :: i32) = unat x" "unat (ucast y :: i32) = unat y"
    by simp_all
  then show ?thesis by (metis word_unat_eq_iff)
qed

lemma bytes_cmp_eq_0: "length xs = length ys \<Longrightarrow> bytes_cmp xs ys = 0 \<longleftrightarrow> xs = ys"
  by (induction xs ys rule: list_induct2) (simp_all add: ucast_u8_eq_iff)

lemma object_from:
  fixes p :: "'a::len word"
  assumes "i < n"
  shows "object m (p + i) (unat n - unat i)
       = m (p + i) # object m (p + (i + 1)) (unat n - unat (i + 1))"
proof -
  have "unat n - unat i = Suc (unat n - unat (i + 1))"
    using assms unat_Suc_if_less [OF assms] by (simp add: word_less_nat_alt)
  then show ?thesis by (simp add: object_Suc add.assoc)
qed

lemma memcmp_loop_bytes:
  "memcmp_loop m p1 p2 n i =
     bytes_cmp (object m (p1 + i) (unat n - unat i)) (object m (p2 + i) (unat n - unat i))"
proof (induction m p1 p2 n i rule: memcmp_loop.induct)
  case (1 m p1 p2 n i)
  show ?case
  proof (cases "i < n")
    case True
    with 1 show ?thesis
      by (simp add: memcmp_loop.simps [of m p1 p2 n i] object_from)
  next
    case False
    then have "unat n - unat i = 0" by (simp add: word_less_nat_alt)
    with False show ?thesis
      by (simp add: memcmp_loop.simps [of m p1 p2 n i] object_def)
  qed
qed

lemma memcmp_bytes:
  "memcmp m p1 p2 n = bytes_cmp (object m p1 (unat n)) (object m p2 (unat n))"
  by (simp add: memcmp_def memcmp_loop_bytes)

text \<open>
  \<^verbatim>\<open>memcmp\<close> returns 0 exactly when the two objects of \<open>n\<close> bytes hold the same bytes.
\<close>

theorem memcmp_zero_iff_equal:
  "memcmp m p1 p2 n = 0 \<longleftrightarrow> object m p1 (unat n) = object m p2 (unat n)"
  by (simp add: memcmp_bytes bytes_cmp_eq_0)

section \<open>Scanning strings\<close>

lemma strlen_loop_cstring:
  "cstring m (p + k) cs \<Longrightarrow> strlen_loop m p k = Some (k + of_nat (length cs))"
proof (induction cs arbitrary: k)
  case Nil
  then show ?case by (subst strlen_loop.simps) (simp add: cstring_Nil)
next
  case (Cons c cs)
  then have "m (p + k) \<noteq> 0" "cstring m (p + (k + 1)) cs"
    by (auto simp: cstring_Cons add.assoc)
  with Cons.IH show ?case
    by (subst strlen_loop.simps) (simp add: algebra_simps)
qed

fun find_byte :: "u8 \<Rightarrow> u8 list \<Rightarrow> nat option" where
  "find_byte c [] = None"
| "find_byte c (x # xs) = (if x = c then Some 0 else map_option Suc (find_byte c xs))"

lemma strchr_loop_cstring:
  "cstring m p cs \<Longrightarrow> strchr_loop m p c =
     Some (case find_byte c cs of None \<Rightarrow> 0 | Some i \<Rightarrow> p + of_nat i)"
proof (induction cs arbitrary: p)
  case Nil
  then show ?case by (subst strchr_loop.simps) (simp add: cstring_Nil)
next
  case (Cons x cs)
  then have "m p = x" "x \<noteq> 0" "cstring m (p + 1) cs"
    by (auto simp: cstring_Cons)
  with Cons.IH [of "p + 1"] show ?case
    by (subst strchr_loop.simps) (auto simp: add.assoc split: option.splits)
qed


text \<open>
  On a terminated string \<^verbatim>\<open>strlen\<close> returns the number of bytes before the terminator; in a
  memory without any null byte it never returns.
\<close>

theorem strlen_cstring:
  "(cstring m p cs \<longrightarrow> strlen m p = Some (of_nat (length cs))) \<and>
   ((\<forall>a. m a \<noteq> 0) \<longrightarrow> strlen m p = None)"
proof (intro conjI impI)
  show "strlen m p = Some (of_nat (length cs))" if "cstring m p cs"
    using strlen_loop_cstring [of m p 0 cs] that by (simp add: strlen_def)
next
  assume none: "\<forall>a. m a \<noteq> 0"
  show "strlen m p = None"
  proof (cases "strlen m p")
    case (Some r)
    have "\<exists>a. m a = 0"
      by (rule strlen_loop.raw_induct [where P = "\<lambda>m p k r. \<exists>a. m a = 0",
            OF _ Some [unfolded strlen_def]]) (auto split: if_splits)
    with none show ?thesis by simp
  qed simp
qed

theorem strlen_cstring_witness:
  "strlen (\<lambda>a :: u32. if a = 100 then 0x6F else if a = 101 then 0x6B else 0) 100 = Some 2 \<and>
   strlen (\<lambda>a :: u32. 1) 7 = None"
proof
  show "strlen (\<lambda>a :: u32. if a = 100 then 0x6F else if a = 101 then 0x6B else 0) 100 = Some 2"
    using strlen_cstring [of "\<lambda>a :: u32. if a = 100 then 0x6F else if a = 101 then 0x6B else 0" 100 "[0x6F, 0x6B]"]
    by (simp add: cstring_Cons cstring_Nil)
  show "strlen (\<lambda>a :: u32. 1) 7 = None"
    using strlen_cstring [of "\<lambda>a :: u32. 1" 7 "[]"] by simp
qed

text \<open>
  \<^verbatim>\<open>strchr\<close> on a terminated string returns the null pointer when the byte does not occur in
  it, the pointer to its first occurrence otherwise, and the null pointer for a null argument;
  unlike the ISO function it does not find the terminator.
\<close>

theorem strchr_cstring:
  assumes "cstring m p cs"
  shows "strchr m p c =
     Some (if p = 0 then 0 else case find_byte c cs of None \<Rightarrow> 0 | Some i \<Rightarrow> p + of_nat i)"
  using strchr_loop_cstring [OF assms] by (simp add: strchr_def)

theorem strchr_cstring_witness:
  "strchr (\<lambda>a :: u32. if a = 100 then 0x6F else if a = 101 then 0x2E else 0) 100 0x2E = Some 101"
  using strchr_cstring [of "\<lambda>a :: u32. if a = 100 then 0x6F else if a = 101 then 0x2E else 0" 100 "[0x6F, 0x2E]" "0x2E"]
  by (simp add: cstring_Cons cstring_Nil)

lemma find_byte_None_iff: "find_byte c cs = None \<longleftrightarrow> c \<notin> set cs"
  by (induction cs) auto

lemma find_byte_Some:
  "find_byte c cs = Some i \<Longrightarrow> i < length cs \<and> cs ! i = c \<and> c \<notin> set (take i cs)"
  by (induction cs arbitrary: i) (auto split: if_splits)


lemma object_upd:
  assumes "\<And>k. k < n \<Longrightarrow> d \<noteq> p + of_nat k"
  shows "object (m(d := v)) p n = object m p n"
proof -
  have "p + of_nat k \<noteq> d" if "k < n" for k using assms [OF that] by blast
  then show ?thesis by (simp add: object_def)
qed

lemma cstring_upd:
  assumes "\<And>k. k \<le> length cs \<Longrightarrow> d \<noteq> p + of_nat k"
  shows "cstring (m(d := v)) p cs \<longleftrightarrow> cstring m p cs"
proof -
  have "p + of_nat (length cs) \<noteq> d" using assms [of "length cs"] by auto
  moreover have "object (m(d := v)) p (length cs) = object m p (length cs)"
    by (rule object_upd) (simp add: assms)
  ultimately show ?thesis by (simp add: cstring_def)
qed

lemma unat_diff_Suc:
  fixes a d :: "'a::len word"
  assumes "a \<noteq> d"
  shows "unat (a - d) = Suc (unat (a - (d + 1)))"
proof -
  have nz: "a - d \<noteq> 0" using assms by simp
  then have "0 < unat (a - d)" by (simp add: unat_gt_0)
  moreover have "unat (a - (d + 1)) = unat (a - d) - 1"
    using unat_minus_one [OF nz] by (simp add: algebra_simps)
  ultimately show ?thesis by simp
qed

lemma strcpy_loop_cstring:
  fixes dest src :: "'a::len word"
  assumes "cstring m src cs" and "length cs < unat (dest - src)"
  shows "strcpy_loop dest src m =
    Some (\<lambda>a. if unat (a - dest) < Suc (length cs) then m (src + (a - dest)) else m a)"
  using assms
proof (induction cs arbitrary: dest src m)
  case Nil
  then show ?case
    by (subst strcpy_loop.simps) (auto simp: cstring_Nil fun_eq_iff unat_eq_0)
next
  case (Cons c cs)
  have far: "dest \<noteq> src + of_nat k" if "k \<le> Suc (length cs)" for k
  proof
    assume "dest = src + of_nat k"
    then have "unat (dest - src) \<le> k" by (simp add: unat_of_nat take_bit_nat_less_eq_self)
    with that Cons.prems(2) show False by simp
  qed
  let ?m = "m(dest := m src)"
  have c: "m src \<noteq> 0" "cstring m (src + 1) cs"
    using Cons.prems(1) by (auto simp: cstring_Cons)
  have "cstring ?m (src + 1) cs"
    using c(2) far [of "Suc k" for k] by (subst cstring_upd) (auto simp: add.assoc)
  moreover have "length cs < unat (dest + 1 - (src + 1))"
    using Cons.prems(2) by simp
  ultimately have step: "strcpy_loop (dest + 1) (src + 1) ?m = Some (\<lambda>a.
      if unat (a - (dest + 1)) < Suc (length cs) then ?m (src + 1 + (a - (dest + 1))) else ?m a)"
    by (rule Cons.IH)
  have "(if unat (a - (dest + 1)) < Suc (length cs) then ?m (src + 1 + (a - (dest + 1))) else ?m a)
      = (if unat (a - dest) < Suc (length (c # cs)) then m (src + (a - dest)) else m a)" for a
  proof (cases "a = dest")
    case True
    then have "unat (a - (dest + 1)) = 2 ^ LENGTH('a) - 1"
      by (simp add: unsigned_minus_1_eq_mask mask_eq_exp_minus_1)
    moreover have "unat (dest - src) < 2 ^ LENGTH('a)" by (rule unsigned_less)
    ultimately show ?thesis using True Cons.prems(2) by simp
  next
    case False
    then have "a - dest \<noteq> dest - src \<or> \<not> unat (a - dest) < Suc (length (c # cs))"
      using Cons.prems(2) by auto
    then show ?thesis
      using False unat_diff_Suc [OF False] by (auto simp: algebra_simps)
  qed
  with c(1) step show ?case
    by (subst strcpy_loop.simps) simp
qed


text \<open>
  C40: \<^verbatim>\<open>strcpy\<close> of a terminated string onto a destination that does not start inside it or its
  terminator returns the destination, which then holds the same terminated string, and changes
  no byte outside the \<open>length + 1\<close> bytes it writes.
\<close>

theorem strcpy_copies:
  assumes "cstring m src cs" and "length cs < unat (dest - src)" and "dest \<noteq> 0" and "src \<noteq> 0"
  shows "\<exists>m'. strcpy dest src m = Some (dest, m') \<and> cstring m' dest cs \<and>
    (\<forall>a. length cs < unat (a - dest) \<longrightarrow> m' a = m a)"
proof -
  let ?m = "\<lambda>a. if unat (a - dest) < Suc (length cs) then m (src + (a - dest)) else m a"
  have len: "length cs < 2 ^ LENGTH('a)"
    by (rule less_trans [OF assms(2) unsigned_less])
  have at: "?m (dest + of_nat k) = m (src + of_nat k)" if "k \<le> length cs" for k
    using that len by simp
  have "object ?m dest (length cs) = object m src (length cs)"
    by (rule nth_equalityI) (use at in simp_all)
  with assms(1) at [of "length cs"] have "cstring ?m dest cs"
    by (simp add: cstring_def)
  moreover have "strcpy dest src m = Some (dest, ?m)"
    using assms(3,4) strcpy_loop_cstring [OF assms(1,2)] by (simp add: strcpy_def)
  ultimately show ?thesis by (intro exI [of _ ?m]) simp
qed

theorem strcpy_copies_witness:
  "\<exists>m'. strcpy (200 :: u32) 100 (\<lambda>a. if a = 100 then 0x6F else if a = 101 then 0x6B else 0) =
      Some (200, m') \<and> cstring m' 200 [0x6F, 0x6B] \<and>
    (\<forall>a. length [0x6F, 0x6B :: u8] < unat (a - 200) \<longrightarrow>
      m' a = (if a = 100 then 0x6F else if a = 101 then 0x6B else 0))"
  by (rule strcpy_copies) (simp_all add: cstring_Cons cstring_Nil)

section \<open>Characters\<close>

lemma sint_u8_eq:
  "(unat c < 128 \<and> sint c = int (unat c)) \<or>
   (128 \<le> unat c \<and> unat c < 256 \<and> sint c = int (unat c) - 256)" for c :: u8
  using unsigned_less [of c, where ?'a = nat] by (auto simp add: sint_eq_unat simp del: unsigned_less)

lemma islower_unat: "islower c \<longleftrightarrow> 0x61 \<le> unat c \<and> unat c \<le> 0x7A"
  using sint_u8_eq [of c] by (auto simp: islower_def word_sle_eq simp del: of_nat_unat)

lemma isupper_unat: "isupper c \<longleftrightarrow> 0x41 \<le> unat c \<and> unat c \<le> 0x5A"
  using sint_u8_eq [of c] by (auto simp: isupper_def word_sle_eq simp del: of_nat_unat)

lemma unat_toupper: "unat (toupper c) = (if islower c then unat c - 32 else unat c)"
  by (auto simp: toupper_def islower_unat unat_word_ariths unat_sub_if')

lemma unat_tolower: "unat (tolower c) = (if isupper c then unat c + 32 else unat c)"
  by (auto simp: tolower_def isupper_unat unat_word_ariths unat_sub_if')

text \<open>
  \<^verbatim>\<open>toupper\<close> and \<^verbatim>\<open>tolower\<close> invert each other on letters, leave every other byte alone, and
  no byte is a lower-case letter after \<^verbatim>\<open>toupper\<close>.
\<close>

theorem case_conversion:
  "(islower c \<longrightarrow> isupper (toupper c) \<and> tolower (toupper c) = c) \<and>
   (isupper c \<longrightarrow> islower (tolower c) \<and> toupper (tolower c) = c) \<and>
   (\<not> islower c \<longrightarrow> toupper c = c) \<and> (\<not> isupper c \<longrightarrow> tolower c = c) \<and>
   \<not> islower (toupper c)"
  by (auto simp: word_unat_eq_iff unat_toupper unat_tolower islower_unat isupper_unat)

theorem case_conversion_witness:
  "islower 0x6B \<and> isupper (toupper 0x6B) \<and> tolower (toupper 0x6B) = 0x6B"
  using case_conversion [of "0x6B"] by (simp add: islower_unat)

end
