(* ===== verification/Console.thy ===== *)
theory Console
  imports Libc_String Store
begin

text \<open>
  \<^verbatim>\<open>src/libc/stdio\<close> without the formatted output: the text screen and its cursor.  The state is the
  byte memory the screen buffer lies in, the cursor variables \<^verbatim>\<open>screenX\<close> and \<^verbatim>\<open>screenY\<close> and the
  writes made to I/O ports, the newest first.  \<^verbatim>\<open>SCREEN_WIDTH\<close> and \<^verbatim>\<open>SCREEN_HEIGHT\<close> are unsigned, so
  every comparison and index computation with the cursor is unsigned as well.
\<close>

section \<open>State (\<^verbatim>\<open>vars.c\<close>)\<close>

record console =
  vmem :: "nat \<Rightarrow> u8"
  screenX :: i32
  screenY :: i32
  ports :: "(u16 \<times> u8) list"

definition SCREEN_WIDTH :: u32 where
  "SCREEN_WIDTH = 80"

definition SCREEN_HEIGHT :: "build \<Rightarrow> u32" where
  "SCREEN_HEIGHT b = (case b of Boot32 \<Rightarrow> 24 | Kernel64 \<Rightarrow> 25)"

definition DEFAULT_COLOR :: u8 where
  "DEFAULT_COLOR = 0x7"

definition screenBuffer :: nat where
  "screenBuffer = 0xB8000"

text \<open>
  \<^verbatim>\<open>screenBuffer[i]\<close> for an unsigned \<^verbatim>\<open>i\<close>: the sum wraps around with 32-bit pointers only.
\<close>

definition buffer_addr :: "build \<Rightarrow> u32 \<Rightarrow> nat" where
  "buffer_addr b i = (case b of
     Boot32 \<Rightarrow> (screenBuffer + unat i) mod 2 ^ 32
   | Kernel64 \<Rightarrow> screenBuffer + unat i)"

text \<open>The index \<^verbatim>\<open>2 * (y * SCREEN_WIDTH + x)\<close> the four cell functions compute.\<close>

definition cell_index :: "i32 \<Rightarrow> i32 \<Rightarrow> u32" where
  "cell_index x y = 2 * (y * SCREEN_WIDTH + x)"

section \<open>Cells, cursor, scrolling\<close>

definition outb :: "u16 \<Rightarrow> u8 \<Rightarrow> console \<Rightarrow> console" where
  "outb port value s = s\<lparr>ports := (port, value) # ports s\<rparr>"

definition putchr :: "build \<Rightarrow> i32 \<Rightarrow> i32 \<Rightarrow> u8 \<Rightarrow> console \<Rightarrow> console" where
  "putchr b x y chr s =
     s\<lparr>vmem := (vmem s)(buffer_addr b (cell_index x y) := chr)\<rparr>"

definition putcolor :: "build \<Rightarrow> i32 \<Rightarrow> i32 \<Rightarrow> u8 \<Rightarrow> console \<Rightarrow> console" where
  "putcolor b x y color s =
     s\<lparr>vmem := (vmem s)(buffer_addr b (cell_index x y + 1) := color)\<rparr>"

definition getchr :: "build \<Rightarrow> i32 \<Rightarrow> i32 \<Rightarrow> console \<Rightarrow> u8" where
  "getchr b x y s = vmem s (buffer_addr b (cell_index x y))"

definition getcolor :: "build \<Rightarrow> i32 \<Rightarrow> i32 \<Rightarrow> console \<Rightarrow> u8" where
  "getcolor b x y s = vmem s (buffer_addr b (cell_index x y + 1))"

definition setcursor :: "i32 \<Rightarrow> i32 \<Rightarrow> console \<Rightarrow> console" where
  "setcursor x y s =
     (let pos = y * SCREEN_WIDTH + x in
      outb 0x3D5 (ucast (signed_drop_bit 8 pos AND 0xFF))
        (outb 0x3D4 0x0E
          (outb 0x3D5 (ucast (pos AND 0xFF))
            (outb 0x3D4 0x0F s))))"

definition clrscr :: "build \<Rightarrow> console \<Rightarrow> console" where
  "clrscr b s =
     (let s = for_up 0 (SCREEN_HEIGHT b) (\<lambda>y.
                for_up 0 SCREEN_WIDTH (\<lambda>x s.
                  putcolor b x y DEFAULT_COLOR (putchr b x y 0 s))) s;
          s = s\<lparr>screenX := 0, screenY := 0\<rparr>
      in setcursor (screenX s) (screenY s) s)"

definition scrollback :: "build \<Rightarrow> i32 \<Rightarrow> console \<Rightarrow> console" where
  "scrollback b lns s =
     (let s = for_up lns (SCREEN_HEIGHT b) (\<lambda>y.
                for_up 0 SCREEN_WIDTH (\<lambda>x s.
                  let s = putchr b x (y - lns) (getchr b x y s) s
                  in putcolor b x (y - lns) (getcolor b x y s) s)) s;
          s = for_up (SCREEN_HEIGHT b - lns) (SCREEN_HEIGHT b) (\<lambda>y.
                for_up 0 SCREEN_WIDTH (\<lambda>x s.
                  putcolor b x y DEFAULT_COLOR (putchr b x y 0 s))) s
      in s\<lparr>screenY := screenY s - lns\<rparr>)"

section \<open>\<^verbatim>\<open>putc\<close> and \<^verbatim>\<open>puts\<close>\<close>

text \<open>What \<^verbatim>\<open>putc\<close> does after its \<^verbatim>\<open>switch\<close>.\<close>

definition putc_finish :: "build \<Rightarrow> console \<Rightarrow> console" where
  "putc_finish b s =
     (let s = (if SCREEN_WIDTH \<le> screenX s
               then s\<lparr>screenY := screenY s + 1, screenX := 0\<rparr> else s);
          s = (if SCREEN_HEIGHT b \<le> screenY s then scrollback b 1 s else s)
      in setcursor (screenX s) (screenY s) s)"

text \<open>
  \<^verbatim>\<open>putc\<close> of anything but a tab, that is every case of the \<^verbatim>\<open>switch\<close> without a recursive call.
\<close>

definition putc_plain :: "build \<Rightarrow> u8 \<Rightarrow> console \<Rightarrow> console" where
  "putc_plain b chr s = putc_finish b
     (if chr = 0x0A then s\<lparr>screenX := 0, screenY := screenY s + 1\<rparr>
      else if chr = 0x0D then s\<lparr>screenX := 0\<rparr>
      else if chr = 0x08 then
        (let s = (if screenX s = 0
                  then s\<lparr>screenX := SCREEN_WIDTH - 1, screenY := screenY s - 1\<rparr>
                  else s\<lparr>screenX := screenX s - 1\<rparr>)
         in putchr b (screenX s) (screenY s) 0x20 s)
      else
        (let s = putchr b (screenX s) (screenY s) chr s
         in s\<lparr>screenX := screenX s + 1\<rparr>))"

text \<open>
  The loop of the tab case.  Its bound is computed anew from \<^verbatim>\<open>screenX\<close> in every round; the only
  recursive call of \<^verbatim>\<open>putc\<close> is the one for a space, which makes none itself.
\<close>

lemma smod_4_bounds: "- 4 < x smod 4 \<and> x smod 4 < 4" for x :: int
  by (auto simp: signed_modulo_int_eq_modulo_int dvd_eq_mod_eq_0 order_less_le_trans [OF _ pos_mod_sign])

function putc_tab :: "build \<Rightarrow> int \<Rightarrow> console \<Rightarrow> console" where
  "putc_tab b i s =
     (if i < 4 - sint (screenX s) smod 4 then putc_tab b (i + 1) (putc_plain b 0x20 s) else s)"
  by pat_completeness auto
termination
proof (relation "measure (\<lambda>(b, i, s). nat (8 - i))")
  show "((b, i + 1, putc_plain b 0x20 s), b, i, s) \<in> measure (\<lambda>(b, i, s). nat (8 - i))"
    if "i < 4 - sint (screenX s) smod 4" for b i s
  proof -
    have "- 4 < sint (screenX s) smod 4" by (simp add: smod_4_bounds)
    with that show ?thesis by simp
  qed
qed simp

declare putc_tab.simps [simp del]

definition putc :: "build \<Rightarrow> u8 \<Rightarrow> console \<Rightarrow> console" where
  "putc b chr s =
     (if chr = 0x09 then putc_finish b (putc_tab b 0 s) else putc_plain b chr s)"

text \<open>
  \<^verbatim>\<open>puts\<close> of the string held by an array with the given contents; it stops at the terminator, which
  follows the last byte listed.
\<close>

fun puts :: "build \<Rightarrow> u8 list \<Rightarrow> console \<Rightarrow> console" where
  "puts b [] s = s"
| "puts b (c # cs) s = (if c \<noteq> 0 then puts b cs (putc b c s) else s)"


section \<open>The screen as a store of cells\<close>

text \<open>
  A cell byte is named by its column, its row and whether it is the character or the colour.
\<close>

datatype plane = Chr | Col

type_synonym cell = "nat \<times> nat \<times> plane"

definition rows :: "build \<Rightarrow> nat" where
  "rows b = unat (SCREEN_HEIGHT b)"

fun on_screen :: "build \<Rightarrow> cell \<Rightarrow> bool" where
  "on_screen b (x, y, p) \<longleftrightarrow> x < 80 \<and> y < rows b"

fun cell_addr :: "cell \<Rightarrow> nat" where
  "cell_addr (x, y, p) = screenBuffer + 2 * (y * 80 + x) + (case p of Chr \<Rightarrow> 0 | Col \<Rightarrow> 1)"

fun cell_get :: "build \<Rightarrow> console \<Rightarrow> cell \<Rightarrow> u8" where
  "cell_get b s (x, y, Chr) = getchr b (of_nat x) (of_nat y) s"
| "cell_get b s (x, y, Col) = getcolor b (of_nat x) (of_nat y) s"

fun cell_put :: "build \<Rightarrow> cell \<Rightarrow> u8 \<Rightarrow> console \<Rightarrow> console" where
  "cell_put b (x, y, Chr) v s = putchr b (of_nat x) (of_nat y) v s"
| "cell_put b (x, y, Col) v s = putcolor b (of_nat x) (of_nat y) v s"

declare cell_get.simps [simp del] cell_put.simps [simp del]

lemma rows_simps [simp]: "rows Boot32 = 24" "rows Kernel64 = 25"
  by (simp_all add: rows_def SCREEN_HEIGHT_def)

lemma rows_bounds: "24 \<le> rows b" "rows b \<le> 25"
  by (cases b; simp)+

lemma buffer_addr_of_nat:
  "k < 4000 \<Longrightarrow> buffer_addr b (of_nat k) = screenBuffer + k"
  by (cases b) (simp_all add: buffer_addr_def screenBuffer_def)

declare cell_addr.simps [simp del]

lemma buffer_addr_cell:
  assumes "x < 80" and "y < 25"
  shows "buffer_addr b (cell_index (of_nat x) (of_nat y)) = cell_addr (x, y, Chr)"
    and "buffer_addr b (cell_index (of_nat x) (of_nat y) + 1) = cell_addr (x, y, Col)"
proof -
  have e: "cell_index (of_nat x) (of_nat y) = of_nat (2 * (y * 80 + x))"
    by (simp add: cell_index_def SCREEN_WIDTH_def)
  have e': "cell_index (of_nat x) (of_nat y) + 1 = of_nat (2 * (y * 80 + x) + 1)"
    unfolding e by simp
  have bound: "2 * (y * 80 + x) + 1 < 4000" using assms by simp
  show "buffer_addr b (cell_index (of_nat x) (of_nat y)) = cell_addr (x, y, Chr)"
    unfolding e using bound by (subst buffer_addr_of_nat) (simp_all add: cell_addr.simps)
  show "buffer_addr b (cell_index (of_nat x) (of_nat y) + 1) = cell_addr (x, y, Col)"
    unfolding e' using bound by (subst buffer_addr_of_nat) (simp_all add: cell_addr.simps)
qed

lemma cell_get_eq: "on_screen b i \<Longrightarrow> cell_get b s i = vmem s (cell_addr i)"
  using rows_bounds [of b]
  by (cases i; cases "snd (snd i)")
    (auto simp: cell_get.simps getchr_def getcolor_def buffer_addr_cell)

lemma cell_put_eq:
  "on_screen b i \<Longrightarrow> cell_put b i v s = s\<lparr>vmem := (vmem s)(cell_addr i := v)\<rparr>"
  using rows_bounds [of b]
  by (cases i; cases "snd (snd i)")
    (auto simp: cell_put.simps putchr_def putcolor_def buffer_addr_cell)

lemma cell_offset_inj:
  fixes x y x' y' c c' :: nat
  assumes "x < 80" "x' < 80" "c < 2" "c' < 2" "2 * (y * 80 + x) + c = 2 * (y' * 80 + x') + c'"
  shows "x = x' \<and> y = y' \<and> c = c'"
proof -
  have "(2 * (y * 80 + x) + c) mod 2 = c" "(2 * (y' * 80 + x') + c') mod 2 = c'"
    using assms(3,4) by (simp_all only: mod_mult_self4 mod_less)
  with assms(5) have c: "c = c'" by simp
  with assms(5) have k: "y * 80 + x = y' * 80 + x'" by simp
  have "(y * 80 + x) mod 80 = x" "(y' * 80 + x') mod 80 = x'"
    using assms(1,2) by simp_all
  with k have "x = x'" by simp
  with c k show ?thesis by simp
qed

lemma cell_addr_inj:
  assumes "on_screen b i" and "on_screen b j"
  shows "cell_addr i = cell_addr j \<longleftrightarrow> i = j"
proof
  obtain x y p x' y' p' where ij: "i = (x, y, p)" "j = (x', y', p')"
    by (metis prod.exhaust)
  let ?c = "\<lambda>p :: plane. (case p of Chr \<Rightarrow> 0 | Col \<Rightarrow> 1) :: nat"
  assume "cell_addr i = cell_addr j"
  then have "2 * (y * 80 + x) + ?c p = 2 * (y' * 80 + x') + ?c p'"
    by (simp add: ij cell_addr.simps)
  then have "x = x' \<and> y = y' \<and> ?c p = ?c p'"
    by (intro cell_offset_inj) (use assms ij in \<open>auto split: plane.split\<close>)
  then show "i = j" by (auto simp: ij split: plane.splits)
qed simp

interpretation cells: cell_store "cell_get b" "cell_put b" "on_screen b" for b
  by unfold_locales (simp add: cell_get_eq cell_put_eq cell_addr_inj)

text \<open>The cells of the given rows in the order the nested loops of the code visit them.\<close>

definition row_cells :: "nat list \<Rightarrow> cell list" where
  "row_cells ys = concat (map (\<lambda>y. concat (map (\<lambda>x. [(x, y, Chr), (x, y, Col)]) [0..<80])) ys)"

lemma set_row_cells: "(x, y, p) \<in> set (row_cells ys) \<longleftrightarrow> x < 80 \<and> y \<in> set ys"
  by (cases p) (auto simp: row_cells_def)

lemma fold_row_cells:
  "fold (\<lambda>y. fold (\<lambda>x s. f (x, y, Col) (f (x, y, Chr) s)) [0..<80]) ys s = fold f (row_cells ys) s"
proof -
  have "fold (\<lambda>x s. f (x, y, Col) (f (x, y, Chr) s)) xs
      = fold f (concat (map (\<lambda>x. [(x, y, Chr), (x, y, Col)]) xs))" for y xs
    by (induction xs) (simp_all add: fun_eq_iff)
  then show ?thesis by (simp only: row_cells_def fold_nested)
qed


fun blank :: "cell \<Rightarrow> u8" where
  "blank (x, y, Chr) = 0"
| "blank (x, y, Col) = DEFAULT_COLOR"

lemma unat_SCREEN_WIDTH [simp]: "unat SCREEN_WIDTH = 80"
  by (simp add: SCREEN_WIDTH_def)

lemma unat_SCREEN_HEIGHT [simp]: "unat (SCREEN_HEIGHT b) = rows b"
  by (simp add: rows_def)

lemma blank_loop:
  "for_up i (SCREEN_HEIGHT b) (\<lambda>y. for_up 0 SCREEN_WIDTH (\<lambda>x s.
      putcolor b x y DEFAULT_COLOR (putchr b x y 0 s))) s
   = fold (\<lambda>i. cell_put b i (blank i)) (row_cells [unat i..<rows b]) s"
  unfolding for_up_fold
  using fold_row_cells [of "\<lambda>i. cell_put b i (blank i)" "[unat i..<rows b]" s]
  by (simp add: cell_put.simps)

text \<open>Everything but the screen memory is untouched by cell writes.\<close>

lemma cell_put_other [simp]:
  "screenX (cell_put b i v s) = screenX s" "screenY (cell_put b i v s) = screenY s"
  "ports (cell_put b i v s) = ports s"
  by (cases "(b, i, v, s)" rule: cell_put.cases; simp add: cell_put.simps putchr_def putcolor_def)+

lemma fold_cell_put_other [simp]:
  "screenX (fold (\<lambda>i s. cell_put b i (f i s) s) is s) = screenX s"
  "screenY (fold (\<lambda>i s. cell_put b i (f i s) s) is s) = screenY s"
  "ports (fold (\<lambda>i s. cell_put b i (f i s) s) is s) = ports s"
  by (induction "is" arbitrary: s) simp_all

lemma outb_simps [simp]:
  "vmem (outb p v s) = vmem s" "screenX (outb p v s) = screenX s"
  "screenY (outb p v s) = screenY s" "ports (outb p v s) = (p, v) # ports s"
  by (simp_all add: outb_def)

lemma setcursor_simps [simp]:
  "vmem (setcursor x y s) = vmem s" "screenX (setcursor x y s) = screenX s"
  "screenY (setcursor x y s) = screenY s"
  by (simp_all add: setcursor_def Let_def)

lemma cell_get_cong: "vmem s = vmem t \<Longrightarrow> cell_get b s i = cell_get b t i"
  by (cases "(b, s, i)" rule: cell_get.cases; simp add: cell_get.simps getchr_def getcolor_def)

lemma cell_get_updates [simp]:
  "cell_get b (s\<lparr>screenX := x\<rparr>) i = cell_get b s i"
  "cell_get b (s\<lparr>screenY := y\<rparr>) i = cell_get b s i"
  "cell_get b (outb p v s) i = cell_get b s i"
  "cell_get b (setcursor x' y' s) i = cell_get b s i"
  by (rule cell_get_cong; simp)+

text \<open>
  After \<^verbatim>\<open>clrscr\<close> every cell of the screen is blank in the default colour and the cursor is in
  the top left corner.
\<close>

theorem clrscr_blank:
  "(x < 80 \<and> y < rows b \<longrightarrow>
      cell_get b (clrscr b s) (x, y, Chr) = 0 \<and>
      cell_get b (clrscr b s) (x, y, Col) = DEFAULT_COLOR) \<and>
   screenX (clrscr b s) = 0 \<and> screenY (clrscr b s) = 0"
proof -
  have "cell_get b (clrscr b s) (x, y, p) = blank (x, y, p)" if "x < 80" "y < rows b" for p
  proof -
    have "cell_get b (clrscr b s) (x, y, p) =
        cell_get b (fold (\<lambda>i. cell_put b i (blank i)) (row_cells [0..<rows b]) s) (x, y, p)"
      by (simp add: clrscr_def Let_def blank_loop)
    also have "\<dots> = blank (x, y, p)"
      by (subst cells.fetch_fold_store) (auto simp: set_row_cells that)
    finally show ?thesis .
  qed
  then show ?thesis by (simp add: clrscr_def Let_def)
qed

theorem clrscr_blank_witness:
  "cell_get Kernel64 (clrscr Kernel64 \<lparr> vmem = (\<lambda>a. 7), screenX = 3, screenY = 4, ports = [] \<rparr>) (79, 24, Chr) = 0"
  using clrscr_blank [of 79 24 Kernel64 "\<lparr> vmem = (\<lambda>a. 7), screenX = 3, screenY = 4, ports = [] \<rparr>"] by simp

section \<open>Scrolling\<close>

lemma row_cells_Cons:
  "row_cells (y # ys) = concat (map (\<lambda>x. [(x, y, Chr), (x, y, Col)]) [0..<80]) @ row_cells ys"
  by (simp add: row_cells_def)

lemma distinct_row_cells: "distinct ys \<Longrightarrow> distinct (row_cells ys)"
proof (induction ys)
  case (Cons y ys)
  have "distinct (concat (map (\<lambda>x. [(x, y, Chr), (x, y, Col)]) xs))" if "distinct xs" for xs :: "nat list"
    using that by (induction xs) auto
  moreover have "y \<noteq> y'" if "(x, y', p) \<in> set (row_cells ys)" for x y' p
    using that Cons.prems by (auto simp: set_row_cells)
  ultimately show ?case
    using Cons by (fastforce simp: row_cells_Cons)
qed (simp add: row_cells_def)

lemma sorted_row_cells:
  "sorted ys \<Longrightarrow> sorted_wrt (\<lambda>a b. fst (snd a) \<le> fst (snd b)) (row_cells ys)"
proof (induction ys)
  case (Cons y ys)
  have "sorted_wrt (\<lambda>a b. fst (snd a) \<le> fst (snd b)) cs" if "\<forall>c \<in> set cs. fst (snd c) = y" for cs :: "cell list"
    using that by (induction cs) auto
  moreover have "y \<le> fst (snd c)" if "c \<in> set (row_cells ys)" for c
  proof -
    obtain x y' p where c: "c = (x, y', p)" by (cases c)
    with that have "y' \<in> set ys" by (simp add: set_row_cells)
    with c Cons.prems show ?thesis by simp
  qed
  ultimately show ?case
    using Cons by (auto simp: row_cells_Cons sorted_wrt_append)
qed (simp add: row_cells_def)

text \<open>The cell \<open>n\<close> rows further down.\<close>

fun below :: "nat \<Rightarrow> cell \<Rightarrow> cell" where
  "below n (x, y, p) = (x, y + n, p)"

lemma row_cells_move_order:
  "sorted_wrt (\<lambda>a b. below n b \<noteq> a) (row_cells [0..<k])"
proof -
  have "distinct (row_cells [0..<k])" by (rule distinct_row_cells) simp
  then have "sorted_wrt (\<lambda>a b. a \<noteq> b) (row_cells [0..<k])"
    by (auto simp: sorted_wrt_iff_nth_less distinct_conv_nth)
  moreover have "sorted_wrt (\<lambda>a b. fst (snd a) \<le> fst (snd b)) (row_cells [0..<k])"
    by (rule sorted_row_cells) simp
  ultimately have "sorted_wrt (\<lambda>a b. a \<noteq> b \<and> fst (snd a) \<le> fst (snd b)) (row_cells [0..<k])"
    by (simp add: sorted_wrt_iff_nth_less)
  then show ?thesis
    by (rule sorted_wrt_mono_rel [rotated]) (auto simp: split_paired_all)
qed


lemma move_loop:
  assumes "n \<le> rows b"
  shows "for_up (of_nat n) (SCREEN_HEIGHT b) (\<lambda>y. for_up 0 SCREEN_WIDTH (\<lambda>x s.
      let s = putchr b x (y - of_nat n) (getchr b x y s) s
      in putcolor b x (y - of_nat n) (getcolor b x y s) s)) s
   = fold (\<lambda>i s. cell_put b i (cell_get b s (below n i)) s) (row_cells [0..<rows b - n]) s"
proof -
  let ?f = "\<lambda>i s. cell_put b i (cell_get b s (below n i)) s"
  have "n < 2 ^ 32" using assms rows_bounds [of b] by simp
  then have "unat (of_nat n :: u32) = n" by simp
  moreover have "[n..<rows b] = map (\<lambda>y. y + n) [0..<rows b - n]"
    using assms by (simp add: map_add_upt)
  ultimately show ?thesis
    unfolding for_up_fold fold_row_cells [of ?f, symmetric]
    by (simp add: fold_map comp_def cell_put.simps cell_get.simps Let_def)
qed

lemma cell_get_scrollback:
  assumes "n \<le> rows b" and "on_screen b (x, y, p)"
  shows "cell_get b (scrollback b (of_nat n) s) (x, y, p) =
    (if y + n < rows b then cell_get b s (x, y + n, p) else blank (x, y, p))"
proof -
  let ?s = "fold (\<lambda>i s. cell_put b i (cell_get b s (below n i)) s) (row_cells [0..<rows b - n]) s"
  have moved: "cell_get b ?s (x, y, p) = cell_get b s (x, y + n, p)" if "y + n < rows b"
  proof (subst cells.fetch_fold_move)
    show "on_screen b i \<and> on_screen b (below n i)" if "i \<in> set (row_cells [0..<rows b - n])" for i
    proof -
      obtain x' y' p' where i: "i = (x', y', p')" by (cases i)
      with that have "x' < 80" "y' < rows b - n" by (simp_all add: set_row_cells)
      with i show ?thesis by simp linarith
    qed
    show "distinct (row_cells [0..<rows b - n])" by (simp add: distinct_row_cells)
  qed (use that assms in \<open>auto simp: set_row_cells intro: row_cells_move_order\<close>)
  have "unat (SCREEN_HEIGHT b - of_nat n) = rows b - n"
    using assms(1) rows_bounds [of b] by (simp add: unat_sub_if')
  then have "cell_get b (scrollback b (of_nat n) s) (x, y, p) =
      cell_get b (fold (\<lambda>i. cell_put b i (blank i)) (row_cells [rows b - n..<rows b]) ?s) (x, y, p)"
    using assms(1) by (simp add: scrollback_def Let_def blank_loop move_loop [unfolded Let_def])
  also have "\<dots> = (if rows b \<le> y + n then blank (x, y, p) else cell_get b ?s (x, y, p))"
    by (subst cells.fetch_fold_store) (use assms in \<open>auto simp: set_row_cells\<close>)
  finally show ?thesis using moved by simp
qed

lemma scrollback_cursor:
  assumes "n \<le> rows b"
  shows "screenX (scrollback b (of_nat n) s) = screenX s"
    "screenY (scrollback b (of_nat n) s) = screenY s - of_nat n"
    "ports (scrollback b (of_nat n) s) = ports s"
  using assms by (simp_all add: scrollback_def Let_def blank_loop move_loop [unfolded Let_def])

text \<open>
  \<^verbatim>\<open>scrollback(lines)\<close> with at most a screenful of lines moves every cell, character and
  colour, that many rows up, leaves the freed rows at the bottom blank in the default colour and
  takes the lines off the cursor's row.
\<close>

theorem scrollback_scrolls:
  assumes "n \<le> rows b" and "x < 80" and "y < rows b"
  shows "cell_get b (scrollback b (of_nat n) s) (x, y, p) =
      (if y + n < rows b then cell_get b s (x, y + n, p)
       else case p of Chr \<Rightarrow> 0 | Col \<Rightarrow> DEFAULT_COLOR) \<and>
    screenX (scrollback b (of_nat n) s) = screenX s \<and>
    screenY (scrollback b (of_nat n) s) = screenY s - of_nat n"
proof -
  have "blank (x, y, p) = (case p of Chr \<Rightarrow> 0 | Col \<Rightarrow> DEFAULT_COLOR)"
    by (cases p) simp_all
  then show ?thesis
    using cell_get_scrollback [OF assms(1), of x y p s] assms
    by (simp add: scrollback_cursor)
qed

theorem scrollback_scrolls_witness:
  "cell_get Boot32 (scrollback Boot32 (of_nat 3) \<lparr> vmem = of_nat, screenX = 3, screenY = 23, ports = [] \<rparr>) (5, 20, Chr) =
     cell_get Boot32 \<lparr> vmem = of_nat, screenX = 3, screenY = 23, ports = [] \<rparr> (5, 23, Chr)"
  using scrollback_scrolls [of 3 Boot32 5 20 "\<lparr> vmem = of_nat, screenX = 3, screenY = 23, ports = [] \<rparr>" Chr]
  by simp

section \<open>What a terminal does\<close>

text \<open>
  The specification \<^verbatim>\<open>putc\<close> is compared with: a grid of cells and a cursor that are natural
  numbers, with no memory layout, no machine arithmetic and no unsigned comparison.
\<close>

record terminal =
  tcells :: "cell \<Rightarrow> u8"
  tx :: nat
  ty :: nat

definition term_scroll :: "nat \<Rightarrow> terminal \<Rightarrow> terminal" where
  "term_scroll h t = t\<lparr>
     tcells := (\<lambda>(x, y, p). if x < 80 \<and> y < h
                 then if y + 1 < h then tcells t (x, y + 1, p) else blank (x, y, p) else 0),
     ty := ty t - 1\<rparr>"

definition term_settle :: "nat \<Rightarrow> terminal \<Rightarrow> terminal" where
  "term_settle h t =
     (let t = (if tx t = 80 then t\<lparr>tx := 0, ty := ty t + 1\<rparr> else t)
      in if ty t = h then term_scroll h t else t)"

definition term_write :: "u8 \<Rightarrow> terminal \<Rightarrow> terminal" where
  "term_write c t = t\<lparr>tcells := (tcells t)((tx t, ty t, Chr) := c)\<rparr>"

definition term_putc :: "nat \<Rightarrow> u8 \<Rightarrow> terminal \<Rightarrow> terminal" where
  "term_putc h c t =
     (if c = 0x0A then term_settle h (t\<lparr>tx := 0, ty := ty t + 1\<rparr>)
      else if c = 0x0D then t\<lparr>tx := 0\<rparr>
      else if c = 0x08 then term_write 0x20
        (if tx t = 0 then t\<lparr>tx := 79, ty := ty t - 1\<rparr> else t\<lparr>tx := tx t - 1\<rparr>)
      else let t = term_write c t in term_settle h (t\<lparr>tx := tx t + 1\<rparr>))"

definition terminal_of :: "build \<Rightarrow> console \<Rightarrow> terminal" where
  "terminal_of b s =
     \<lparr>tcells = (\<lambda>i. if on_screen b i then cell_get b s i else 0),
      tx = unat (screenX s), ty = unat (screenY s)\<rparr>"

definition cursor_ok :: "build \<Rightarrow> console \<Rightarrow> bool" where
  "cursor_ok b s \<longleftrightarrow> unat (screenX s) < 80 \<and> unat (screenY s) < rows b"

named_theorems terminal_of_facts "how the operations of the console act on the terminal it shows"

lemma terminal_of_sel [simp]:
  "tx (terminal_of b s) = unat (screenX s)" "ty (terminal_of b s) = unat (screenY s)"
  by (simp_all add: terminal_of_def)

lemma terminal_of_cursor [terminal_of_facts]:
  "terminal_of b (s\<lparr>screenX := x\<rparr>) = (terminal_of b s)\<lparr>tx := unat x\<rparr>"
  "terminal_of b (s\<lparr>screenY := y\<rparr>) = (terminal_of b s)\<lparr>ty := unat y\<rparr>"
  "terminal_of b (setcursor u v s) = terminal_of b s"
  by (simp_all add: terminal_of_def cong: if_cong)

lemma putchr_cell:
  "putchr b x y c s = cell_put b (unat x, unat y, Chr) c s"
  by (simp add: cell_put.simps)

lemma putchr_cursor [simp]:
  "screenX (putchr b x y c s) = screenX s" "screenY (putchr b x y c s) = screenY s"
  "ports (putchr b x y c s) = ports s"
  by (simp_all add: putchr_def)

lemma term_write_sel [simp]:
  "tx (term_write c t) = tx t" "ty (term_write c t) = ty t"
  by (simp_all add: term_write_def)

lemma terminal_of_putchr [terminal_of_facts]:
  assumes "cursor_ok b s"
  shows "terminal_of b (putchr b (screenX s) (screenY s) c s) = term_write c (terminal_of b s)"
proof -
  let ?i = "(unat (screenX s), unat (screenY s), Chr)"
  have "on_screen b ?i" using assms by (simp add: cursor_ok_def)
  then show ?thesis
    by (auto simp: terminal_of_def term_write_def putchr_cell cells.fetch_store fun_eq_iff)
qed

lemma terminal_of_scrollback [terminal_of_facts]:
  assumes "0 < unat (screenY s)"
  shows "terminal_of b (scrollback b 1 s) = term_scroll (rows b) (terminal_of b s)"
proof -
  have one: "1 \<le> rows b" using rows_bounds [of b] by simp
  have "unat (screenY s - 1) = unat (screenY s) - 1"
    by (rule unat_minus_one) (use assms in auto)
  moreover have "screenX (scrollback b 1 s) = screenX s" "screenY (scrollback b 1 s) = screenY s - 1"
    using scrollback_cursor [of 1 b s] one by simp_all
  moreover have "(if on_screen b i then cell_get b (scrollback b 1 s) i else 0) =
      (case i of (x, y, p) \<Rightarrow> if x < 80 \<and> y < rows b
        then if y + 1 < rows b then tcells (terminal_of b s) (x, y + 1, p) else blank (x, y, p)
        else 0)" for i
  proof -
    obtain x y p where i: "i = (x, y, p)" by (cases i)
    show ?thesis
      using cell_get_scrollback [of 1 b x y p s] one by (simp add: i terminal_of_def)
  qed
  ultimately show ?thesis
    by (simp add: terminal_of_def [of b "scrollback b 1 s"] term_scroll_def fun_eq_iff
        del: on_screen.simps)
qed


lemma cursor_compare:
  "SCREEN_WIDTH \<le> x \<longleftrightarrow> 80 \<le> unat x" "SCREEN_HEIGHT b \<le> y \<longleftrightarrow> rows b \<le> unat y"
  by (simp_all add: word_le_nat_alt)

lemma unat_inc: "unat x < 100 \<Longrightarrow> unat (x + 1) = unat x + 1" for x :: u32
  by (simp add: unat_word_ariths)

lemma terminal_of_finish:
  assumes "unat (screenX s) \<le> 80" and "unat (screenY s) \<le> rows b"
    and "unat (screenX s) = 80 \<Longrightarrow> unat (screenY s) < rows b"
  shows "terminal_of b (putc_finish b s) = term_settle (rows b) (terminal_of b s)"
proof -
  let ?s = "if SCREEN_WIDTH \<le> screenX s then s\<lparr>screenY := screenY s + 1, screenX := 0\<rparr> else s"
  have inc: "unat (screenY s + 1) = unat (screenY s) + 1"
    using assms(2) rows_bounds [of b] by (intro unat_inc) simp
  have t: "terminal_of b ?s = (let t = terminal_of b s in
      if tx t = 80 then t\<lparr>tx := 0, ty := ty t + 1\<rparr> else t)"
    using assms(1) by (auto simp: terminal_of_facts cursor_compare inc Let_def)
  have le: "unat (screenY ?s) \<le> rows b"
    using assms by (simp add: cursor_compare inc Suc_le_eq)
  have "terminal_of b (if SCREEN_HEIGHT b \<le> screenY ?s then scrollback b 1 ?s else ?s) =
      (let t = terminal_of b ?s in if ty t = rows b then term_scroll (rows b) t else t)"
  proof (cases "SCREEN_HEIGHT b \<le> screenY ?s")
    case True
    then have eq: "unat (screenY ?s) = rows b" using le by (simp only: cursor_compare)
    then have "0 < unat (screenY ?s)" using rows_bounds [of b] by simp
    from terminal_of_scrollback [OF this] True eq show ?thesis by (simp only: Let_def terminal_of_sel simp_thms if_True)
  next
    case False
    then have "unat (screenY ?s) \<noteq> rows b" by (simp only: cursor_compare)
    with False show ?thesis by (simp only: Let_def terminal_of_sel simp_thms if_False)
  qed
  then show ?thesis
    unfolding putc_finish_def term_settle_def Let_def terminal_of_cursor t by simp
qed

lemma unat_dec: "x \<noteq> 0 \<Longrightarrow> unat (x - 1) = unat x - 1" for x :: u32
  by (rule unat_minus_one)

lemma terminal_of_putc_plain:
  assumes "cursor_ok b s" and "c = 0x08 \<Longrightarrow> screenX s \<noteq> 0 \<or> screenY s \<noteq> 0"
  shows "terminal_of b (putc_plain b c s) = term_putc (rows b) c (terminal_of b s)"
proof -
  have ok: "unat (screenX s) < 80" "unat (screenY s) < rows b" "rows b \<le> 25"
    using assms(1) rows_bounds [of b] by (simp_all add: cursor_ok_def)
  have inc: "unat (screenX s + 1) = unat (screenX s) + 1" "unat (screenY s + 1) = unat (screenY s) + 1"
    using ok by (intro unat_inc; simp)+
  show ?thesis
  proof (cases "c = 0x08")
    case True
    let ?s = "if screenX s = 0 then s\<lparr>screenX := SCREEN_WIDTH - 1, screenY := screenY s - 1\<rparr>
              else s\<lparr>screenX := screenX s - 1\<rparr>"
    have w: "unat (SCREEN_WIDTH - 1) = 79" by (simp add: SCREEN_WIDTH_def)
    have ok': "cursor_ok b ?s"
      using ok assms(2) [OF True] unat_dec [of "screenX s"] unat_dec [of "screenY s"]
      by (auto simp: cursor_ok_def w)
    let ?p = "putchr b (screenX ?s) (screenY ?s) 0x20 ?s"
    have "terminal_of b ?s = (if tx (terminal_of b s) = 0
        then (terminal_of b s)\<lparr>tx := 79, ty := ty (terminal_of b s) - 1\<rparr>
        else (terminal_of b s)\<lparr>tx := tx (terminal_of b s) - 1\<rparr>)"
      using assms(2) [OF True] unat_dec [of "screenX s"] unat_dec [of "screenY s"]
      by (auto simp: terminal_of_facts w unat_eq_0)
    moreover have "terminal_of b ?p = term_write 0x20 (terminal_of b ?s)"
      by (rule terminal_of_putchr [OF ok'])
    moreover have "terminal_of b (putc_finish b ?p) = term_settle (rows b) (terminal_of b ?p)"
      using ok' by (intro terminal_of_finish) (auto simp: cursor_ok_def)
    moreover have "term_settle (rows b) (terminal_of b ?p) = terminal_of b ?p"
      using ok' by (auto simp: term_settle_def Let_def cursor_ok_def)
    ultimately show ?thesis
      using True by (simp add: putc_plain_def term_putc_def Let_def)
  next
    case False
    have "terminal_of b (putc_finish b (s\<lparr>screenX := 0, screenY := screenY s + 1\<rparr>)) =
        term_settle (rows b) ((terminal_of b s)\<lparr>tx := 0, ty := unat (screenY s) + 1\<rparr>)"
      using ok inc by (subst terminal_of_finish) (simp_all add: terminal_of_facts)
    moreover have "terminal_of b (putc_finish b (s\<lparr>screenX := 0\<rparr>)) = (terminal_of b s)\<lparr>tx := 0\<rparr>"
      using ok by (subst terminal_of_finish) (simp_all add: terminal_of_facts term_settle_def)
    moreover have "terminal_of b (putc_finish b
          ((putchr b (screenX s) (screenY s) c s)\<lparr>screenX := screenX s + 1\<rparr>)) =
        term_settle (rows b) ((term_write c (terminal_of b s))\<lparr>tx := unat (screenX s) + 1\<rparr>)"
      using ok inc assms(1) by (subst terminal_of_finish) (simp_all add: terminal_of_facts)
    ultimately show ?thesis
      using False by (simp add: putc_plain_def term_putc_def Let_def)
  qed
qed


lemma term_putc_bounds:
  assumes "tx t < 80" and "ty t < h" and "1 < h" and "c = 0x08 \<Longrightarrow> tx t \<noteq> 0 \<or> ty t \<noteq> 0"
  shows "tx (term_putc h c t) < 80 \<and> ty (term_putc h c t) < h"
  using assms by (auto simp: term_putc_def term_settle_def term_scroll_def Let_def)

lemma cursor_ok_terminal:
  "cursor_ok b s \<longleftrightarrow> tx (terminal_of b s) < 80 \<and> ty (terminal_of b s) < rows b"
  by (simp add: cursor_ok_def)

lemma cursor_ok_putc_plain:
  assumes "cursor_ok b s" and "c = 0x08 \<Longrightarrow> screenX s \<noteq> 0 \<or> screenY s \<noteq> 0"
  shows "cursor_ok b (putc_plain b c s)"
proof -
  have "tx (term_putc (rows b) c (terminal_of b s)) < 80 \<and>
      ty (term_putc (rows b) c (terminal_of b s)) < rows b"
    by (rule term_putc_bounds)
      (use assms rows_bounds [of b] in \<open>auto simp: cursor_ok_def unat_eq_0\<close>)
  then show ?thesis
    by (simp only: cursor_ok_terminal terminal_of_putc_plain [OF assms] simp_thms)
qed

lemma cursor_ok_finish:
  assumes "cursor_ok b s"
  shows "terminal_of b (putc_finish b s) = terminal_of b s \<and> cursor_ok b (putc_finish b s)"
proof -
  have "terminal_of b (putc_finish b s) = term_settle (rows b) (terminal_of b s)"
    using assms by (intro terminal_of_finish) (simp_all add: cursor_ok_def)
  also have "\<dots> = terminal_of b s"
    using assms by (simp add: cursor_ok_def term_settle_def)
  finally show ?thesis using assms by (simp add: cursor_ok_terminal)
qed

text \<open>
  C18: As long as the cursor is on the screen, and unless a backspace is printed in the top left
  corner, \<^verbatim>\<open>putc\<close> of any byte but a tab does to the screen buffer and the cursor variables what the
  abstract terminal does, and leaves the cursor on the screen.
\<close>

theorem putc_refines_terminal:
  assumes "cursor_ok b s" and "c \<noteq> 0x09" and "c = 0x08 \<Longrightarrow> screenX s \<noteq> 0 \<or> screenY s \<noteq> 0"
  shows "terminal_of b (putc b c s) = term_putc (rows b) c (terminal_of b s) \<and>
    cursor_ok b (putc b c s)"
  using assms by (simp add: putc_def terminal_of_putc_plain cursor_ok_putc_plain)

definition blank_console :: console where
  "blank_console = \<lparr>vmem = (\<lambda>_. 0), screenX = 79, screenY = 24, ports = []\<rparr>"

theorem putc_refines_terminal_witness:
  "terminal_of Kernel64 (putc Kernel64 0x41 blank_console) =
     term_putc (rows Kernel64) 0x41 (terminal_of Kernel64 blank_console) \<and>
   cursor_ok Kernel64 (putc Kernel64 0x41 blank_console)"
  by (rule putc_refines_terminal) (simp_all add: cursor_ok_def blank_console_def)

section \<open>Tabs\<close>

text \<open>How many spaces a tab prints, by the cursor's column modulo 4.\<close>

definition tab_width :: "nat \<Rightarrow> nat" where
  "tab_width m = (if m = 2 then 1 else if m = 3 then 3 else 2)"

lemma tx_space:
  assumes "tx t < 80"
  shows "tx (term_putc h 0x20 t) mod 4 = (tx t + 1) mod 4"
proof -
  have "tx (term_putc h 0x20 t) = (if tx t + 1 = 80 then 0 else tx t + 1)"
    by (auto simp: term_putc_def term_settle_def term_scroll_def Let_def)
  then show ?thesis by (auto simp: assms)
qed

lemma putc_tab_step:
  assumes "cursor_ok b s"
  shows "putc_tab b (int i) s =
      (if i + unat (screenX s) mod 4 < 4 then putc_tab b (int (Suc i)) (putc_plain b 0x20 s) else s)"
    and "unat (screenX (putc_plain b 0x20 s)) mod 4 = (unat (screenX s) + 1) mod 4"
    and "cursor_ok b (putc_plain b 0x20 s)"
proof -
  have x: "unat (screenX s) < 80" using assms by (simp add: cursor_ok_def)
  then have "sint (screenX s) = int (unat (screenX s))"
    by (simp add: sint_eq_unat)
  then have "sint (screenX s) smod 4 = int (unat (screenX s) mod 4)"
    by (simp add: signed_modulo_int_def sgn_if zmod_int del: of_nat_unat)
  then show "putc_tab b (int i) s =
      (if i + unat (screenX s) mod 4 < 4 then putc_tab b (int (Suc i)) (putc_plain b 0x20 s) else s)"
    by (simp add: putc_tab.simps [of b "int i"] add.commute)
  have "tx (terminal_of b (putc_plain b 0x20 s)) mod 4 = (tx (terminal_of b s) + 1) mod 4"
    using tx_space x by (subst terminal_of_putc_plain [OF assms]) auto
  then show "unat (screenX (putc_plain b 0x20 s)) mod 4 = (unat (screenX s) + 1) mod 4"
    by simp
  show "cursor_ok b (putc_plain b 0x20 s)"
    by (rule cursor_ok_putc_plain [OF assms]) simp
qed


lemma terminal_of_space:
  "cursor_ok b s \<Longrightarrow> terminal_of b (putc_plain b 0x20 s) = term_putc (rows b) 0x20 (terminal_of b s)"
  by (rule terminal_of_putc_plain) simp_all

lemma spaces_state:
  assumes "cursor_ok b s"
  shows "cursor_ok b ((putc_plain b 0x20 ^^ k) s)"
    and "unat (screenX ((putc_plain b 0x20 ^^ k) s)) mod 4 = (unat (screenX s) mod 4 + k) mod 4"
    and "terminal_of b ((putc_plain b 0x20 ^^ k) s) = (term_putc (rows b) 0x20 ^^ k) (terminal_of b s)"
proof (induction k)
  case (Suc k)
  {
    case 1
    from Suc.IH(1) show ?case by (simp add: putc_tab_step(3))
  next
    case 2
    let ?x = "\<lambda>k. unat (screenX ((putc_plain b 0x20 ^^ k) s))"
    have "?x (Suc k) mod 4 = (?x k + 1) mod 4"
      using putc_tab_step(2) [OF Suc.IH(1)] by simp
    also have "\<dots> = ((unat (screenX s) mod 4 + k) mod 4 + 1) mod 4"
      by (simp only: Suc.IH(2) mod_add_left_eq [of "?x k" 4 1, symmetric])
    finally show ?case by (simp only: mod_add_left_eq add_Suc_right Suc_eq_plus1 add.assoc)
  next
    case 3
    from Suc.IH(1,3) show ?case by (simp add: terminal_of_space)
  }
qed (use assms in simp_all)

lemma tab_width_Suc:
  "tab_width 0 = Suc (Suc 0)" "tab_width 1 = Suc (Suc 0)" "tab_width 2 = Suc 0"
  "tab_width 3 = Suc (Suc (Suc 0))"
  by (simp_all add: tab_width_def)

lemma tab_rounds:
  assumes "\<And>k. G k = (if k + (m + k) mod 4 < 4 then G (Suc k) else H k)" and "m < 4"
  shows "G 0 = H (tab_width m)"
proof -
  have "m = 0 \<or> m = 1 \<or> m = 2 \<or> m = 3" using assms(2) by linarith
  then show ?thesis
    using assms(1) [of 0] assms(1) [of "Suc 0"] assms(1) [of "Suc (Suc 0)"]
      assms(1) [of "Suc (Suc (Suc 0))"]
    by (elim disjE) (simp_all only: tab_width_Suc, simp_all)
qed

lemma putc_tab_spaces:
  assumes "cursor_ok b s"
  shows "putc_tab b 0 s = (putc_plain b 0x20 ^^ tab_width (unat (screenX s) mod 4)) s"
proof -
  let ?f = "putc_plain b 0x20" and ?m = "unat (screenX s) mod 4"
  let ?G = "\<lambda>k. putc_tab b (int k) ((?f ^^ k) s)"
  have "?G k = (if k + (?m + k) mod 4 < 4 then ?G (Suc k) else (?f ^^ k) s)" for k
    using putc_tab_step(1) [OF spaces_state(1) [OF assms], of k k]
    by (simp only: spaces_state(2) [OF assms] funpow.simps comp_apply)
  from tab_rounds [of ?G ?m "\<lambda>k. (?f ^^ k) s", OF this] show ?thesis by simp
qed

text \<open>
  A tab prints two spaces from a column that is a multiple of four, and two, one or three from
  the columns after it, so that the cursor never ends on a column that is a multiple of four: the
  bound of the loop shrinks while it runs.
\<close>

theorem tab_misses_tab_stops:
  assumes "cursor_ok b s"
  shows "terminal_of b (putc b 0x09 s) =
      (term_putc (rows b) 0x20 ^^ tab_width (unat (screenX s) mod 4)) (terminal_of b s) \<and>
    unat (screenX (putc b 0x09 s)) mod 4 \<noteq> 0"
proof -
  let ?k = "tab_width (unat (screenX s) mod 4)"
  let ?s = "(putc_plain b 0x20 ^^ ?k) s"
  have eq: "putc b 0x09 s = putc_finish b ?s"
    by (simp add: putc_def putc_tab_spaces [OF assms])
  have fin: "terminal_of b (putc_finish b ?s) = terminal_of b ?s"
    using cursor_ok_finish [OF spaces_state(1) [OF assms]] by simp
  then have "tx (terminal_of b (putc_finish b ?s)) = tx (terminal_of b ?s)" by simp
  then have "unat (screenX (putc b 0x09 s)) mod 4 = (unat (screenX s) mod 4 + ?k) mod 4"
    by (simp only: eq terminal_of_sel spaces_state(2) [OF assms])
  moreover have "(m + tab_width m) mod 4 \<noteq> 0" if "m < 4" for m
  proof -
    have "m = 0 \<or> m = 1 \<or> m = 2 \<or> m = 3" using that by linarith
    then show ?thesis by (elim disjE) (simp_all add: tab_width_def)
  qed
  ultimately show ?thesis
    by (simp add: eq fin spaces_state(3) [OF assms])
qed

theorem tab_misses_tab_stops_witness:
  "terminal_of Kernel64 (putc Kernel64 0x09 (blank_console\<lparr>screenX := 0\<rparr>)) =
     (term_putc (rows Kernel64) 0x20 ^^ tab_width (unat (screenX (blank_console\<lparr>screenX := 0\<rparr>)) mod 4))
       (terminal_of Kernel64 (blank_console\<lparr>screenX := 0\<rparr>)) \<and>
   unat (screenX (putc Kernel64 0x09 (blank_console\<lparr>screenX := 0\<rparr>))) mod 4 \<noteq> 0"
  by (rule tab_misses_tab_stops) (simp add: cursor_ok_def blank_console_def)


section \<open>Which memory is written\<close>

definition in_buffer :: "build \<Rightarrow> nat \<Rightarrow> bool" where
  "in_buffer b a \<longleftrightarrow> screenBuffer \<le> a \<and> a < screenBuffer + 160 * rows b"

lemma cell_addr_in_buffer: "on_screen b i \<Longrightarrow> in_buffer b (cell_addr i)"
  by (cases i; cases "snd (snd i)") (auto simp: in_buffer_def cell_addr.simps)

named_theorems outside_facts "memory outside the screen buffer is not written"

lemma fold_cell_put_outside [outside_facts]:
  assumes "\<not> in_buffer b a" and "\<forall>i \<in> set is. on_screen b i"
  shows "vmem (fold (\<lambda>i s. cell_put b i (f i s) s) is s) a = vmem s a"
  using assms(2)
proof (induction "is" arbitrary: s)
  case (Cons i "is")
  then have "in_buffer b (cell_addr i)" by (simp add: cell_addr_in_buffer)
  then have "a \<noteq> cell_addr i" using assms(1) by blast
  with Cons show ?case by (simp add: cell_put_eq)
qed simp

lemma row_cells_on_screen: "k \<le> rows b \<Longrightarrow> \<forall>i \<in> set (row_cells [j..<k]). on_screen b i"
  by (auto simp: set_row_cells)

lemma scrollback_outside [outside_facts]:
  assumes "\<not> in_buffer b a"
  shows "vmem (scrollback b 1 s) a = vmem s a"
proof -
  have one: "1 \<le> rows b" using rows_bounds [of b] by simp
  show ?thesis
    using move_loop [OF one]
    by (simp add: scrollback_def Let_def blank_loop
        fold_cell_put_outside [OF assms row_cells_on_screen [OF le_refl]]
        fold_cell_put_outside [OF assms row_cells_on_screen [OF diff_le_self]])
qed

lemma putc_finish_outside [outside_facts]:
  "\<not> in_buffer b a \<Longrightarrow> vmem (putc_finish b s) a = vmem s a"
  by (simp add: putc_finish_def Let_def scrollback_outside)

lemma putchr_outside:
  assumes "\<not> in_buffer b a" and "cursor_ok b s"
  shows "vmem (putchr b (screenX s) (screenY s) c s) a = vmem s a"
proof -
  have "on_screen b (unat (screenX s), unat (screenY s), Chr)"
    using assms(2) by (simp add: cursor_ok_def)
  then have "a \<noteq> cell_addr (unat (screenX s), unat (screenY s), Chr)"
    using cell_addr_in_buffer assms(1) by blast
  then show ?thesis
    using assms(2) by (simp add: putchr_cell cell_put_eq cursor_ok_def)
qed

lemma putc_plain_outside [outside_facts]:
  assumes "\<not> in_buffer b a" and "cursor_ok b s" and "c = 0x08 \<Longrightarrow> screenX s \<noteq> 0 \<or> screenY s \<noteq> 0"
  shows "vmem (putc_plain b c s) a = vmem s a"
proof (cases "c = 0x08")
  case True
  let ?t = "if screenX s = 0 then s \<lparr> screenX := SCREEN_WIDTH - 1, screenY := screenY s - 1 \<rparr>
    else s \<lparr> screenX := screenX s - 1 \<rparr>"
  have "cursor_ok b ?t"
    using assms(2) assms(3) [OF True] by (auto simp: cursor_ok_def SCREEN_WIDTH_def unat_dec)
  from putchr_outside [OF assms(1) this, of "0x20"] show ?thesis
    using True by (simp add: putc_plain_def Let_def putc_finish_outside [OF assms(1)] split: if_splits)
next
  case False
  then show ?thesis using assms by (auto simp: putc_plain_def Let_def putc_finish_outside putchr_outside)
qed

lemma putc_outside [outside_facts]:
  assumes "\<not> in_buffer b a" and "cursor_ok b s" and "c = 0x08 \<Longrightarrow> screenX s \<noteq> 0 \<or> screenY s \<noteq> 0"
  shows "vmem (putc b c s) a = vmem s a \<and> cursor_ok b (putc b c s)"
proof -
  have "vmem ((putc_plain b 0x20 ^^ k) s) a = vmem s a" for k
  proof (induction k)
    case (Suc k)
    have "vmem (putc_plain b 0x20 ((putc_plain b 0x20 ^^ k) s)) a = vmem ((putc_plain b 0x20 ^^ k) s) a"
      by (rule putc_plain_outside [OF assms(1) spaces_state(1) [OF assms(2)]]) simp
    then show ?case using Suc by simp
  qed simp
  then show ?thesis
    using assms cursor_ok_finish [OF spaces_state(1) [OF assms(2)]]
    by (auto simp: putc_def putc_tab_spaces outside_facts cursor_ok_putc_plain)
qed

text \<open>Text of which no backspace comes with the cursor in the top left corner.\<close>

fun home_safe :: "build \<Rightarrow> u8 list \<Rightarrow> console \<Rightarrow> bool" where
  "home_safe b [] s \<longleftrightarrow> True"
| "home_safe b (c # cs) s \<longleftrightarrow>
     (c = 0x08 \<longrightarrow> screenX s \<noteq> 0 \<or> screenY s \<noteq> 0) \<and> home_safe b cs (putc b c s)"

lemma home_safe_no_backspace: "0x08 \<notin> set cs \<Longrightarrow> home_safe b cs s"
  by (induction cs arbitrary: s) auto

lemma home_safe_append: "home_safe b (cs @ ds) s \<longleftrightarrow> home_safe b cs s \<and> home_safe b ds (fold (putc b) cs s)"
  by (induction cs arbitrary: s) auto

lemma home_unsafe:
  "\<not> home_safe b cs s \<Longrightarrow> \<exists>ds es. cs = ds @ 0x08 # es \<and> home_safe b ds s \<and>
    screenX (fold (putc b) ds s) = 0 \<and> screenY (fold (putc b) ds s) = 0"
proof (induction cs arbitrary: s)
  case (Cons c cs)
  show ?case
  proof (cases "c = 0x08 \<and> screenX s = 0 \<and> screenY s = 0")
    case True
    then show ?thesis by (intro exI [of _ "[]"] exI [of _ cs]) simp
  next
    case False
    then obtain ds es where "cs = ds @ 0x08 # es" "home_safe b ds (putc b c s)"
        "screenX (fold (putc b) ds (putc b c s)) = 0" "screenY (fold (putc b) ds (putc b c s)) = 0"
      using Cons.IH [of "putc b c s"] Cons.prems by auto
    then show ?thesis using False by (intro exI [of _ "c # ds"] exI [of _ es]) auto
  qed
qed simp

lemma text_outside:
  assumes "\<not> in_buffer b a" and "cursor_ok b s" and "home_safe b cs s"
  shows "vmem (fold (putc b) cs s) a = vmem s a \<and> cursor_ok b (fold (putc b) cs s)"
  using assms(2,3)
proof (induction cs arbitrary: s)
  case (Cons c cs)
  have "vmem (putc b c s) a = vmem s a \<and> cursor_ok b (putc b c s)"
    using Cons.prems by (intro putc_outside [OF assms(1)]) auto
  then show ?case using Cons.IH [of "putc b c s"] Cons.prems(2) by simp
qed simp

lemma puts_fold: "puts b cs s = fold (putc b) (takeWhile (\<lambda>c. c \<noteq> 0) cs) s"
  by (induction b cs s rule: puts.induct) simp_all

text \<open>Where a backspace in the top left corner stores its space: two bytes before the buffer, modulo the pointers' width.\<close>

definition before_home :: "build \<Rightarrow> nat" where
  "before_home b = (case b of Boot32 \<Rightarrow> 0xB7FFE | Kernel64 \<Rightarrow> 0x1000B7FFE)"

lemma backspace_at_home:
  assumes "screenX s = 0" and "screenY s = 0"
  shows "screenX (putc b 0x08 s) = 79 \<and> screenY (putc b 0x08 s) = - 2 \<and>
    \<not> cursor_ok b (putc b 0x08 s) \<and> vmem (putc b 0x08 s) (before_home b) = 0x20"
proof -
  let ?a = "before_home b"
  let ?s = "putchr b 79 (- 1) 0x20 (s\<lparr>screenX := 79, screenY := - 1\<rparr>)"
  have out: "\<not> in_buffer b ?a" by (cases b) (simp_all add: before_home_def in_buffer_def screenBuffer_def)
  have addr: "buffer_addr b (cell_index 79 (- 1)) = ?a"
    by (cases b) (simp_all add: before_home_def buffer_addr_def cell_index_def SCREEN_WIDTH_def screenBuffer_def)
  have "1 \<le> rows b" "unat (- 1 :: i32) \<ge> rows b"
    using rows_bounds [of b] by (simp_all add: unsigned_minus_1_eq_mask mask_eq_exp_minus_1)
  then have "putc b 0x08 s = setcursor 79 (- 2) (scrollback b 1 ?s)"
    using assms scrollback_cursor [of 1 b ?s]
    by (simp add: putc_def putc_plain_def putc_finish_def cursor_compare SCREEN_WIDTH_def Let_def)
  moreover have "vmem ?s ?a = 0x20"
    by (simp add: putchr_def addr)
  ultimately show ?thesis
    using scrollback_cursor [of 1 b ?s] \<open>1 \<le> rows b\<close> rows_bounds [of b]
    by (simp add: scrollback_outside [OF out] cursor_ok_def)
qed

text \<open>
  A backspace printed in the top left corner stores its space outside the screen buffer, two
  bytes before it in the boot loader and almost 4 GiB after it in the kernel, scrolls the screen
  and leaves the cursor on row \<open>-2\<close>: the unsigned comparison takes the row \<open>-1\<close> for one below the
  screen.
\<close>

theorem backspace_at_home_leaves_screen:
  assumes "screenX s = 0" and "screenY s = 0"
  shows "screenX (putc b 0x08 s) = 79 \<and> screenY (putc b 0x08 s) = - 2 \<and>
    \<not> cursor_ok b (putc b 0x08 s) \<and>
    vmem (putc b 0x08 s) (case b of Boot32 \<Rightarrow> 0xB7FFE | Kernel64 \<Rightarrow> 0x1000B7FFE) = 0x20"
  using backspace_at_home [OF assms, of b] by (simp add: before_home_def)

theorem backspace_at_home_leaves_screen_witness:
  "\<not> cursor_ok Kernel64 (putc Kernel64 0x08 (blank_console\<lparr>screenX := 0, screenY := 0\<rparr>))"
  using backspace_at_home_leaves_screen [of "blank_console\<lparr>screenX := 0, screenY := 0\<rparr>" Kernel64]
  by simp


text \<open>
  C39: Over every string, from a cursor on the screen: unless a backspace comes with the cursor in the top
  left corner, \<^verbatim>\<open>puts\<close> keeps the cursor on the screen and writes no memory outside the screen buffer;
  and if one does, the text before it is safe and the backspace leaves the cursor off the screen and
  stores a space outside the buffer, two bytes before it in the boot loader and almost 4 GiB after it in
  the kernel.
\<close>

theorem puts_memory_safe:
  assumes "cursor_ok b s"
  shows "(home_safe b (takeWhile (\<lambda>c. c \<noteq> 0) cs) s \<longrightarrow>
      cursor_ok b (puts b cs s) \<and> (\<forall>a. \<not> in_buffer b a \<longrightarrow> vmem (puts b cs s) a = vmem s a)) \<and>
    (\<not> home_safe b (takeWhile (\<lambda>c. c \<noteq> 0) cs) s \<longrightarrow>
      (\<exists>ds es. takeWhile (\<lambda>c. c \<noteq> 0) cs = ds @ 0x08 # es \<and>
        cursor_ok b (puts b ds s) \<and> (\<forall>a. \<not> in_buffer b a \<longrightarrow> vmem (puts b ds s) a = vmem s a) \<and>
        \<not> cursor_ok b (putc b 0x08 (puts b ds s)) \<and> \<not> in_buffer b (before_home b) \<and>
        vmem (putc b 0x08 (puts b ds s)) (before_home b) = 0x20))"
proof -
  have out: "\<not> in_buffer b 0" "\<not> in_buffer b (before_home b)"
    by (cases b; simp add: in_buffer_def screenBuffer_def before_home_def)+
  note safe = text_outside [OF _ assms]
  show ?thesis
  proof (intro conjI impI)
    assume unsafe: "\<not> home_safe b (takeWhile (\<lambda>c. c \<noteq> 0) cs) s"
    then obtain ds es where split: "takeWhile (\<lambda>c. c \<noteq> 0) cs = ds @ 0x08 # es" "home_safe b ds s"
        and home: "screenX (fold (putc b) ds s) = 0" "screenY (fold (putc b) ds s) = 0"
      using home_unsafe by blast
    have "0 \<notin> set ds" using split(1) set_takeWhileD [of _ "\<lambda>c. c \<noteq> 0" cs] by fastforce
    then have "takeWhile (\<lambda>c. c \<noteq> 0) ds = ds" by (intro takeWhile_eq_all_conv [THEN iffD2] ballI) auto
    then have ds: "puts b ds s = fold (putc b) ds s" by (simp only: puts_fold)
    show "\<exists>ds es. takeWhile (\<lambda>c. c \<noteq> 0) cs = ds @ 0x08 # es \<and>
        cursor_ok b (puts b ds s) \<and> (\<forall>a. \<not> in_buffer b a \<longrightarrow> vmem (puts b ds s) a = vmem s a) \<and>
        \<not> cursor_ok b (putc b 0x08 (puts b ds s)) \<and> \<not> in_buffer b (before_home b) \<and>
        vmem (putc b 0x08 (puts b ds s)) (before_home b) = 0x20"
      using split safe [OF _ split(2)] out backspace_at_home [OF home, of b]
      by (intro exI [of _ ds] exI [of _ es]) (auto simp: ds)
  qed (use safe out in \<open>auto simp: puts_fold\<close>)
qed

text \<open>A correction in the middle of a line, and a string that begins with a backspace.\<close>

theorem puts_memory_safe_witness:
  "cursor_ok Kernel64 (puts Kernel64 [0x48, 0x6A, 0x08, 0x69] (blank_console \<lparr> screenX := 0, screenY := 0 \<rparr>)) \<and>
   \<not> cursor_ok Kernel64 (putc Kernel64 0x08 (blank_console \<lparr> screenX := 0, screenY := 0 \<rparr>))"
proof -
  let ?s = "blank_console \<lparr> screenX := 0, screenY := 0 \<rparr>"
  have ok: "cursor_ok Kernel64 ?s" by (simp add: cursor_ok_def)
  have safe: "home_safe Kernel64 [0x48, 0x6A, 0x08, 0x69] ?s"
    by (simp add: putc_def putc_plain_def putc_finish_def SCREEN_WIDTH_def SCREEN_HEIGHT_def Let_def word_le_nat_alt)
  have unsafe: "\<not> home_safe Kernel64 [0x08] ?s" by simp
  have "takeWhile (\<lambda>c. c \<noteq> 0) [0x48, 0x6A, 0x08, 0x69 :: u8] = [0x48, 0x6A, 0x08, 0x69]"
    "takeWhile (\<lambda>c. c \<noteq> 0) [0x08 :: u8] = [0x08]" by simp_all
  then show ?thesis
    using puts_memory_safe [OF ok, THEN conjunct1, of "[0x48, 0x6A, 0x08, 0x69]"]
      puts_memory_safe [OF ok, THEN conjunct2, of "[0x08]"] safe unsafe
    by (auto simp del: puts.simps(2) home_safe.simps simp: Cons_eq_append_conv)
qed


section \<open>The hardware cursor\<close>

lemma cursor_bytes:
  fixes pos :: i32
  shows "le16 (ucast (pos AND 0xFF)) (ucast (signed_drop_bit 8 pos AND 0xFF)) = ucast pos"
proof -
  have mask: "(0xFF :: i32) = mask 8" by (simp add: mask_eq_exp_minus_1)
  show ?thesis
    unfolding le16_def mask by (rule bit_word_eqI) (auto simp: bit_simps)
qed

lemma ports_setcursor:
  "\<exists>lo hi. ports (setcursor x y s) = [(0x3D5, hi), (0x3D4, 0x0E), (0x3D5, lo), (0x3D4, 0x0F)] @ ports s \<and>
     le16 lo hi = ucast (y * SCREEN_WIDTH + x)"
  using cursor_bytes by (auto simp: setcursor_def Let_def)

text \<open>
  Every \<^verbatim>\<open>putc\<close> that keeps the cursor on the screen ends by programming the two cursor location
  registers of the display controller with the linear position of the cursor variables, low byte
  first.
\<close>

theorem putc_programs_cursor:
  assumes "cursor_ok b s" and "c = 0x08 \<Longrightarrow> screenX s \<noteq> 0 \<or> screenY s \<noteq> 0"
  shows "\<exists>lo hi rest.
    ports (putc b c s) = [(0x3D5, hi), (0x3D4, 0x0E), (0x3D5, lo), (0x3D4, 0x0F)] @ rest \<and>
    unat (le16 lo hi) = 80 * unat (screenY (putc b c s)) + unat (screenX (putc b c s))"
proof -
  have fin: "\<exists>lo hi rest.
      ports (putc_finish b t) = [(0x3D5, hi), (0x3D4, 0x0E), (0x3D5, lo), (0x3D4, 0x0F)] @ rest \<and>
      le16 lo hi = ucast (screenY (putc_finish b t) * SCREEN_WIDTH + screenX (putc_finish b t))" for t
    using ports_setcursor by (fastforce simp: putc_finish_def Let_def)
  have "cursor_ok b (putc b c s)"
    using assms cursor_ok_putc_plain cursor_ok_finish [OF spaces_state(1) [OF assms(1)]]
    by (auto simp: putc_def putc_tab_spaces)
  then have xy: "unat (screenX (putc b c s)) < 80" "unat (screenY (putc b c s)) < 25"
    using rows_bounds [of b] by (simp_all add: cursor_ok_def)
  define pos where "pos = screenY (putc b c s) * SCREEN_WIDTH + screenX (putc b c s)"
  have "unat pos = 80 * unat (screenY (putc b c s)) + unat (screenX (putc b c s))"
    using xy by (simp add: pos_def unat_word_ariths mult.commute)
  moreover from this xy have "unat (ucast pos :: u16) = unat pos"
    by (simp add: unsigned_ucast_eq take_bit_nat_eq_self)
  moreover have "\<exists>lo hi rest.
      ports (putc b c s) = [(0x3D5, hi), (0x3D4, 0x0E), (0x3D5, lo), (0x3D4, 0x0F)] @ rest \<and>
      le16 lo hi = ucast pos"
    using fin by (auto simp: putc_def putc_plain_def pos_def)
  ultimately show ?thesis by metis
qed

theorem putc_programs_cursor_witness:
  "\<exists>lo hi rest.
    ports (putc Kernel64 0x41 blank_console) =
      [(0x3D5, hi), (0x3D4, 0x0E), (0x3D5, lo), (0x3D4, 0x0F)] @ rest \<and>
    unat (le16 lo hi) = 80 * unat (screenY (putc Kernel64 0x41 blank_console)) +
      unat (screenX (putc Kernel64 0x41 blank_console))"
  by (rule putc_programs_cursor) (simp_all add: cursor_ok_def blank_console_def)

text \<open>The only ports output to the console writes to are those two registers'.\<close>

definition display_writes :: "console \<Rightarrow> console \<Rightarrow> bool" where
  "display_writes s s' \<longleftrightarrow> (\<exists>ws. ports s' = ws @ ports s \<and> fst ` set ws \<subseteq> {0x3D4, 0x3D5})"

lemma display_writes_refl: "ports s' = ports s \<Longrightarrow> display_writes s s'"
  by (simp add: display_writes_def)

lemma display_writes_trans: "display_writes s t \<Longrightarrow> display_writes t u \<Longrightarrow> display_writes s u"
  unfolding display_writes_def by (elim exE conjE, rule_tac x = "wsa @ ws" in exI) auto

lemma display_writes_setcursor: "display_writes s (setcursor x y s)"
  using ports_setcursor [of x y s] unfolding display_writes_def by fastforce

lemma ports_screen_updates [simp]:
  "ports (putchr b x y c s) = ports s" "ports (putcolor b x y c s) = ports s"
  by (simp_all add: putchr_def putcolor_def)

lemma ports_scrollback [simp]: "ports (scrollback b lns s) = ports s"
  unfolding scrollback_def Let_def
  by (simp, rule for_up_invariant, rule for_up_invariant)
    (auto intro!: for_up_invariant [where P = "\<lambda>s'. ports s' = ports s"] simp: Let_def)

lemma display_writes_finish: "display_writes s (putc_finish b s)"
  unfolding putc_finish_def Let_def
  by (rule display_writes_trans [OF display_writes_refl display_writes_setcursor]) simp

lemma display_writes_plain: "display_writes s (putc_plain b c s)"
  unfolding putc_plain_def
  by (rule display_writes_trans [OF display_writes_refl display_writes_finish]) (simp add: Let_def)

lemma display_writes_tab: "display_writes s (putc_tab b i s)"
proof (induction b i s rule: putc_tab.induct)
  case (1 b i s)
  then show ?case
    by (simp add: putc_tab.simps [of b i s] display_writes_refl) (blast intro: display_writes_trans display_writes_plain)
qed

lemma display_writes_putc: "display_writes s (putc b c s)"
  by (simp add: putc_def display_writes_plain display_writes_trans [OF display_writes_tab display_writes_finish])

lemma display_writes_text: "display_writes s (fold (putc b) t s)"
  by (induction t arbitrary: s) (auto intro: display_writes_refl display_writes_trans [OF display_writes_putc])

lemma display_writes_clrscr: "display_writes s (clrscr b s)"
proof -
  let ?t = "for_up (0 :: i32) (SCREEN_HEIGHT b) (\<lambda>y. for_up (0 :: i32) SCREEN_WIDTH (\<lambda>x s.
    putcolor b x y DEFAULT_COLOR (putchr b x y 0 s))) s"
  have "ports ?t = ports s"
    by (rule for_up_invariant, simp, rule for_up_invariant) simp_all
  then have "display_writes s (?t \<lparr> screenX := 0, screenY := 0 \<rparr>)" by (simp add: display_writes_refl)
  then show ?thesis
    unfolding clrscr_def Let_def by (rule display_writes_trans) (simp add: display_writes_setcursor)
qed

text \<open>What \<^verbatim>\<open>putc\<close> does to the screen and its cursor does not depend on the writes made to ports.\<close>

definition shows_same :: "console \<Rightarrow> console \<Rightarrow> bool" where
  "shows_same s t \<longleftrightarrow> vmem s = vmem t \<and> screenX s = screenX t \<and> screenY s = screenY t"

lemma shows_same_ports: "shows_same s t \<longleftrightarrow> (\<exists>ps. s = t \<lparr> ports := ps \<rparr>)"
proof
  assume "shows_same s t"
  then have "s = t \<lparr> ports := ports s \<rparr>" by (intro console.equality) (simp_all add: shows_same_def)
  then show "\<exists>ps. s = t \<lparr> ports := ps \<rparr>" ..
qed (auto simp: shows_same_def)

lemma for_up_same:
  assumes "shows_same s t" and "\<And>k s t. shows_same s t \<Longrightarrow> shows_same (f k s) (f k t)"
  shows "shows_same (for_up i n f s) (for_up i n f t)"
proof -
  have "shows_same (fold g ks s) (fold g ks t)" if "\<And>k s t. shows_same s t \<Longrightarrow> shows_same (g k s) (g k t)" for g and ks :: "nat list"
    using assms(1) that by (induction ks arbitrary: s t) auto
  then show ?thesis unfolding for_up_fold using assms(2) by simp
qed

lemma scrollback_same: "shows_same s t \<Longrightarrow> shows_same (scrollback b lns s) (scrollback b lns t)"
proof -
  assume st: "shows_same s t"
  let ?move = "\<lambda>y :: i32. for_up (0 :: i32) SCREEN_WIDTH (\<lambda>x s.
    let s = putchr b x (y - lns) (getchr b x y s) s in putcolor b x (y - lns) (getcolor b x y s) s)"
  let ?clear = "\<lambda>y :: i32. for_up (0 :: i32) SCREEN_WIDTH (\<lambda>x s. putcolor b x y DEFAULT_COLOR (putchr b x y 0 s))"
  have "shows_same (for_up (SCREEN_HEIGHT b - lns) (SCREEN_HEIGHT b) ?clear (for_up lns (SCREEN_HEIGHT b) ?move s))
      (for_up (SCREEN_HEIGHT b - lns) (SCREEN_HEIGHT b) ?clear (for_up lns (SCREEN_HEIGHT b) ?move t))"
    by (intro for_up_same st) (auto simp: shows_same_def putchr_def putcolor_def getchr_def getcolor_def Let_def)
  then show ?thesis by (simp add: scrollback_def Let_def shows_same_def)
qed

lemma setcursor_same [simp]: "shows_same (setcursor x y s) (setcursor x' y' t) \<longleftrightarrow> shows_same s t"
  by (simp add: shows_same_def)

lemma putc_finish_same: "shows_same s t \<Longrightarrow> shows_same (putc_finish b s) (putc_finish b t)"
proof -
  assume st: "shows_same s t"
  let ?wrap = "\<lambda>s. if SCREEN_WIDTH \<le> screenX s then s \<lparr> screenY := screenY s + 1, screenX := 0 \<rparr> else s"
  let ?scroll = "\<lambda>s. if SCREEN_HEIGHT b \<le> screenY s then scrollback b 1 s else s"
  have scroll: "shows_same (?scroll s) (?scroll t)" if "shows_same s t" for s t
  proof -
    have "screenY s = screenY t" using that by (simp add: shows_same_def)
    then show ?thesis using that scrollback_same [OF that, of b 1] by simp
  qed
  have "shows_same (?wrap s) (?wrap t)" using st by (simp add: shows_same_def)
  from scroll [OF this] have "shows_same (?scroll (?wrap s)) (?scroll (?wrap t))" .
  then show ?thesis unfolding putc_finish_def Let_def setcursor_same .
qed

lemma putc_plain_same: "shows_same s t \<Longrightarrow> shows_same (putc_plain b c s) (putc_plain b c t)"
  unfolding putc_plain_def by (rule putc_finish_same) (simp add: shows_same_def putchr_def Let_def)

lemma putc_tab_same: "shows_same s t \<Longrightarrow> shows_same (putc_tab b i s) (putc_tab b i t)"
proof (induction b i s arbitrary: t rule: putc_tab.induct)
  case (1 b i s)
  have "screenX t = screenX s" using "1.prems" by (simp add: shows_same_def)
  then show ?case
    using 1 putc_plain_same by (simp add: putc_tab.simps [of b i s] putc_tab.simps [of b i t])
qed

lemma text_same: "shows_same s t \<Longrightarrow> shows_same (fold (putc b) cs s) (fold (putc b) cs t)"
proof (induction cs arbitrary: s t)
  case (Cons c cs)
  then have "shows_same (putc b c s) (putc b c t)"
    by (simp add: putc_def putc_plain_same putc_tab_same putc_finish_same)
  then show ?case using Cons.IH by simp
qed simp

end
