(* ===== verification/Printf.thy ===== *)
theory Printf
  imports Console
begin

text \<open>
  \<^verbatim>\<open>src/libc/stdio/printf.c\<close>: the 64-bit division the boot loader's build supplies itself, the number
  printers and the format interpreter of \<^verbatim>\<open>printf\<close>.
\<close>

abbreviation ch :: "char \<Rightarrow> u8" where
  "ch c \<equiv> of_nat (of_char c)"

section \<open>64-bit division on the 32-bit build\<close>

text \<open>
  The loops run with \<^verbatim>\<open>i\<close> from 63 down to 0; the first argument counts the rounds that are left,
  so that the round with \<open>Suc i\<close> left is the one for \<^verbatim>\<open>i\<close>.
\<close>

fun udivdi3_loop :: "nat \<Rightarrow> u64 \<Rightarrow> u64 \<Rightarrow> u64 \<Rightarrow> u64 \<Rightarrow> u64" where
  "udivdi3_loop 0 a divisor quo rmd = quo"
| "udivdi3_loop (Suc i) a divisor quo rmd =
     (let rmd = push_bit 1 rmd;
          rmd = rmd OR (drop_bit i a AND 1)
      in if divisor \<le> rmd
         then udivdi3_loop i a divisor (quo OR push_bit i 1) (rmd - divisor)
         else udivdi3_loop i a divisor quo rmd)"

definition udivdi3 :: "u64 \<Rightarrow> u64 \<Rightarrow> u64" where
  "udivdi3 a b = udivdi3_loop 64 a b 0 0"

fun umoddi3_loop :: "nat \<Rightarrow> u64 \<Rightarrow> u64 \<Rightarrow> u64 \<Rightarrow> u64" where
  "umoddi3_loop 0 a divisor rmd = rmd"
| "umoddi3_loop (Suc i) a divisor rmd =
     (let rmd = push_bit 1 rmd;
          rmd = rmd OR (drop_bit i a AND 1)
      in if divisor \<le> rmd
         then umoddi3_loop i a divisor (rmd - divisor)
         else umoddi3_loop i a divisor rmd)"

definition umoddi3 :: "u64 \<Rightarrow> u64 \<Rightarrow> u64" where
  "umoddi3 a b = umoddi3_loop 64 a b 0"

text \<open>
  The operators \<^verbatim>\<open>/\<close> and \<^verbatim>\<open>%\<close> on \<^verbatim>\<open>unsigned long long\<close>: a call of the functions above on the 32-bit
  build, the instruction, which traps on a zero divisor, on the 64-bit build.
\<close>

definition ull_div :: "build \<Rightarrow> u64 \<Rightarrow> u64 \<Rightarrow> u64 res" where
  "ull_div b x y = (case b of
     Boot32 \<Rightarrow> Inr (udivdi3 x y)
   | Kernel64 \<Rightarrow> if y = 0 then Inl DivideError else Inr (x div y))"

definition ull_mod :: "build \<Rightarrow> u64 \<Rightarrow> u64 \<Rightarrow> u64 res" where
  "ull_mod b x y = (case b of
     Boot32 \<Rightarrow> Inr (umoddi3 x y)
   | Kernel64 \<Rightarrow> if y = 0 then Inl DivideError else Inr (x mod y))"

section \<open>Numbers\<close>

text \<open>The array \<^verbatim>\<open>"0123456789abcdef"\<close> with its terminator.\<close>

definition digit_chars :: "u8 list" where
  "digit_chars = bytes_of ''0123456789abcdef'' @ [0]"

text \<open>
  The \<^verbatim>\<open>do\<close> loop of \<^verbatim>\<open>printf_unsigned\<close>; \<open>buffer\<close> is the part of \<^verbatim>\<open>char buffer[32]\<close> below \<^verbatim>\<open>pos\<close>.
\<close>

function digits_loop :: "build \<Rightarrow> u64 \<Rightarrow> i32 \<Rightarrow> u8 list \<Rightarrow> u8 list res" where
  "digits_loop b number radix buffer =
     bindE (ull_mod b number (scast radix)) (\<lambda>rem.
     bindE (ull_div b number (scast radix)) (\<lambda>number.
       if length digit_chars \<le> unat rem \<or> 32 \<le> length buffer then Inl OutOfBounds
       else let buffer = buffer @ [digit_chars ! unat rem] in
         if 0 < number then digits_loop b number radix buffer else Inr buffer))"
  by pat_completeness auto
termination by (relation "measure (\<lambda>(b, number, radix, buffer). 32 - length buffer)") auto

declare digits_loop.simps [simp del]

definition printf_unsigned :: "build \<Rightarrow> u64 \<Rightarrow> i32 \<Rightarrow> console \<Rightarrow> console res" where
  "printf_unsigned b number radix s =
     bindE (digits_loop b number radix []) (\<lambda>buffer. Inr (fold (putc b) (rev buffer) s))"

definition printf_signed :: "build \<Rightarrow> u64 \<Rightarrow> i32 \<Rightarrow> console \<Rightarrow> console res" where
  "printf_signed b number radix s =
     (if number <s 0 then printf_unsigned b (- number) radix (putc b (ch CHR ''-'') s)
      else printf_unsigned b number radix s)"

section \<open>Variable arguments\<close>

text \<open>
  The arguments after the format as the calling convention passes them: slots of 4 bytes on the
  32-bit build, where a \<^verbatim>\<open>long long\<close> takes two, and slots of 8 bytes on the 64-bit build.  A slot
  holds an integer or a pointer to a string, shown as the contents of that string.
\<close>

datatype slot = Bits u64 | Str "u8 list"

type_synonym va_list = "slot list"

fun va_int :: "va_list \<Rightarrow> (u32 \<times> va_list) res" where
  "va_int (Bits w # args) = Inr (ucast w, args)"
| "va_int args = Inl BadVarArg"

fun va_long_long :: "build \<Rightarrow> va_list \<Rightarrow> (u64 \<times> va_list) res" where
  "va_long_long Kernel64 (Bits w # args) = Inr (w, args)"
| "va_long_long Boot32 (Bits lo # Bits hi # args) =
     Inr (ucast (ucast lo :: u32) OR push_bit 32 (ucast (ucast hi :: u32)), args)"
| "va_long_long b args = Inl BadVarArg"

text \<open>\<^verbatim>\<open>long\<close> and \<^verbatim>\<open>unsigned long\<close>, already converted to the parameter type of the number printers.\<close>

definition va_long :: "build \<Rightarrow> va_list \<Rightarrow> (u64 \<times> va_list) res" where
  "va_long b args = (case b of
     Boot32 \<Rightarrow> bindE (va_int args) (\<lambda>(w, args). Inr (scast w, args))
   | Kernel64 \<Rightarrow> va_long_long b args)"

definition va_ulong :: "build \<Rightarrow> va_list \<Rightarrow> (u64 \<times> va_list) res" where
  "va_ulong b args = (case b of
     Boot32 \<Rightarrow> bindE (va_int args) (\<lambda>(w, args). Inr (ucast w, args))
   | Kernel64 \<Rightarrow> va_long_long b args)"

fun va_str :: "va_list \<Rightarrow> (u8 list \<times> va_list) res" where
  "va_str (Str cs # args) = Inr (cs, args)"
| "va_str args = Inl BadVarArg"

section \<open>\<^verbatim>\<open>printf\<close>\<close>

datatype printf_state = STATE_NORMAL | STATE_LENGTH | STATE_LENGTH_SHORT | STATE_LENGTH_LONG | STATE_SPEC

datatype printf_length = LENGTH_DEFAULT | LENGTH_SHORT_SHORT | LENGTH_SHORT | LENGTH_LONG | LENGTH_LONG_LONG

definition printf_number ::
  "build \<Rightarrow> bool \<Rightarrow> printf_length \<Rightarrow> i32 \<Rightarrow> va_list \<Rightarrow> console \<Rightarrow> (va_list \<times> console) res" where
  "printf_number b sign len radix args s =
     (if sign then
        bindE (case len of
            LENGTH_LONG \<Rightarrow> va_long b args
          | LENGTH_LONG_LONG \<Rightarrow> va_long_long b args
          | _ \<Rightarrow> bindE (va_int args) (\<lambda>(w, args). Inr (scast w, args)))
          (\<lambda>(n, args). bindE (printf_signed b n radix s) (\<lambda>s. Inr (args, s)))
      else
        bindE (case len of
            LENGTH_LONG \<Rightarrow> va_ulong b args
          | LENGTH_LONG_LONG \<Rightarrow> va_long_long b args
          | _ \<Rightarrow> bindE (va_int args) (\<lambda>(w, args). Inr (ucast w, args)))
          (\<lambda>(n, args). bindE (printf_unsigned b n radix s) (\<lambda>s. Inr (args, s))))"

text \<open>
  The code at the label \<^verbatim>\<open>PRINTF_STATE_SPEC_\<close>.  The variables \<^verbatim>\<open>radix\<close>, \<^verbatim>\<open>sign\<close> and \<^verbatim>\<open>number\<close> are set
  and reset inside it only.
\<close>

definition printf_spec ::
  "build \<Rightarrow> printf_length \<Rightarrow> u8 \<Rightarrow> va_list \<Rightarrow> console \<Rightarrow> (va_list \<times> console) res" where
  "printf_spec b len c args s =
     (if c = ch CHR ''c'' then bindE (va_int args) (\<lambda>(w, args). Inr (args, putc b (ucast w) s))
      else if c = ch CHR ''s'' then bindE (va_str args) (\<lambda>(cs, args). Inr (args, puts b cs s))
      else if c = ch CHR ''%'' then Inr (args, putc b (ch CHR ''%'') s)
      else if c = ch CHR ''d'' \<or> c = ch CHR ''i'' then printf_number b True len 10 args s
      else if c = ch CHR ''u'' then printf_number b False len 10 args s
      else if c = ch CHR ''X'' \<or> c = ch CHR ''x'' \<or> c = ch CHR ''p''
        then printf_number b False len 16 args s
      else if c = ch CHR ''o'' then printf_number b False len 8 args s
      else Inr (args, s))"

fun printf_loop ::
  "build \<Rightarrow> printf_state \<Rightarrow> printf_length \<Rightarrow> u8 list \<Rightarrow> va_list \<Rightarrow> console \<Rightarrow> console res" where
  "printf_loop b st len [] args s = Inr s"
| "printf_loop b st len (c # cs) args s =
     (if c = 0 then Inr s else
      let spec = bindE (printf_spec b len c args s)
                   (\<lambda>(args, s). printf_loop b STATE_NORMAL LENGTH_DEFAULT cs args s) in
      case st of
        STATE_NORMAL \<Rightarrow>
          if c = ch CHR ''%'' then printf_loop b STATE_LENGTH len cs args s
          else printf_loop b STATE_NORMAL len cs args (putc b c s)
      | STATE_LENGTH \<Rightarrow>
          if c = ch CHR ''h'' then printf_loop b STATE_LENGTH_SHORT LENGTH_SHORT cs args s
          else if c = ch CHR ''l'' then printf_loop b STATE_LENGTH_LONG LENGTH_LONG cs args s
          else spec
      | STATE_LENGTH_SHORT \<Rightarrow>
          if c = ch CHR ''h'' then printf_loop b STATE_SPEC LENGTH_SHORT_SHORT cs args s else spec
      | STATE_LENGTH_LONG \<Rightarrow>
          if c = ch CHR ''l'' then printf_loop b STATE_SPEC LENGTH_LONG_LONG cs args s else spec
      | STATE_SPEC \<Rightarrow> spec)"

definition printf :: "build \<Rightarrow> u8 list \<Rightarrow> va_list \<Rightarrow> console \<Rightarrow> console res" where
  "printf b format args s = printf_loop b STATE_NORMAL LENGTH_DEFAULT format args s"


section \<open>Long division\<close>

lemma long_division_step:
  fixes B D e :: nat
  assumes "0 < D" and "e < 2"
  defines "r \<equiv> 2 * (B mod D) + e"
  shows "(2 * B + e) mod D = (if D \<le> r then r - D else r)"
    and "(2 * B + e) div D = 2 * (B div D) + (if D \<le> r then 1 else 0)"
proof -
  have split: "2 * B + e = r + (2 * (B div D)) * D"
    unfolding r_def using div_mult_mod_eq [of B D] by (metis (no_types) add.assoc add.commute distrib_left mult.assoc)
  have "B mod D < D" using assms(1) by simp
  then have r: "r < 2 * D" unfolding r_def using assms(2) by linarith
  have "r mod D = (if D \<le> r then r - D else r)" "r div D = (if D \<le> r then 1 else 0)"
    using r assms(1) by (auto simp: le_mod_geq le_div_geq)
  then show "(2 * B + e) mod D = (if D \<le> r then r - D else r)"
    and "(2 * B + e) div D = 2 * (B div D) + (if D \<le> r then 1 else 0)"
    unfolding split using assms(1) by simp_all
qed

lemma unat_drop_bit: "unat (drop_bit i a) = unat a div 2 ^ i"
  unfolding unsigned_drop_bit_eq by (simp add: drop_bit_nat_def take_bit_nat_eq_self)

lemma unat_shift_in:
  fixes r a :: u64
  assumes "unat r < 2 ^ 63"
  shows "unat (push_bit 1 r OR (drop_bit i a AND 1)) = 2 * unat r + (unat a div 2 ^ i) mod 2"
proof -
  have disj: "push_bit 1 r AND (drop_bit i a AND 1) = 0"
    by (rule bit_word_eqI) (auto simp only: bit_simps, auto)
  have "unat (push_bit 1 r) = 2 * unat r"
    using assms by (simp add: push_bit_eq_mult unat_word_ariths)
  moreover have "unat (drop_bit i a AND 1) = (unat a div 2 ^ i) mod 2"
    by (simp add: and_one_eq unat_mod unat_drop_bit)
  moreover have "(unat a div 2 ^ i) mod 2 < 2" by simp
  ultimately show ?thesis
    using assms unfolding disjunctive_add_eq_or [OF disj, symmetric] unat_word_ariths by simp
qed

lemma halve: "A div 2 ^ i = 2 * (A div 2 ^ Suc i) + (A div 2 ^ i) mod 2" for A :: nat
proof -
  have "A div 2 ^ Suc i = A div 2 ^ i div 2" by (simp only: power_Suc2 div_mult2_eq)
  then show ?thesis by simp
qed


text \<open>
  One round of the loops: the remainder before the round is that of the bits of the dividend
  already taken in, so the shift never loses its top bit.
\<close>

lemma division_round:
  fixes a d r :: u64
  assumes "unat r = unat a div 2 ^ Suc i mod unat d" and "0 < unat d"
  defines "r' \<equiv> push_bit 1 r OR (drop_bit i a AND 1)"
  shows "unat (if d \<le> r' then r' - d else r') = unat a div 2 ^ i mod unat d"
    and "unat a div 2 ^ i div unat d = 2 * (unat a div 2 ^ Suc i div unat d) + (if d \<le> r' then 1 else 0)"
proof -
  let ?B = "unat a div 2 ^ Suc i" and ?e = "unat a div 2 ^ i mod 2"
  have "unat a div 2 ^ Suc i \<le> unat a div 2"
    by (simp only: power_Suc div_mult2_eq div_le_dividend)
  moreover have "unat a < 2 ^ 64" using unsigned_less [of a, where ?'a = nat] by simp
  moreover have "unat r \<le> ?B" using assms(1) by simp
  ultimately have "unat r < 2 ^ 63" by simp
  from unat_shift_in [OF this, of i a] have r': "unat r' = 2 * (?B mod unat d) + ?e"
    by (simp only: r'_def assms(1))
  have "?e < 2" by simp
  note step = long_division_step [OF assms(2) this, of ?B, folded halve]
  have le: "d \<le> r' \<longleftrightarrow> unat d \<le> 2 * (?B mod unat d) + ?e"
    by (simp only: word_le_nat_alt r')
  have "unat (r' - d) = unat r' - unat d" if "d \<le> r'"
    using that by (simp add: unat_sub)
  then show "unat (if d \<le> r' then r' - d else r') = unat a div 2 ^ i mod unat d"
    unfolding step(1) by (simp only: le r' split: if_split) simp
  show "unat a div 2 ^ i div unat d = 2 * (?B div unat d) + (if d \<le> r' then 1 else 0)"
    unfolding step(2) by (simp only: le)
qed

lemma umoddi3_loop_mod:
  assumes "unat r = unat a div 2 ^ i mod unat d" and "0 < unat d"
  shows "unat (umoddi3_loop i a d r) = unat a mod unat d"
  using assms(1)
proof (induction i arbitrary: r)
  case (Suc i)
  note r' = division_round(1) [OF Suc.prems assms(2)]
  show ?case
    using Suc.IH [OF r'] by (simp add: Let_def split: if_splits)
qed simp

lemma unat_or_bit:
  fixes q :: u64
  assumes "unat q = k * 2 ^ Suc i" and "(2 * k + 1) * 2 ^ i < 2 ^ 64"
  shows "unat (q OR push_bit i 1) = (2 * k + 1) * 2 ^ i"
proof -
  have "(2 :: nat) ^ i < 2 ^ 64" using assms(2) by (rule le_less_trans [rotated]) simp
  then have i: "i < 64" by (rule power_less_imp_less_exp [rotated]) simp
  have bit: "unat (push_bit i 1 :: u64) = 2 ^ i"
    unfolding unsigned_push_bit_eq using i
    by (simp add: push_bit_nat_def take_bit_nat_eq_self)
  have "\<not> bit (unat q) i"
    unfolding assms(1) by (simp add: bit_iff_odd)
  then have disj: "q AND push_bit i 1 = 0"
    by (intro bit_word_eqI) (auto simp: bit_simps bit_unsigned_iff)
  have sum: "k * 2 ^ Suc i + 2 ^ i = (2 * k + 1) * 2 ^ i" by (simp add: distrib_right)
  have "LENGTH(64) = 64" by simp
  then show ?thesis
    unfolding disjunctive_add_eq_or [OF disj, symmetric] unat_word_ariths bit assms(1) sum
    by (simp only: mod_less [OF assms(2)])
qed

lemma udivdi3_loop_div:
  assumes "unat r = unat a div 2 ^ i mod unat d" and "0 < unat d"
    and "unat q = unat a div 2 ^ i div unat d * 2 ^ i"
  shows "unat (udivdi3_loop i a d q r) = unat a div unat d"
  using assms(1,3)
proof (induction i arbitrary: q r)
  case (Suc i)
  let ?r = "push_bit 1 r OR (drop_bit i a AND 1)"
  note r' = division_round [OF Suc.prems(1) assms(2)]
  let ?k = "unat a div 2 ^ Suc i div unat d"
  show ?case
  proof (cases "d \<le> ?r")
    case True
    with r'(2) have k: "unat a div 2 ^ i div unat d = 2 * ?k + 1" by simp
    have "(2 * ?k + 1) * 2 ^ i \<le> unat a"
      unfolding k [symmetric]
      by (rule order_trans [OF mult_le_mono1 [OF div_le_dividend] div_times_less_eq_dividend])
    also have "unat a < 2 ^ 64" using unsigned_less [of a, where ?'a = nat] by simp
    finally have "unat (q OR push_bit i 1) = unat a div 2 ^ i div unat d * 2 ^ i"
      unfolding k by (rule unat_or_bit [OF Suc.prems(2)])
    with Suc.IH True r'(1) show ?thesis by (simp add: Let_def)
  next
    case False
    with r'(2) Suc.prems(2) have "unat q = unat a div 2 ^ i div unat d * 2 ^ i" by simp
    with Suc.IH False r'(1) show ?thesis by (simp add: Let_def)
  qed
qed simp

lemma udivdi3_eq: "0 < d \<Longrightarrow> udivdi3 a d = a div d"
  using udivdi3_loop_div [of 0 a 64 d 0] unsigned_less [of a, where ?'a = nat]
  by (simp add: udivdi3_def word_unat_eq_iff word_less_nat_alt unat_div)

lemma umoddi3_eq: "0 < d \<Longrightarrow> umoddi3 a d = a mod d"
  using umoddi3_loop_mod [of 0 a 64 d] unsigned_less [of a, where ?'a = nat]
  by (simp add: umoddi3_def word_unat_eq_iff word_less_nat_alt unat_mod)

text \<open>
  C37: For every nonzero divisor \<^verbatim>\<open>__udivdi3\<close> and \<^verbatim>\<open>__umoddi3\<close> return the quotient and the remainder
  of the unsigned 64-bit division, although the remainder is shifted without a check for overflow.
\<close>

theorem long_division_correct:
  assumes "d \<noteq> 0"
  shows "udivdi3 a d = a div d \<and> umoddi3 a d = a mod d"
  using assms by (simp add: udivdi3_eq umoddi3_eq word_gt_0)

theorem long_division_correct_witness:
  "udivdi3 18446744073709551615 18446744073709551614 = 18446744073709551615 div 18446744073709551614 \<and>
   umoddi3 18446744073709551615 18446744073709551614 = 18446744073709551615 mod 18446744073709551614"
  by (rule long_division_correct) simp


section \<open>Positional notation\<close>

text \<open>The digits of a number, the most significant first, and the characters that show them.\<close>

fun to_digits :: "nat \<Rightarrow> nat \<Rightarrow> nat list" where
  "to_digits r n = (if r < 2 \<or> n < r then [n] else to_digits r (n div r) @ [n mod r])"

declare to_digits.simps [simp del]

definition numeral_text :: "nat \<Rightarrow> nat \<Rightarrow> u8 list" where
  "numeral_text r n = map (nth digit_chars) (to_digits r n)"

definition digits_value :: "nat \<Rightarrow> nat list \<Rightarrow> nat" where
  "digits_value r ds = fold (\<lambda>d v. v * r + d) ds 0"

lemma digits_value_to_digits: "digits_value r (to_digits r n) = n"
proof (induction r n rule: to_digits.induct)
  case (1 r n)
  then show ?case
    by (cases "r < 2 \<or> n < r") (auto simp: to_digits.simps [of r n] digits_value_def)
qed

lemma to_digits_bound: "2 \<le> r \<Longrightarrow> d \<in> set (to_digits r n) \<Longrightarrow> d < r"
proof (induction r n rule: to_digits.induct)
  case (1 r n)
  then show ?case
    by (cases "n < r") (auto simp: to_digits.simps [of r n])
qed

lemma length_to_digits:
  "2 \<le> r \<Longrightarrow> n < r ^ Suc k \<Longrightarrow> length (to_digits r n) \<le> Suc k"
proof (induction k arbitrary: n)
  case 0
  then show ?case by (simp add: to_digits.simps [of r n])
next
  case (Suc k)
  from Suc.prems have "n div r < r ^ Suc k"
    by (simp add: less_mult_imp_div_less mult.commute)
  with Suc show ?case
    by (auto simp: to_digits.simps [of r n])
qed

text \<open>Different digits are shown by different characters, none of which is a null byte.\<close>

lemma length_digit_chars [simp]: "length digit_chars = 17"
  by (simp add: digit_chars_def)

lemma distinct_digit_chars: "distinct digit_chars"
  by (simp add: digit_chars_def)

lemma digit_chars_inj: "i < 17 \<Longrightarrow> j < 17 \<Longrightarrow> digit_chars ! i = digit_chars ! j \<longleftrightarrow> i = j"
  using distinct_digit_chars by (simp add: nth_eq_iff_index_eq)

lemma scast_small: "R \<le> 16 \<Longrightarrow> scast (of_nat R :: i32) = (of_nat R :: u64)"
proof -
  assume "R \<le> 16"
  then have "sint (of_nat R :: i32) = int R"
    by (simp add: sint_eq_unat del: of_nat_unat)
  then show ?thesis by (simp add: scast_eq)
qed

lemma ull_div_mod:
  assumes "0 < y"
  shows "ull_div b x y = Inr (x div y)" and "ull_mod b x y = Inr (x mod y)"
  using assms by (cases b; simp add: ull_div_def ull_mod_def udivdi3_eq umoddi3_eq)+

lemma digits_loop_eq:
  assumes "2 \<le> R" and "R \<le> 16" and "length buffer + length (to_digits R (unat number)) \<le> 32"
  shows "digits_loop b number (of_nat R) buffer = Inr (buffer @ rev (numeral_text R (unat number)))"
  using assms(3)
proof (induction "unat number" arbitrary: number buffer rule: less_induct)
  case less
  let ?n = "unat number" and ?r = "of_nat R :: u64"
  have r: "unat ?r = R" "0 < ?r" using assms by (simp_all add: word_less_nat_alt)
  have rem: "unat (number mod ?r) = ?n mod R" and quo: "unat (number div ?r) = ?n div R"
    using r by (simp_all add: unat_mod unat_div)
  have digit: "?n mod R < 16" using assms by (meson less_le_trans mod_less_divisor order_less_le_trans zero_less_numeral)
  have "length buffer < 32"
    using less.prems by (simp add: to_digits.simps [of R ?n] split: if_splits)
  then have step: "digits_loop b number (of_nat R) buffer =
      (let buffer = buffer @ [digit_chars ! (?n mod R)] in
       if 0 < ?n div R then digits_loop b (number div ?r) (of_nat R) buffer else Inr buffer)"
    using assms r digit
    by (simp add: digits_loop.simps [of b number] scast_small ull_div_mod rem word_less_nat_alt quo)
  show ?case
  proof (cases "?n < R")
    case True
    then show ?thesis
      using assms by (simp add: step numeral_text_def to_digits.simps [of R ?n])
  next
    case False
    then have "0 < ?n div R" using assms(1) by (simp add: div_greater_zero_iff)
    moreover have "?n div R < ?n" using assms(1) False by simp
    moreover have "length (buffer @ [digit_chars ! (?n mod R)]) + length (to_digits R (?n div R)) \<le> 32"
      using less.prems False assms(1) by (simp add: to_digits.simps [of R ?n])
    ultimately show ?thesis
      using less.hyps [of "number div ?r"] False assms(1)
      by (simp add: step quo numeral_text_def to_digits.simps [of R ?n])
  qed
qed

text \<open>The array of 32 characters suffices for every 64-bit number from radix 4 on.\<close>

lemma printf_unsigned_eq:
  assumes "4 \<le> R" and "R \<le> 16"
  shows "printf_unsigned b number (of_nat R) s = Inr (fold (putc b) (numeral_text R (unat number)) s)"
proof -
  have "unat number < 4 ^ Suc 31" using unsigned_less [of number, where ?'a = nat] by simp
  also have "(4 :: nat) ^ Suc 31 \<le> R ^ Suc 31" by (rule power_mono) (use assms in simp_all)
  finally have "length (to_digits R (unat number)) \<le> Suc 31"
    by (intro length_to_digits) (use assms in simp_all)
  then show ?thesis
    using assms digits_loop_eq [of R "[]" number b]
    by (simp add: printf_unsigned_def rev_map numeral_text_def)
qed


lemma to_digits_no_leading_zero:
  "2 \<le> r \<Longrightarrow> to_digits r n \<noteq> [] \<and> (hd (to_digits r n) = 0 \<longrightarrow> n = 0)"
proof (induction r n rule: to_digits.induct)
  case (1 r n)
  then show ?case
    by (cases "n < r") (auto simp: to_digits.simps [of r n] div_eq_0_iff)
qed

text \<open>
  For every radix from 4 to 16 \<^verbatim>\<open>printf_unsigned\<close> stays within its 32 characters and prints the
  digits of the number in that radix, without a leading zero, so that the printed text determines
  the number.
\<close>

theorem printf_unsigned_prints:
  assumes "4 \<le> R" and "R \<le> 16"
  shows "\<exists>ds. printf_unsigned b number (of_nat R) s = Inr (fold (putc b) (map (nth digit_chars) ds) s) \<and>
    length ds \<le> 32 \<and> (\<forall>d \<in> set ds. d < R) \<and> digits_value R ds = unat number \<and>
    (ds = [0] \<or> hd ds \<noteq> 0)"
proof -
  let ?ds = "to_digits R (unat number)"
  have "unat number < 4 ^ Suc 31" using unsigned_less [of number, where ?'a = nat] by simp
  also have "(4 :: nat) ^ Suc 31 \<le> R ^ Suc 31" by (rule power_mono) (use assms in simp_all)
  finally have "length ?ds \<le> 32"
    using length_to_digits [of R "unat number" 31] assms by simp
  moreover have "?ds = [0] \<or> hd ?ds \<noteq> 0"
    using to_digits_no_leading_zero [of R "unat number"] assms
    by (cases "unat number = 0") (auto simp: to_digits.simps [of R 0])
  ultimately show ?thesis
    using assms printf_unsigned_eq [OF assms, of b number s]
    by (intro exI [of _ ?ds]) (auto simp: numeral_text_def digits_value_to_digits to_digits_bound)
qed

theorem printf_unsigned_prints_witness:
  "\<exists>ds. printf_unsigned Boot32 1457 (of_nat 16) blank_console =
      Inr (fold (putc Boot32) (map (nth digit_chars) ds) blank_console) \<and>
    length ds \<le> 32 \<and> (\<forall>d \<in> set ds. d < 16) \<and> digits_value 16 ds = unat (1457 :: u64) \<and>
    (ds = [0] \<or> hd ds \<noteq> 0)"
  by (rule printf_unsigned_prints) simp_all

definition signed_text :: "nat \<Rightarrow> int \<Rightarrow> u8 list" where
  "signed_text r k = (if k < 0 then [ch CHR ''-''] else []) @ numeral_text r (nat \<bar>k\<bar>)"

lemma unat_neg_sint:
  fixes n :: "'a::len word"
  assumes "sint n < 0"
  shows "unat (- n) = nat (- sint n)"
proof -
  have "n \<noteq> 0" using assms by auto
  then have "unat (- n) = 2 ^ LENGTH('a) - unat n"
    using unat_sub_if' [of 0 n] by (simp add: unat_eq_0)
  moreover have "sint n = int (unat n) - 2 ^ LENGTH('a)"
    using assms sint_eq_unat [of n] by (auto split: if_splits)
  ultimately show ?thesis
    by (simp add: nat_diff_distrib' nat_power_eq del: of_nat_unat)
qed

lemma printf_signed_eq:
  assumes "4 \<le> R" and "R \<le> 16"
  shows "printf_signed b n (of_nat R) s = Inr (fold (putc b) (signed_text R (sint n)) s)"
proof (cases "sint n < 0")
  case True
  then show ?thesis
    by (simp add: printf_signed_def word_sless_alt printf_unsigned_eq [OF assms] signed_text_def
        unat_neg_sint)
next
  case False
  then have "unat n = nat \<bar>sint n\<bar>"
    using sint_eq_unat [of n] unsigned_less [of n, where ?'a = nat]
    by (auto split: if_splits simp del: of_nat_unat unsigned_less)
  with False show ?thesis
    by (simp add: printf_signed_def word_sless_alt printf_unsigned_eq [OF assms] signed_text_def)
qed


section \<open>What a format means\<close>

text \<open>
  A format string is a sequence of literal bytes and directives; a directive has a length modifier
  and a conversion character.  A directive the string breaks off in means nothing.
\<close>

datatype directive = Literal u8 | Convert printf_length u8

fun parse_format :: "u8 list \<Rightarrow> directive list" where
  "parse_format [] = []"
| "parse_format (c # cs) =
     (if c \<noteq> ch CHR ''%'' then Literal c # parse_format cs
      else case cs of
        [] \<Rightarrow> []
      | d # ds \<Rightarrow>
          if d = ch CHR ''h'' then
            (case ds of
               [] \<Rightarrow> []
             | e # es \<Rightarrow>
                 if e = ch CHR ''h''
                 then (case es of [] \<Rightarrow> [] | f # fs \<Rightarrow> Convert LENGTH_SHORT_SHORT f # parse_format fs)
                 else Convert LENGTH_SHORT e # parse_format es)
          else if d = ch CHR ''l'' then
            (case ds of
               [] \<Rightarrow> []
             | e # es \<Rightarrow>
                 if e = ch CHR ''l''
                 then (case es of [] \<Rightarrow> [] | f # fs \<Rightarrow> Convert LENGTH_LONG_LONG f # parse_format fs)
                 else Convert LENGTH_LONG e # parse_format es)
          else Convert LENGTH_DEFAULT d # parse_format ds)"

text \<open>The integer a numeric directive takes from the arguments: its value and what is left.\<close>

definition signed_arg :: "build \<Rightarrow> printf_length \<Rightarrow> va_list \<Rightarrow> (int \<times> va_list) res" where
  "signed_arg b len args = (case len of
     LENGTH_LONG \<Rightarrow> bindE (va_long b args) (\<lambda>(n, args). Inr (sint n, args))
   | LENGTH_LONG_LONG \<Rightarrow> bindE (va_long_long b args) (\<lambda>(n, args). Inr (sint n, args))
   | _ \<Rightarrow> bindE (va_int args) (\<lambda>(n, args). Inr (sint n, args)))"

definition unsigned_arg :: "build \<Rightarrow> printf_length \<Rightarrow> va_list \<Rightarrow> (nat \<times> va_list) res" where
  "unsigned_arg b len args = (case len of
     LENGTH_LONG \<Rightarrow> bindE (va_ulong b args) (\<lambda>(n, args). Inr (unat n, args))
   | LENGTH_LONG_LONG \<Rightarrow> bindE (va_long_long b args) (\<lambda>(n, args). Inr (unat n, args))
   | _ \<Rightarrow> bindE (va_int args) (\<lambda>(n, args). Inr (unat n, args)))"

definition radix_of :: "u8 \<Rightarrow> nat option" where
  "radix_of c =
     (if c = ch CHR ''u'' then Some 10
      else if c = ch CHR ''X'' \<or> c = ch CHR ''x'' \<or> c = ch CHR ''p'' then Some 16
      else if c = ch CHR ''o'' then Some 8
      else None)"

fun render_directive :: "build \<Rightarrow> directive \<Rightarrow> va_list \<Rightarrow> (u8 list \<times> va_list) res" where
  "render_directive b (Literal c) args = Inr ([c], args)"
| "render_directive b (Convert len c) args =
     (if c = ch CHR ''c'' then bindE (va_int args) (\<lambda>(w, args). Inr ([ucast w], args))
      else if c = ch CHR ''s''
        then bindE (va_str args) (\<lambda>(cs, args). Inr (takeWhile (\<lambda>x. x \<noteq> 0) cs, args))
      else if c = ch CHR ''%'' then Inr ([c], args)
      else if c = ch CHR ''d'' \<or> c = ch CHR ''i''
        then bindE (signed_arg b len args) (\<lambda>(k, args). Inr (signed_text 10 k, args))
      else case radix_of c of
          Some r \<Rightarrow> bindE (unsigned_arg b len args) (\<lambda>(n, args). Inr (numeral_text r n, args))
        | None \<Rightarrow> Inr ([], args))"

fun render :: "build \<Rightarrow> directive list \<Rightarrow> va_list \<Rightarrow> u8 list res" where
  "render b [] args = Inr []"
| "render b (d # ds) args =
     bindE (render_directive b d args) (\<lambda>(t, args). bindE (render b ds args) (\<lambda>ts. Inr (t @ ts)))"

lemma puts_eq: "puts b cs s = fold (putc b) (takeWhile (\<lambda>x. x \<noteq> 0) cs) s"
  by (induction b cs s rule: puts.induct) simp_all

lemma sint_scast_up: "sint (scast (w :: u32) :: u64) = sint w"
  by (rule sint_up_scast) (simp add: is_up)

lemma printf_number_signed:
  "printf_number b True len 10 args s =
     bindE (signed_arg b len args) (\<lambda>(k, args). Inr (args, fold (putc b) (signed_text 10 k) s))"
proof -
  have "printf_signed b n 10 s = Inr (fold (putc b) (signed_text 10 (sint n)) s)" for n
    using printf_signed_eq [of 10 b n s] by simp
  then show ?thesis
    by (cases len) (auto simp: printf_number_def signed_arg_def bindE_def sint_scast_up
        split: sum.splits)
qed

lemma printf_number_unsigned:
  assumes "4 \<le> r" and "r \<le> 16"
  shows "printf_number b False len (of_nat r) args s =
     bindE (unsigned_arg b len args) (\<lambda>(n, args). Inr (args, fold (putc b) (numeral_text r n) s))"
  by (cases len) (auto simp: printf_number_def unsigned_arg_def bindE_def
      printf_unsigned_eq [OF assms] split: sum.splits)

lemma printf_spec_renders:
  "printf_spec b len c args s =
     bindE (render_directive b (Convert len c) args) (\<lambda>(t, args). Inr (args, fold (putc b) t s))"
  using printf_number_unsigned [of 10 b len args s] printf_number_unsigned [of 16 b len args s]
    printf_number_unsigned [of 8 b len args s] printf_number_signed [of b len args s]
  by (simp add: printf_spec_def radix_of_def bindE_def puts_eq split: sum.splits)


lemma render_Convert:
  assumes "\<And>args s. printf_loop b STATE_NORMAL LENGTH_DEFAULT ds args s =
      bindE (render b (parse_format ds) args) (\<lambda>t. Inr (fold (putc b) t s))"
  shows "bindE (printf_spec b len d args s)
      (\<lambda>(args, s). printf_loop b STATE_NORMAL LENGTH_DEFAULT ds args s) =
    bindE (render b (Convert len d # parse_format ds) args) (\<lambda>t. Inr (fold (putc b) t s))"
  by (simp add: printf_spec_renders assms bindE_def del: render_directive.simps split: sum.splits)

lemma printf_loop_renders:
  assumes "0 \<notin> set fmt"
  shows "printf_loop b STATE_NORMAL LENGTH_DEFAULT fmt args s =
     bindE (render b (parse_format fmt) args) (\<lambda>t. Inr (fold (putc b) t s))"
  using assms
proof (induction fmt arbitrary: args s rule: length_induct)
  case (1 fmt)
  have IH: "printf_loop b STATE_NORMAL LENGTH_DEFAULT ds args s =
      bindE (render b (parse_format ds) args) (\<lambda>t. Inr (fold (putc b) t s))"
    if "length ds < length fmt" "0 \<notin> set ds" for ds args s
    using 1 that by blast
  note conv = render_Convert [OF IH]
  note render.simps(2) [simp del]
  show ?case
  proof (cases fmt)
    case c: (Cons c cs)
    show ?thesis
    proof (cases "c = ch CHR ''%''")
      case False
      then show ?thesis
        using c 1(2) IH by (simp add: render.simps bindE_def split: sum.splits)
    next
      case pct: True
      show ?thesis
      proof (cases cs)
        case d: (Cons d ds)
        show ?thesis
        proof (cases "d = ch CHR ''h'' \<or> d = ch CHR ''l''")
          case False
          then show ?thesis
            using c d pct 1(2) conv [of ds] by simp
        next
          case True
          show ?thesis
          proof (cases ds)
            case e: (Cons e es)
            show ?thesis
            proof (cases "e = d")
              case same: True
              show ?thesis
              proof (cases es)
                case (Cons f fs)
                then show ?thesis
                  using same True c d e pct 1(2) conv [of fs] by auto
              qed (use same True c d e pct 1(2) in auto)
            next
              case False
              then show ?thesis
                using True c d e pct 1(2) conv [of es] by auto
            qed
          qed (use True c d pct 1(2) in auto)
        qed
      qed (use c pct in \<open>simp add: render.simps\<close>)
    qed
  qed (simp add: render.simps)
qed

text \<open>
  C7: On a terminated format string the state machine of \<^verbatim>\<open>printf\<close> prints, byte by byte through
  \<^verbatim>\<open>putc\<close>, exactly the text that the directives of the format mean for the arguments, and goes
  wrong exactly when a directive finds no argument of its kind.
\<close>

theorem printf_renders_format:
  assumes "0 \<notin> set fmt"
  shows "printf b fmt args s =
     bindE (render b (parse_format fmt) args) (\<lambda>t. Inr (fold (putc b) t s))"
  unfolding printf_def by (rule printf_loop_renders [OF assms])

theorem printf_renders_format_witness:
  "printf Kernel64 (bytes_of ''%i regions'') [Bits 42] blank_console =
     bindE (render Kernel64 (parse_format (bytes_of ''%i regions'')) [Bits 42])
       (\<lambda>t. Inr (fold (putc Kernel64) t blank_console))"
  by (rule printf_renders_format) simp

end
