(* ===== verification/Logger.thy ===== *)
theory Logger
  imports Printf
begin

text \<open>
  \<^verbatim>\<open>src/libc/stdio/vprintf.c\<close> and the boot loader's \<^verbatim>\<open>logger.c\<close>.  \<^verbatim>\<open>vprintf\<close> has a format
  interpreter of its own, which hands every directive with its argument to \<^verbatim>\<open>printf\<close>.
\<close>

section \<open>\<^verbatim>\<open>vprintf\<close>\<close>

text \<open>The byte \<^verbatim>\<open>*(format + i)\<close>, the terminator included.\<close>

definition char_at :: "u8 list \<Rightarrow> nat \<Rightarrow> u8" where
  "char_at cs i = (if i < length cs then cs ! i else 0)"

text \<open>The slots in which an \<^verbatim>\<open>int\<close> and a \<^verbatim>\<open>long long\<close> are passed on.\<close>

definition pass_int :: "u32 \<Rightarrow> slot list" where
  "pass_int w = [Bits (ucast w)]"

definition pass_long_long :: "build \<Rightarrow> u64 \<Rightarrow> slot list" where
  "pass_long_long b w = (case b of
     Boot32 \<Rightarrow> [Bits (ucast (ucast w :: u32)), Bits (ucast (ucast (drop_bit 32 w) :: u32))]
   | Kernel64 \<Rightarrow> [Bits w])"

definition take_int :: "va_list \<Rightarrow> (slot list \<times> va_list) res" where
  "take_int args = bindE (va_int args) (\<lambda>(w, args). Inr (pass_int w, args))"

definition take_long_long :: "build \<Rightarrow> va_list \<Rightarrow> (slot list \<times> va_list) res" where
  "take_long_long b args = bindE (va_long_long b args) (\<lambda>(w, args). Inr (pass_long_long b w, args))"

definition take_long :: "build \<Rightarrow> va_list \<Rightarrow> (slot list \<times> va_list) res" where
  "take_long b args = (case b of Boot32 \<Rightarrow> take_int args | Kernel64 \<Rightarrow> take_long_long b args)"

definition take_str :: "va_list \<Rightarrow> (slot list \<times> va_list) res" where
  "take_str args = bindE (va_str args) (\<lambda>(cs, args). Inr ([Str cs], args))"

definition vprintf_pass ::
  "build \<Rightarrow> string \<Rightarrow> (va_list \<Rightarrow> (slot list \<times> va_list) res) \<Rightarrow> va_list \<Rightarrow> console
    \<Rightarrow> (va_list \<times> console) res" where
  "vprintf_pass b fmt take_arg args s =
     bindE (take_arg args) (\<lambda>(slots, args).
       bindE (printf b (bytes_of fmt) slots s) (\<lambda>s. Inr (args, s)))"

text \<open>
  The \<^verbatim>\<open>switch\<close> over the numeric conversions, which the source repeats for every length with the
  modifier \<open>len\<close> in the formats and the \<^verbatim>\<open>va_arg\<close> types to match.
\<close>

definition vprintf_number ::
  "build \<Rightarrow> string \<Rightarrow> (va_list \<Rightarrow> (slot list \<times> va_list) res) \<Rightarrow> u8 \<Rightarrow> va_list \<Rightarrow> console
    \<Rightarrow> (va_list \<times> console) res" where
  "vprintf_number b len take_arg c args s =
     (if c = ch CHR ''d'' \<or> c = ch CHR ''i'' then vprintf_pass b (''%'' @ len @ ''d'') take_arg args s
      else if c = ch CHR ''u'' then vprintf_pass b (''%'' @ len @ ''u'') take_arg args s
      else if c = ch CHR ''X'' \<or> c = ch CHR ''x'' \<or> c = ch CHR ''p''
        then vprintf_pass b (''%'' @ len @ ''p'') take_arg args s
      else if c = ch CHR ''o'' then vprintf_pass b (''%'' @ len @ ''o'') take_arg args s
      else Inr (args, s))"

text \<open>
  The outer \<^verbatim>\<open>switch\<close> for a format that starts with a percent sign: how far \<^verbatim>\<open>format\<close> advances, the
  arguments left and the console.
\<close>

definition vprintf_directive ::
  "build \<Rightarrow> u8 list \<Rightarrow> va_list \<Rightarrow> console \<Rightarrow> (nat \<times> va_list \<times> console) res" where
  "vprintf_directive b format args s =
     (let c = char_at format 1; advance = (\<lambda>n r. bindE r (\<lambda>(args, s). Inr (n, args, s)))
      in if c = ch CHR ''c'' then advance 2 (vprintf_pass b ''%c'' take_int args s)
      else if c = ch CHR ''s'' then advance 2 (vprintf_pass b ''%s'' take_str args s)
      else if c = ch CHR ''%'' then Inr (2, args, putc b (ch CHR ''%'') s)
      else if c = ch CHR ''l'' then
        if char_at format 2 = ch CHR ''l''
        then advance 4 (vprintf_number b ''ll'' (take_long_long b) (char_at format 3) args s)
        else advance 3 (vprintf_number b ''l'' (take_long b) (char_at format 2) args s)
      else if c = ch CHR ''h'' then
        if char_at format 2 = ch CHR ''h''
        then advance 4 (vprintf_number b ''hh'' take_int (char_at format 3) args s)
        else advance 3 (vprintf_number b ''h'' take_int (char_at format 2) args s)
      else advance 2 (vprintf_number b '''' take_int c args s))"

lemma vprintf_directive_advances:
  "vprintf_directive b format args s = Inr (n, args', s') \<Longrightarrow> 2 \<le> n"
  by (auto simp: vprintf_directive_def Let_def bindE_eq_Inr split: if_splits)

text \<open>
  The loop of \<^verbatim>\<open>vprintf\<close>.  Advancing beyond the terminator makes the next test of \<^verbatim>\<open>*format\<close> read
  outside the string.
\<close>

function vprintf :: "build \<Rightarrow> u8 list \<Rightarrow> va_list \<Rightarrow> console \<Rightarrow> console res" where
  "vprintf b format args s =
     (if char_at format 0 = 0 then Inr s
      else if char_at format 0 = ch CHR ''%'' \<and> char_at format 1 \<noteq> 0 then
        bindE (vprintf_directive b format args s) (\<lambda>(n, args, s).
          if length format < n then Inl OutOfBounds else vprintf b (drop n format) args s)
      else vprintf b (drop 1 format) args (putc b (char_at format 0) s))"
  by pat_completeness auto
termination
  by (relation "measure (\<lambda>(b, format, args, s). length format)")
    (auto simp: char_at_def dest: vprintf_directive_advances split: if_splits)

declare vprintf.simps [simp del]

section \<open>The arguments survive being passed on\<close>

definition take_for :: "build \<Rightarrow> printf_length \<Rightarrow> va_list \<Rightarrow> (slot list \<times> va_list) res" where
  "take_for b len = (case len of
     LENGTH_LONG \<Rightarrow> take_long b
   | LENGTH_LONG_LONG \<Rightarrow> take_long_long b
   | _ \<Rightarrow> take_int)"

definition length_text :: "printf_length \<Rightarrow> string" where
  "length_text len = (case len of
     LENGTH_DEFAULT \<Rightarrow> []
   | LENGTH_SHORT_SHORT \<Rightarrow> ''hh''
   | LENGTH_SHORT \<Rightarrow> ''h''
   | LENGTH_LONG \<Rightarrow> ''l''
   | LENGTH_LONG_LONG \<Rightarrow> ''ll'')"

lemma ucast_ucast_u32 [simp]: "ucast (ucast (w :: u32) :: u64) = w"
  by (rule bit_word_eqI) (auto simp: bit_simps)

lemma va_int_pass [simp]: "va_int (pass_int w) = Inr (w, [])"
  by (simp add: pass_int_def)

lemma join_halves:
  fixes w :: u64
  shows "ucast (ucast w :: u32) OR push_bit 32 (ucast (ucast (drop_bit 32 w) :: u32)) = w"
  by (rule bit_word_eqI) (auto simp: bit_simps)

lemma va_long_long_pass [simp]: "va_long_long b (pass_long_long b w) = Inr (w, [])"
  by (cases b) (simp_all add: pass_long_long_def join_halves)

lemma signed_arg_passed:
  "signed_arg b len args =
     bindE (take_for b len args) (\<lambda>(slots, rest). Inr (fst (projr (signed_arg b len slots)), rest))"
  "take_for b len args = Inr (slots, rest) \<Longrightarrow> \<exists>k. signed_arg b len slots = Inr (k, [])"
  by (cases len; cases b;
      auto simp: take_for_def take_int_def take_long_def take_long_long_def signed_arg_def va_long_def
        bindE_def split: sum.splits)+

lemma unsigned_arg_passed:
  "unsigned_arg b len args =
     bindE (take_for b len args) (\<lambda>(slots, rest). Inr (fst (projr (unsigned_arg b len slots)), rest))"
  "take_for b len args = Inr (slots, rest) \<Longrightarrow> \<exists>k. unsigned_arg b len slots = Inr (k, [])"
  by (cases len; cases b;
      auto simp: take_for_def take_int_def take_long_def take_long_long_def unsigned_arg_def va_ulong_def
        bindE_def split: sum.splits)+

text \<open>Conversions that take an argument whatever the length modifier; \<^verbatim>\<open>vprintf\<close> knows them without one.\<close>

definition lengthless :: "u8 \<Rightarrow> bool" where
  "lengthless c \<longleftrightarrow> c = ch CHR ''c'' \<or> c = ch CHR ''s'' \<or> c = ch CHR ''%''"

definition conversion :: "u8 \<Rightarrow> u8" where
  "conversion c =
     (if c = ch CHR ''i'' then ch CHR ''d''
      else if c = ch CHR ''X'' \<or> c = ch CHR ''x'' then ch CHR ''p'' else c)"

lemma render_conversion:
  "\<not> lengthless c \<Longrightarrow>
   render_directive b (Convert len (conversion c)) args = render_directive b (Convert len c) args"
  by (auto simp: lengthless_def conversion_def radix_of_def)

lemma parse_length_text:
  assumes "c \<noteq> ch CHR ''h''" and "c \<noteq> ch CHR ''l''"
  shows "parse_format (ch CHR ''%'' # bytes_of (length_text len) @ [c]) = [Convert len c]"
  using assms by (cases len) (simp_all add: length_text_def)

lemma bytes_of_append [simp]: "bytes_of (xs @ ys) = bytes_of xs @ bytes_of ys"
  by (simp add: bytes_of_def)

lemma zero_not_in_length_text: "0 \<notin> set (bytes_of (length_text len))"
  by (cases len) (simp_all add: length_text_def)

lemma printf_one_directive:
  assumes "c \<noteq> ch CHR ''h''" "c \<noteq> ch CHR ''l''" "c \<noteq> 0" "c = ch C"
  shows "printf b (bytes_of (''%'' @ length_text len @ [C])) args s =
    bindE (render_directive b (Convert len c) args) (\<lambda>(t, left). Inr (fold (putc b) t s))"
proof -
  let ?fmt = "bytes_of (''%'' @ length_text len @ [C])"
  have null: "0 \<notin> set ?fmt"
    using assms zero_not_in_length_text [of len] by simp
  have parse: "parse_format ?fmt = [Convert len c]"
    using parse_length_text [OF assms(1,2), of len] assms(4) by simp
  show ?thesis
    unfolding printf_def printf_loop_renders [OF null] parse
    by (simp add: bindE_def del: render_directive.simps split: sum.splits prod.splits)
qed

lemma pass_signed:
  assumes "c = ch CHR ''d''"
  shows "vprintf_pass b (''%'' @ length_text len @ ''d'') (take_for b len) args s =
    bindE (render_directive b (Convert len c) args) (\<lambda>(t, args). Inr (args, fold (putc b) t s))"
proof -
  have "c \<noteq> ch CHR ''h''" "c \<noteq> ch CHR ''l''" "c \<noteq> 0" using assms by simp_all
  note one = printf_one_directive [OF this assms, of b len]
  have render: "render_directive b (Convert len c) args =
      bindE (signed_arg b len args) (\<lambda>(k, args). Inr (signed_text 10 k, args))" for args
    using assms by simp
  show ?thesis
    unfolding vprintf_pass_def one render
    using signed_arg_passed [of b len args]
    by (fastforce simp: bindE_def split: sum.splits prod.splits)
qed

lemma pass_unsigned:
  assumes "c = ch C" and "radix_of c = Some r"
  shows "vprintf_pass b (''%'' @ length_text len @ [C]) (take_for b len) args s =
    bindE (render_directive b (Convert len c) args) (\<lambda>(t, args). Inr (args, fold (putc b) t s))"
proof -
  have "c \<noteq> ch CHR ''h''" "c \<noteq> ch CHR ''l''" "c \<noteq> 0"
    using assms(2) by (auto simp: radix_of_def)
  note one = printf_one_directive [OF this assms(1), of b len]
  have render: "render_directive b (Convert len c) args =
      bindE (unsigned_arg b len args) (\<lambda>(n, args). Inr (numeral_text r n, args))" for args
    using assms(2) by (auto simp: radix_of_def split: if_splits)
  show ?thesis
    unfolding vprintf_pass_def one render
    using unsigned_arg_passed [of b len args]
    by (fastforce simp: bindE_def split: sum.splits prod.splits)
qed

lemma vprintf_number_renders:
  assumes "\<not> lengthless c"
  shows "vprintf_number b (length_text len) (take_for b len) c args s =
    bindE (render_directive b (Convert len c) args) (\<lambda>(t, args). Inr (args, fold (putc b) t s))"
proof -
  have "vprintf_number b (length_text len) (take_for b len) c args s =
      bindE (render_directive b (Convert len (conversion c)) args)
        (\<lambda>(t, args). Inr (args, fold (putc b) t s))"
    using assms pass_signed [of "ch CHR ''d''" b len args s]
      pass_unsigned [of "ch CHR ''u''" "CHR ''u''" 10 b len args s]
      pass_unsigned [of "ch CHR ''p''" "CHR ''p''" 16 b len args s]
      pass_unsigned [of "ch CHR ''o''" "CHR ''o''" 8 b len args s]
    by (auto simp: vprintf_number_def conversion_def lengthless_def radix_of_def)
  then show ?thesis using render_conversion [OF assms] by simp
qed

section \<open>\<^verbatim>\<open>vprintf\<close> prints what \<^verbatim>\<open>printf\<close> prints\<close>

text \<open>
  The formats on which the two interpreters are meant to agree: no directive breaks off, and none
  with a length modifier converts a character, a string or a percent sign.
\<close>

fun log_format :: "u8 list \<Rightarrow> bool" where
  "log_format [] = True"
| "log_format (c # cs) =
     (if c \<noteq> ch CHR ''%'' then log_format cs
      else case cs of
        [] \<Rightarrow> False
      | d # ds \<Rightarrow>
          if d = ch CHR ''h'' \<or> d = ch CHR ''l'' then
            (case ds of
               [] \<Rightarrow> False
             | e # es \<Rightarrow>
                 if e = d then (case es of [] \<Rightarrow> False | f # fs \<Rightarrow> \<not> lengthless f \<and> log_format fs)
                 else \<not> lengthless e \<and> log_format es)
          else log_format ds)"

declare log_format.simps(2) [simp del]

lemma pass_str:
  "vprintf_pass b ''%s'' take_str args s =
    bindE (render_directive b (Convert LENGTH_DEFAULT (ch CHR ''s'')) args)
      (\<lambda>(t, args). Inr (args, fold (putc b) t s))"
  using printf_one_directive [of "ch CHR ''s''" "CHR ''s''" b LENGTH_DEFAULT]
  by (simp add: vprintf_pass_def length_text_def take_str_def bindE_def split: sum.splits prod.splits)

lemma pass_char:
  "vprintf_pass b ''%c'' take_int args s =
    bindE (render_directive b (Convert LENGTH_DEFAULT (ch CHR ''c'')) args)
      (\<lambda>(t, args). Inr (args, fold (putc b) t s))"
  using printf_one_directive [of "ch CHR ''c''" "CHR ''c''" b LENGTH_DEFAULT]
  by (simp add: vprintf_pass_def length_text_def take_int_def bindE_def split: sum.splits prod.splits)

lemma advance_bind:
  "bindE (bindE r (\<lambda>(t, args). Inr (args, f t))) (\<lambda>(args, s). Inr (n, args, s)) =
    bindE r (\<lambda>(t, args). Inr (n, args, f t))"
  by (cases r) auto

lemma vprintf_directive_default:
  assumes "d \<noteq> ch CHR ''h''" and "d \<noteq> ch CHR ''l''"
  shows "vprintf_directive b (c # d # ds) args s =
      bindE (render_directive b (Convert LENGTH_DEFAULT d) args)
        (\<lambda>(t, args). Inr (2, args, fold (putc b) t s))"
proof (cases "lengthless d")
  case True
  then consider "d = ch CHR ''c''" | "d = ch CHR ''s''" | "d = ch CHR ''%''"
    by (auto simp only: lengthless_def)
  then show ?thesis
  proof cases
    case 1
    then show ?thesis
      by (simp add: vprintf_directive_def char_at_def pass_char advance_bind del: render_directive.simps)
  next
    case 2
    then show ?thesis
      by (simp add: vprintf_directive_def char_at_def pass_str advance_bind del: render_directive.simps)
  next
    case 3
    then show ?thesis by (simp add: vprintf_directive_def char_at_def)
  qed
next
  case False
  then have "d \<noteq> ch CHR ''c''" "d \<noteq> ch CHR ''s''" "d \<noteq> ch CHR ''%''"
    by (simp_all add: lengthless_def)
  then show ?thesis
    using assms vprintf_number_renders [OF False, of b LENGTH_DEFAULT args s]
    by (simp add: vprintf_directive_def char_at_def length_text_def take_for_def advance_bind
        del: render_directive.simps)
qed

lemma vprintf_directive_length:
  assumes "d = ch CHR ''h'' \<or> d = ch CHR ''l''" and "e \<noteq> d" and "\<not> lengthless e"
  shows "vprintf_directive b (c # d # e # es) args s =
      bindE (render_directive b (Convert (if d = ch CHR ''h'' then LENGTH_SHORT else LENGTH_LONG) e) args)
        (\<lambda>(t, args). Inr (3, args, fold (putc b) t s))"
  using assms(1)
proof
  assume "d = ch CHR ''h''"
  then show ?thesis
    using assms(2) vprintf_number_renders [OF assms(3), of b LENGTH_SHORT args s]
    by (simp add: vprintf_directive_def char_at_def length_text_def take_for_def advance_bind
        del: render_directive.simps)
next
  assume "d = ch CHR ''l''"
  then show ?thesis
    using assms(2) vprintf_number_renders [OF assms(3), of b LENGTH_LONG args s]
    by (simp add: vprintf_directive_def char_at_def length_text_def take_for_def advance_bind
        del: render_directive.simps)
qed

lemma vprintf_directive_twice:
  assumes "d = ch CHR ''h'' \<or> d = ch CHR ''l''" and "\<not> lengthless f"
  shows "vprintf_directive b (c # d # d # f # fs) args s =
      bindE (render_directive b
          (Convert (if d = ch CHR ''h'' then LENGTH_SHORT_SHORT else LENGTH_LONG_LONG) f) args)
        (\<lambda>(t, args). Inr (4, args, fold (putc b) t s))"
  using assms(1)
proof
  assume "d = ch CHR ''h''"
  then show ?thesis
    using vprintf_number_renders [OF assms(2), of b LENGTH_SHORT_SHORT args s]
    by (simp add: vprintf_directive_def char_at_def length_text_def take_for_def advance_bind
        del: render_directive.simps)
next
  assume "d = ch CHR ''l''"
  then show ?thesis
    using vprintf_number_renders [OF assms(2), of b LENGTH_LONG_LONG args s]
    by (simp add: vprintf_directive_def char_at_def length_text_def take_for_def advance_bind
        del: render_directive.simps)
qed

text \<open>A format that starts with a directive: its length and meaning, and the format after it.\<close>

lemma vprintf_directive_renders:
  assumes "log_format (c # cs)" and "c = ch CHR ''%''"
  obtains len d n where
    "parse_format (c # cs) = Convert len d # parse_format (drop n (c # cs))"
    "log_format (drop n (c # cs))" "1 \<le> n" "n \<le> length (c # cs)"
    "\<And>args s. vprintf_directive b (c # cs) args s =
       bindE (render_directive b (Convert len d) args) (\<lambda>(t, args). Inr (n, args, fold (putc b) t s))"
proof (cases cs)
  case Nil
  then show ?thesis using assms by (simp add: log_format.simps(2))
next
  case d: (Cons d ds)
  show ?thesis
  proof (cases "d = ch CHR ''h'' \<or> d = ch CHR ''l''")
    case False
    then show ?thesis
      using that [of LENGTH_DEFAULT d 2] assms d vprintf_directive_default [of d b c ds]
      by (simp add: log_format.simps(2) del: render_directive.simps)
  next
    case True
    show ?thesis
    proof (cases ds)
      case Nil
      then show ?thesis using assms True d by (auto simp: log_format.simps(2))
    next
      case e: (Cons e es)
      show ?thesis
      proof (cases "e = d")
        case False
        then show ?thesis
          using that [of "if d = ch CHR ''h'' then LENGTH_SHORT else LENGTH_LONG" e 3] assms d e True
            vprintf_directive_length [of d e b c es]
          by (auto simp: log_format.simps(2) simp del: render_directive.simps)
      next
        case same: True
        show ?thesis
        proof (cases es)
          case Nil
          then show ?thesis using assms True d e same by (auto simp: log_format.simps(2))
        next
          case (Cons f fs)
          then show ?thesis
            using that [of "if d = ch CHR ''h'' then LENGTH_SHORT_SHORT else LENGTH_LONG_LONG" f 4]
              assms d e same True vprintf_directive_twice [of d f b c fs]
            by (auto simp: log_format.simps(2) simp del: render_directive.simps)
        qed
      qed
    qed
  qed
qed

lemma vprintf_renders:
  assumes "log_format fmt" and "0 \<notin> set fmt"
  shows "vprintf b fmt args s = bindE (render b (parse_format fmt) args) (\<lambda>t. Inr (fold (putc b) t s))"
  using assms
proof (induction fmt arbitrary: args s rule: length_induct)
  case (1 fmt)
  show ?case
  proof (cases fmt)
    case Nil
    then show ?thesis by (simp add: vprintf.simps char_at_def)
  next
    case (Cons c cs)
    show ?thesis
    proof (cases "c = ch CHR ''%''")
      case True
      from 1(2) Cons have "log_format (c # cs)" by simp
      then obtain len d n where step:
        "parse_format (c # cs) = Convert len d # parse_format (drop n (c # cs))"
        "log_format (drop n (c # cs))" "1 \<le> n" "n \<le> length (c # cs)"
        "\<And>args s. vprintf_directive b (c # cs) args s =
          bindE (render_directive b (Convert len d) args) (\<lambda>(t, args). Inr (n, args, fold (putc b) t s))"
        by (rule vprintf_directive_renders [OF _ True, where b = b]) (rule that)
      note step = step [folded Cons]
      note parse = step(1) and rest = step(2-4) and directive = step(5)
      have more: "char_at fmt 1 \<noteq> 0"
        using 1(2,3) Cons True by (cases cs) (auto simp: char_at_def log_format.simps(2))
      have first: "char_at fmt 0 = ch CHR ''%''" using Cons True by (simp add: char_at_def)
      have "length (drop n fmt) < length fmt" "0 \<notin> set (drop n fmt)"
        using rest(2,3) 1(3) by (auto dest: in_set_dropD)
      then have IH: "vprintf b (drop n fmt) args s =
          bindE (render b (parse_format (drop n fmt)) args) (\<lambda>t. Inr (fold (putc b) t s))" for args s
        using 1(1) rest(1) by blast
      show ?thesis
        unfolding vprintf.simps [of b fmt] directive parse first
        using rest(3) more
        by (simp add: IH bindE_def del: render_directive.simps split: sum.splits prod.splits)
    next
      case False
      then have "log_format cs" using 1(2) Cons by (simp add: log_format.simps(2))
      then have IH: "vprintf b cs args s =
          bindE (render b (parse_format cs) args) (\<lambda>t. Inr (fold (putc b) t s))" for args s
        using 1(1,3) Cons by simp
      have "char_at fmt 0 = c" "c \<noteq> 0" "drop 1 fmt = cs" using Cons 1(3) by (simp_all add: char_at_def)
      then show ?thesis
        unfolding vprintf.simps [of b fmt]
        using False Cons by (simp add: IH bindE_def split: sum.splits)
    qed
  qed
qed

section \<open>\<^verbatim>\<open>log\<close>\<close>

datatype LogLevel = LOG_NORMAL | LOG_WARNING | LOG_ERROR | LOG_CRITICAL

definition level_text :: "LogLevel \<Rightarrow> string" where
  "level_text level = (case level of
     LOG_WARNING \<Rightarrow> ''WARNING: ''
   | LOG_ERROR \<Rightarrow> ''ERROR: ''
   | LOG_CRITICAL \<Rightarrow> ''CRITICAL: ''
   | LOG_NORMAL \<Rightarrow> '''')"

text \<open>\<^verbatim>\<open>service\<close> is an array of eight bytes, all of which are printed.\<close>

definition log :: "build \<Rightarrow> LogLevel \<Rightarrow> u8 list \<Rightarrow> u8 list \<Rightarrow> va_list \<Rightarrow> console \<Rightarrow> console res" where
  "log b level service format args s =
     (if length service < 8 then Inl OutOfBounds
      else let s = putc b (ch CHR ''['') s;
               s = fold (\<lambda>i. putc b (service ! i)) [0..<8] s;
               s = puts b (bytes_of ''] '') s;
               s = puts b (bytes_of (level_text level)) s
      in bindE (vprintf b format args s) (\<lambda>s. Inr (putc b (ch CHR ''\<newline>'') s)))"

section \<open>What is printed\<close>

text \<open>
  C38: On every format string in which no directive breaks off and no length modifier stands before
  \<^verbatim>\<open>c\<close>, \<^verbatim>\<open>s\<close> or \<^verbatim>\<open>%\<close>, the interpreter of \<^verbatim>\<open>vprintf\<close> has the effect of \<^verbatim>\<open>printf\<close> on the same format and
  arguments, missing arguments included.
\<close>

theorem vprintf_agrees_with_printf:
  assumes "log_format fmt" and "0 \<notin> set fmt"
  shows "vprintf b fmt args s = printf b fmt args s"
  unfolding printf_def printf_loop_renders [OF assms(2)] by (rule vprintf_renders [OF assms])

theorem vprintf_agrees_with_printf_witness:
  "vprintf Boot32 (bytes_of ''%i of %llu'') [Bits 1, Bits 2, Bits 0] blank_console =
   printf Boot32 (bytes_of ''%i of %llu'') [Bits 1, Bits 2, Bits 0] blank_console"
  by (rule vprintf_agrees_with_printf) (simp_all add: log_format.simps(2) lengthless_def)

lemma vprintf_literal:
  assumes "0 \<notin> set pre" and "ch CHR ''%'' \<notin> set pre"
  shows "vprintf b (pre @ fmt) args s = vprintf b fmt args (fold (putc b) pre s)"
  using assms
  by (induction pre arbitrary: s) (simp_all add: vprintf.simps [of b "_ # _"] char_at_def)

lemma printf_loop_literal:
  assumes "0 \<notin> set pre" and "ch CHR ''%'' \<notin> set pre"
  shows "printf_loop b STATE_NORMAL len (pre @ fmt) args s =
    printf_loop b STATE_NORMAL len fmt args (fold (putc b) pre s)"
  using assms by (induction pre arbitrary: s) simp_all

text \<open>
  The two interpreters differ on a format that breaks off in a directive.  After a length
  modifier at the end \<^verbatim>\<open>vprintf\<close> steps over the terminator and goes on outside the string, and it
  prints a percent sign at the end; \<^verbatim>\<open>printf\<close> prints nothing for either and returns.
\<close>

theorem vprintf_broken_off:
  assumes "0 \<notin> set pre" and "ch CHR ''%'' \<notin> set pre"
    and "m = ch CHR ''l'' \<or> m = ch CHR ''h''"
  shows "vprintf b (pre @ [ch CHR ''%'', m]) args s = Inl OutOfBounds \<and>
    printf b (pre @ [ch CHR ''%'', m]) args s = Inr (fold (putc b) pre s) \<and>
    vprintf b (pre @ [ch CHR ''%'']) args s = Inr (putc b (ch CHR ''%'') (fold (putc b) pre s)) \<and>
    printf b (pre @ [ch CHR ''%'']) args s = Inr (fold (putc b) pre s)"
proof (intro conjI)
  have "vprintf_directive b [ch CHR ''%'', m] args s = Inr (3, args, s)" for s
    using assms(3)
    by (elim disjE) (simp_all add: vprintf_directive_def char_at_def vprintf_number_def)
  then have "vprintf b [ch CHR ''%'', m] args s = Inl OutOfBounds" for s
    using assms(3) by (subst vprintf.simps) (auto simp: char_at_def)
  then show "vprintf b (pre @ [ch CHR ''%'', m]) args s = Inl OutOfBounds"
    by (simp only: vprintf_literal [OF assms(1,2)])
  show "vprintf b (pre @ [ch CHR ''%'']) args s = Inr (putc b (ch CHR ''%'') (fold (putc b) pre s))"
    by (simp add: vprintf_literal [OF assms(1,2)] vprintf.simps [of b "[_]"] vprintf.simps [of b "[]"]
        char_at_def)
  show "printf b (pre @ [ch CHR ''%'', m]) args s = Inr (fold (putc b) pre s)"
    using assms(3) by (auto simp: printf_def printf_loop_literal [OF assms(1,2)])
  show "printf b (pre @ [ch CHR ''%'']) args s = Inr (fold (putc b) pre s)"
    by (simp add: printf_def printf_loop_literal [OF assms(1,2)])
qed

theorem vprintf_broken_off_witness:
  "vprintf Boot32 (bytes_of ''at '' @ [ch CHR ''%'', ch CHR ''l'']) [Bits 7] blank_console = Inl OutOfBounds"
  using vprintf_broken_off [of "bytes_of ''at ''" "ch CHR ''l''" Boot32 "[Bits 7]" blank_console] by simp

lemma log_eq:
  assumes "log_format fmt" and "0 \<notin> set fmt" and "length service = 8"
  shows "log b level service fmt args s =
    bindE (render b (parse_format fmt) args) (\<lambda>t. Inr (fold (putc b)
      ([ch CHR ''[''] @ service @ bytes_of ''] '' @ bytes_of (level_text level) @ t @ [ch CHR ''\<newline>'']) s))"
proof -
  have "fold (\<lambda>i. putc b (service ! i)) [0..<8] s = fold (putc b) (map (nth service) [0..<8]) s" for s
    by (simp add: fold_map comp_def)
  moreover have "map (nth service) [0..<8] = service"
    using map_nth [of service] assms(3) by simp
  ultimately have service: "fold (\<lambda>i. putc b (service ! i)) [0..<8] s = fold (putc b) service s" for s
    by simp
  have level: "takeWhile (\<lambda>x. x \<noteq> 0) (bytes_of (level_text level)) = bytes_of (level_text level)"
    by (cases level) (simp_all add: level_text_def)
  show ?thesis
    using assms(3) unfolding log_def Let_def service puts_eq level vprintf_renders [OF assms(1,2)]
    by (simp add: bindE_def split: sum.splits)
qed

text \<open>
  \<^verbatim>\<open>log\<close> prints one line: the eight bytes of the service's name in brackets, the text of the
  level, the message the directives of the format mean for the arguments, and a line feed.
\<close>

theorem log_prints_line:
  assumes "log_format fmt" and "0 \<notin> set fmt" and "length service = 8"
  shows "log b level service fmt args s =
    bindE (render b (parse_format fmt) args) (\<lambda>t. Inr (fold (putc b)
      ([ch CHR ''[''] @ service @ bytes_of ''] '' @ bytes_of (level_text level) @ t @ [ch CHR ''\<newline>'']) s))"
  by (rule log_eq [OF assms])

theorem log_prints_line_witness:
  "log Boot32 LOG_ERROR (bytes_of ''FAT     '') (bytes_of ''FAT: cannot read FAT'') [] blank_console =
    bindE (render Boot32 (parse_format (bytes_of ''FAT: cannot read FAT'')) []) (\<lambda>t. Inr (fold (putc Boot32)
      ([ch CHR ''[''] @ bytes_of ''FAT     '' @ bytes_of ''] '' @ bytes_of (level_text LOG_ERROR) @ t @
        [ch CHR ''\<newline>'']) blank_console))"
  by (rule log_prints_line) (simp_all add: log_format.simps(2))

end
