(* ===== verification/Machine.thy ===== *)
theory Machine
  imports Printf
begin

text \<open>
  The state every component above libc works on: the console (with the writes made to I/O ports)
  and the state of the hardware and firmware around the program, which is a parameter.
\<close>

record 'w machine =
  console :: console
  world :: 'w

definition port_out :: "u16 \<Rightarrow> u8 \<Rightarrow> ('w, 'e) machine_scheme \<Rightarrow> ('w, 'e) machine_scheme" where
  "port_out port value m = m \<lparr> console := outb port value (console m) \<rparr>"

text \<open>
  \<^verbatim>\<open>inb\<close>: what a read of a port yields is the device's matter; reading may change the device.
\<close>

definition inb ::
  "(u16 \<Rightarrow> 'w \<Rightarrow> u8 \<times> 'w) \<Rightarrow> u16 \<Rightarrow> ('w, 'e) machine_scheme \<Rightarrow> u8 \<times> ('w, 'e) machine_scheme" where
  "inb devices port m = (let (value, w) = devices port (world m) in (value, m \<lparr> world := w \<rparr>))"

definition put_char :: "build \<Rightarrow> u8 \<Rightarrow> ('w, 'e) machine_scheme \<Rightarrow> ('w, 'e) machine_scheme" where
  "put_char b c m = m \<lparr> console := putc b c (console m) \<rparr>"

definition print ::
  "build \<Rightarrow> string \<Rightarrow> va_list \<Rightarrow> ('w, 'e) machine_scheme \<Rightarrow> ('w, 'e) machine_scheme res" where
  "print b fmt args m = bindE (printf b (bytes_of fmt) args (console m)) (\<lambda>c. Inr (m \<lparr> console := c \<rparr>))"

text \<open>What \<^verbatim>\<open>print\<close> shows is the text the format means; a format without a null byte is read to its end.\<close>

definition show_text :: "build \<Rightarrow> u8 list \<Rightarrow> ('w, 'e) machine_scheme \<Rightarrow> ('w, 'e) machine_scheme" where
  "show_text b t m = m \<lparr> console := fold (putc b) t (console m) \<rparr>"

lemma show_text_append: "show_text b t' (show_text b t m) = show_text b (t @ t') m"
  by (simp add: show_text_def)

lemma print_renders:
  assumes "0 \<notin> set (bytes_of fmt)" and "render b (parse_format (bytes_of fmt)) args = Inr t"
  shows "print b fmt args m = Inr (show_text b t m)"
  using assms by (simp add: print_def printf_def printf_loop_renders show_text_def)

text \<open>A format is a sequence of formats: that of the text before the first directive is the text.\<close>

lemma parse_format_literal:
  "ch CHR ''%'' \<notin> set t \<Longrightarrow> parse_format (t @ fmt) = map Literal t @ parse_format fmt"
  by (induction t) auto

lemma render_literal: "render b (map Literal t @ ds) args = bindE (render b ds args) (\<lambda>ts. Inr (t @ ts))"
  by (induction t) (auto simp: bindE_def split: sum.splits)

end
