(* ===== verification/Disk.thy ===== *)
theory Disk
  imports Logger Machine
begin

text \<open>
  The disk driver of the boot loader: \<^verbatim>\<open>libs/disk.c\<close> and the stubs of \<^verbatim>\<open>libs/x86.asm\<close> through which
  it reaches the disk services of the BIOS (interrupt 13h).  The BIOS is not part of the
  repository: it is a parameter of the model.
\<close>

section \<open>The BIOS\<close>

text \<open>The registers of the service \<^verbatim>\<open>AH = 02h\<close> (read sectors) and \<^verbatim>\<open>AH = 08h\<close> (drive parameters).\<close>

record read_regs =
  rAL :: u8
  rCH :: u8
  rCL :: u8
  rDH :: u8
  rDL :: u8
  rES :: u16
  rBX :: u16

record param_regs =
  pBL :: u8
  pCH :: u8
  pCL :: u8
  pDH :: u8

record e820_regs =
  eCarry :: bool
  eEAX :: u32
  eEBX :: u32
  eECX :: u32
  eStored :: "u8 list"

text \<open>
  What the code uses of the BIOS, as functions of its own state \<open>'w\<close>: resetting the drive \<open>DL\<close>
  yields the carry flag, reading yields the status in \<open>AH\<close> and the bytes stored at \<open>ES:BX\<close> (some
  may have been stored when the status is an error), the parameters of a drive are absent when the
  carry flag is set, and the memory map service takes and yields the continuation value in \<open>EBX\<close>
  and yields \<open>EAX\<close>, \<open>EBX\<close>, \<open>ECX\<close>, the carry flag and the bytes stored at \<open>ES:DI\<close>.  The other
  fields are facts about the machine: \<open>EBX\<close>, \<open>EDX\<close> and \<open>ECX\<close> after \<^verbatim>\<open>cpuid\<close> with \<open>EAX = 0\<close>, the upper half
  of \<open>CR0\<close>, and the address the linker gives to the instruction after the call of \<^verbatim>\<open>diskReset16\<close>.
\<close>

record 'w bios =
  int13_reset :: "u8 \<Rightarrow> 'w \<Rightarrow> bool \<times> 'w"
  int13_read :: "read_regs \<Rightarrow> 'w \<Rightarrow> u8 \<times> u8 list \<times> 'w"
  int13_params :: "u8 \<Rightarrow> 'w \<Rightarrow> param_regs option \<times> 'w"
  int15_e820 :: "u32 \<Rightarrow> 'w \<Rightarrow> e820_regs \<times> 'w"
  cpuid_vendor :: "u32 \<times> u32 \<times> u32"
  cr0_high :: u16
  reset_return :: u32

section \<open>The stubs\<close>

text \<open>
  \<^verbatim>\<open>diskReset16\<close> pushes two bytes and then reads the drive number four bytes above the stack
  pointer, which is the third byte of its return address.
\<close>

definition boot_disk_reset :: "'w bios \<Rightarrow> u8 \<Rightarrow> 'w \<Rightarrow> u16 \<times> 'w" where
  "boot_disk_reset bios dl w =
     (let (carry, w) = int13_reset bios dl w in (if carry then 1 else 0, w))"

definition diskReset16 :: "'w bios \<Rightarrow> u8 \<Rightarrow> 'w \<Rightarrow> u16 \<times> 'w" where
  "diskReset16 bios dn w = boot_disk_reset bios (ucast (drop_bit 16 (reset_return bios))) w"

definition LinearToSegOffset :: "u32 \<Rightarrow> u16 \<times> u16" where
  "LinearToSegOffset addr = (ucast (drop_bit 4 addr), ucast (addr AND 0xF))"

text \<open>\<open>diskRead16\<close> yields the status and the bytes stored.\<close>

definition diskRead16 ::
  "'w bios \<Rightarrow> u8 \<Rightarrow> u16 \<Rightarrow> u16 \<Rightarrow> u16 \<Rightarrow> u8 \<Rightarrow> u32 \<Rightarrow> 'w \<Rightarrow> u16 \<times> u8 list \<times> 'w" where
  "diskRead16 bios dn cylinder head sector count dataOut w =
     (let dl = dn;
          ch = ucast cylinder;
          cl = push_bit 6 (ucast (drop_bit 8 cylinder));
          dh = ucast head;
          al = ucast sector AND 0x3F;
          cl = cl OR al;
          al = count;
          (es, bx) = LinearToSegOffset dataOut;
          (ah, stored, w) = int13_read bios
            \<lparr> rAL = al, rCH = ch, rCL = cl, rDH = dh, rDL = dl, rES = es, rBX = bx \<rparr> w
      in (ucast ah, stored, w))"

text \<open>\<open>diskGetDriveParams16\<close> yields its result and what it stores through its pointers, if it does.\<close>

definition diskGetDriveParams16 ::
  "'w bios \<Rightarrow> u8 \<Rightarrow> 'w \<Rightarrow> u16 \<times> (u8 \<times> u16 \<times> u16 \<times> u16) option \<times> 'w" where
  "diskGetDriveParams16 bios dn w =
     (case int13_params bios dn w of
       (None, w) \<Rightarrow> (1, None, w)
     | (Some r, w) \<Rightarrow>
         let driveType = pBL r;
             cylinders = le16 (pCH r) (drop_bit 6 (pCL r)) + 1;
             sectors = ucast (pCL r AND 0x3F);
             heads = ucast (pDH r) + 1
         in (0, Some (driveType, cylinders, heads, sectors), w))"

section \<open>The driver\<close>

record DISK =
  drive :: u8
  cylinders :: u16
  heads :: u16
  sectors :: u16

definition disklogid :: "u8 list" where
  "disklogid = bytes_of ''disk'' @ [0, 0, 0, 0]"

definition boot_log ::
  "LogLevel \<Rightarrow> u8 list \<Rightarrow> string \<Rightarrow> va_list \<Rightarrow> ('w, 'e) machine_scheme \<Rightarrow> ('w, 'e) machine_scheme res" where
  "boot_log level service fmt args m =
     bindE (log Boot32 level service (bytes_of fmt) args (console m)) (\<lambda>c. Inr (m \<lparr> console := c \<rparr>))"

text \<open>Running a stub, which changes the state of the BIOS only.\<close>

definition with_world ::
  "('w \<Rightarrow> 'a \<times> 'w) \<Rightarrow> ('w, 'e) machine_scheme \<Rightarrow> 'a \<times> ('w, 'e) machine_scheme" where
  "with_world f m = (let (x, w) = f (world m) in (x, m \<lparr> world := w \<rparr>))"

definition getStatus :: "u16 \<Rightarrow> string" where
  "getStatus result =
     (if result = 0x01 then ''Parameter out of range''
      else if result = 0x02 then ''Address mark not found''
      else if result = 0x04 then ''Sector not found/read error''
      else if result = 0x05 then ''Reset failure''
      else if result = 0x06 then ''Disk changed''
      else if result = 0x07 then ''Drive parameter activity failed''
      else ''Unknown error'')"

definition DISK_Init ::
  "'w bios \<Rightarrow> DISK \<Rightarrow> u8 \<Rightarrow> ('w, 'e) machine_scheme \<Rightarrow> (u16 \<times> DISK \<times> ('w, 'e) machine_scheme) res" where
  "DISK_Init bios disk driveNumber m =
     (case with_world (\<lambda>w. let (r, out, w) = diskGetDriveParams16 bios driveNumber w in ((r, out), w)) m of
       ((result, Some (driveType, cyl, hds, sec)), m) \<Rightarrow>
         let disk = \<lparr> drive = driveNumber, cylinders = cyl, heads = hds, sectors = sec \<rparr> in
         bindE (boot_log LOG_NORMAL disklogid ''Disk geometry: \"C: %i | H: %i | S: %i\"''
             [Bits (ucast cyl), Bits (ucast hds), Bits (ucast sec)] m) (\<lambda>m.
           Inr (0, disk, m))
     | ((result, None), m) \<Rightarrow>
         bindE (boot_log LOG_CRITICAL disklogid ''Failed to init disk! Failed to get drive parameters. %s''
             [Str (bytes_of (getStatus result))] m) (\<lambda>m.
           Inr (result, disk, m)))"

definition DISK_Reset ::
  "'w bios \<Rightarrow> DISK \<Rightarrow> ('w, 'e) machine_scheme \<Rightarrow> (u16 \<times> ('w, 'e) machine_scheme) res" where
  "DISK_Reset bios disk m =
     (let (r, m) = with_world (diskReset16 bios (drive disk)) m in
      if r = 1 then
        bindE (boot_log LOG_ERROR disklogid ''Failed to reset disk!'' [] m) (\<lambda>m. Inr (1, m))
      else Inr (0, m))"

text \<open>The results are the values stored at \<^verbatim>\<open>cylinderOut\<close>, \<^verbatim>\<open>headOut\<close> and \<^verbatim>\<open>sectorOut\<close>.\<close>

definition DISK_LBA2CHS :: "DISK \<Rightarrow> u32 \<Rightarrow> (u16 \<times> u16 \<times> u16) res" where
  "DISK_LBA2CHS disk lba =
     (if sectors disk = 0 \<or> heads disk = 0 then Inl DivideError
      else Inr (ucast (lba div ucast (sectors disk) div ucast (heads disk)),
                ucast (lba div ucast (sectors disk) mod ucast (heads disk)),
                ucast (lba mod ucast (sectors disk) + 1)))"

text \<open>
  The object at \<^verbatim>\<open>dataOut\<close> is given by its address and its contents.  The bytes the BIOS stores go to
  the linear address of \<open>ES:BX\<close>, which has to be that of the object.
\<close>

definition store_bytes :: "u8 list \<Rightarrow> u8 list \<Rightarrow> u8 list res" where
  "store_bytes bs obj =
     (if length bs \<le> length obj then Inr (bs @ drop (length bs) obj) else Inl OutOfBounds)"

definition seg_linear :: "u16 \<times> u16 \<Rightarrow> u32" where
  "seg_linear r = (let (seg, offset) = r in push_bit 4 (ucast seg) + ucast offset)"

fun read_attempts ::
  "'w bios \<Rightarrow> DISK \<Rightarrow> u16 \<times> u16 \<times> u16 \<Rightarrow> u8 \<Rightarrow> u32 \<Rightarrow> nat \<Rightarrow> u16 \<Rightarrow> u8 list \<Rightarrow> ('w, 'e) machine_scheme
    \<Rightarrow> (u16 \<times> u8 list \<times> ('w, 'e) machine_scheme) res" where
  "read_attempts bios disk chs sectorsToRead dataOut 0 result obj m =
     bindE (boot_log LOG_ERROR disklogid ''Exhausted all three attempts.'' [] m) (\<lambda>m.
       Inr (result, obj, m))"
| "read_attempts bios disk (cyl, hds, sec) sectorsToRead dataOut (Suc left) _ obj m =
     (let ((result, stored), m) = with_world (\<lambda>w.
            let (r, stored, w) = diskRead16 bios (drive disk) cyl hds sec sectorsToRead dataOut w
            in ((r, stored), w)) m
      in bindE (store_bytes stored obj) (\<lambda>obj.
        if result \<noteq> 0 then
          bindE (boot_log LOG_ERROR disklogid ''Failed to read disk! (%s)''
              [Str (bytes_of (getStatus result))] m) (\<lambda>m.
            bindE (DISK_Reset bios disk m) (\<lambda>(r, m).
              if r = 1 then Inr (1, obj, m)
              else read_attempts bios disk (cyl, hds, sec) sectorsToRead dataOut left result obj m))
        else Inr (result, obj, m)))"

definition DISK_ReadSectors ::
  "'w bios \<Rightarrow> DISK \<Rightarrow> u32 \<Rightarrow> u8 \<Rightarrow> u32 \<Rightarrow> u8 list \<Rightarrow> ('w, 'e) machine_scheme
    \<Rightarrow> (u16 \<times> u8 list \<times> ('w, 'e) machine_scheme) res" where
  "DISK_ReadSectors bios disk lba sectorsToRead dataOut obj m =
     bindE (DISK_LBA2CHS disk lba) (\<lambda>chs.
       if seg_linear (LinearToSegOffset dataOut) \<noteq> dataOut then Inl OutOfBounds
       else read_attempts bios disk chs sectorsToRead dataOut 3 0 obj m)"

section \<open>Logging\<close>

text \<open>A message with the arguments its directives ask for is logged, which changes the screen only.\<close>

definition logged :: "('w, 'e) machine_scheme \<Rightarrow> ('w, 'e) machine_scheme res \<Rightarrow> bool" where
  "logged m r \<longleftrightarrow> (\<exists>c. r = Inr (m \<lparr> console := c \<rparr>))"

lemma boot_log_logged:
  assumes "log_format (bytes_of fmt)" and "0 \<notin> set (bytes_of fmt)" and "length service = 8"
    and "render Boot32 (parse_format (bytes_of fmt)) args = Inr t"
  shows "logged m (boot_log level service fmt args m)"
  by (simp add: logged_def boot_log_def log_eq [OF assms(1-3)] assms(4)) blast

lemma length_disklogid [simp]: "length disklogid = 8"
  by (simp add: disklogid_def)

named_theorems log_facts "the messages the components of the boot loader log"

lemma log_disk_failures [log_facts]:
  "logged m (boot_log level disklogid ''Failed to reset disk!'' [] m)"
  "logged m (boot_log level disklogid ''Exhausted all three attempts.'' [] m)"
  by (rule boot_log_logged; simp add: log_format.simps(2))+

lemma log_disk_status [log_facts]:
  "logged m (boot_log level disklogid ''Failed to read disk! (%s)'' [Str cs] m)"
  "logged m (boot_log level disklogid
     ''Failed to init disk! Failed to get drive parameters. %s'' [Str cs] m)"
  by (rule boot_log_logged; simp add: log_format.simps(2))+

lemma log_disk_geometry [log_facts]:
  "logged m (boot_log level disklogid ''Disk geometry: \"C: %i | H: %i | S: %i\"'' [Bits x, Bits y, Bits z] m)"
  by (rule boot_log_logged; simp add: log_format.simps(2) signed_arg_def)

lemma logged_obtain:
  assumes "logged m r"
  obtains c where "r = Inr (m \<lparr> console := c \<rparr>)"
  using assms by (auto simp: logged_def)

lemma bind_logged: "logged m r \<Longrightarrow> \<exists>c. bindE r k = k (m \<lparr> console := c \<rparr>)"
  by (auto simp: logged_def)

section \<open>Sector addresses\<close>

lemma unat_ucast_16: "unat (ucast w :: u16) = unat w mod 65536" for w :: u32
  by (simp add: unsigned_ucast_eq take_bit_eq_mod)

lemma LBA2CHS_values:
  assumes "0 < unat (sectors disk)" and "0 < unat (heads disk)"
  obtains c h s where "DISK_LBA2CHS disk lba = Inr (c, h, s)"
    "unat c = unat lba div unat (sectors disk) div unat (heads disk) mod 65536"
    "unat h = unat lba div unat (sectors disk) mod unat (heads disk)"
    "unat s = (unat lba mod unat (sectors disk) + 1) mod 65536"
proof -
  let ?S = "unat (sectors disk)" and ?H = "unat (heads disk)"
  have bounds: "?S < 65536" "?H < 65536"
    using unsigned_less [of "sectors disk", where ?'a = nat] unsigned_less [of "heads disk", where ?'a = nat]
    by simp_all
  have nonzero: "sectors disk \<noteq> 0" "heads disk \<noteq> 0" using assms by auto
  have "unat lba div ?S mod ?H < 65536" "unat lba mod ?S < 65536"
    using bounds assms by (meson mod_less_divisor order.strict_trans)+
  then show ?thesis
    using that [of "ucast (lba div ucast (sectors disk) div ucast (heads disk))"
        "ucast (lba div ucast (sectors disk) mod ucast (heads disk))"
        "ucast (lba mod ucast (sectors disk) + 1)"] nonzero
    by (simp add: DISK_LBA2CHS_def unat_ucast_16 unat_div unat_mod unat_word_ariths)
qed

text \<open>
  C30: For every geometry with heads and sectors and every logical address on the disk, \<^verbatim>\<open>DISK_LBA2CHS\<close>
  yields a head and a sector (counted from one) within the geometry and a cylinder below the number
  of cylinders, from which the address is recovered: different sectors get different addresses.
\<close>

theorem lba_chs_correct:
  assumes "0 < unat (sectors disk)" and "0 < unat (heads disk)"
    and "unat lba < unat (cylinders disk) * unat (heads disk) * unat (sectors disk)"
    and "unat (sectors disk) < 65535"
  shows "\<exists>c h s. DISK_LBA2CHS disk lba = Inr (c, h, s) \<and>
    unat c < unat (cylinders disk) \<and> unat h < unat (heads disk) \<and>
    1 \<le> unat s \<and> unat s \<le> unat (sectors disk) \<and>
    (unat c * unat (heads disk) + unat h) * unat (sectors disk) + (unat s - 1) = unat lba"
proof -
  let ?S = "unat (sectors disk)" and ?H = "unat (heads disk)" and ?C = "unat (cylinders disk)"
  obtain c h s where chs: "DISK_LBA2CHS disk lba = Inr (c, h, s)"
    "unat c = unat lba div ?S div ?H mod 65536" "unat h = unat lba div ?S mod ?H"
    "unat s = (unat lba mod ?S + 1) mod 65536"
    using LBA2CHS_values [OF assms(1,2)] by blast
  have "?C < 65536" using unsigned_less [of "cylinders disk", where ?'a = nat] by simp
  have "unat lba div ?S div ?H < ?C"
    using assms by (simp add: div_less_iff_less_mult mult_ac)
  then have c: "unat c = unat lba div ?S div ?H" "unat c < ?C"
    using chs(2) \<open>?C < 65536\<close> by simp_all
  have "unat lba mod ?S < ?S" using assms(1) by simp
  then have s: "unat s = unat lba mod ?S + 1" using chs(4) assms(4) by simp
  have "unat c * ?H + unat h = unat lba div ?S"
    unfolding c(1) chs(3) by (rule div_mult_mod_eq)
  then have "(unat c * ?H + unat h) * ?S + (unat s - 1) = unat lba"
    using s by simp
  moreover have "unat h < ?H" unfolding chs(3) using assms(2) by simp
  ultimately show ?thesis
    using chs(1) c(2) s \<open>unat lba mod ?S < ?S\<close> by (intro exI conjI) auto
qed

definition floppy :: DISK where
  "floppy = \<lparr> drive = 0, cylinders = 80, heads = 2, sectors = 18 \<rparr>"

theorem lba_chs_correct_witness:
  "\<exists>c h s. DISK_LBA2CHS floppy 2879 = Inr (c, h, s) \<and>
    unat c < unat (cylinders floppy) \<and> unat h < unat (heads floppy) \<and>
    1 \<le> unat s \<and> unat s \<le> unat (sectors floppy) \<and>
    (unat c * unat (heads floppy) + unat h) * unat (sectors floppy) + (unat s - 1) = unat (2879 :: u32)"
  by (rule lba_chs_correct) (simp_all add: floppy_def)

section \<open>What the BIOS is asked for\<close>

definition request :: "DISK \<Rightarrow> u16 \<times> u16 \<times> u16 \<Rightarrow> u8 \<Rightarrow> u32 \<Rightarrow> read_regs" where
  "request disk chs count dataOut =
     (let (cyl, hds, sec) = chs; (es, bx) = LinearToSegOffset dataOut in
      \<lparr> rAL = count, rCH = ucast cyl,
        rCL = push_bit 6 (ucast (drop_bit 8 cyl)) OR (ucast sec AND 0x3F),
        rDH = ucast hds, rDL = drive disk, rES = es, rBX = bx \<rparr>)"

text \<open>The sector the registers name, by the layout of the service: the cylinder has ten bits.\<close>

definition request_lba :: "DISK \<Rightarrow> read_regs \<Rightarrow> nat" where
  "request_lba disk r =
     ((unat (rCH r) + 256 * (unat (rCL r) div 64)) * unat (heads disk) + unat (rDH r)) * unat (sectors disk)
       + (unat (rCL r) mod 64 - 1)"

definition geometry_ok :: "DISK \<Rightarrow> bool" where
  "geometry_ok disk \<longleftrightarrow>
     unat (cylinders disk) \<le> 1024 \<and>
     1 \<le> unat (heads disk) \<and> unat (heads disk) \<le> 256 \<and>
     1 \<le> unat (sectors disk) \<and> unat (sectors disk) \<le> 63"

definition disk_size :: "DISK \<Rightarrow> nat" where
  "disk_size disk = unat (cylinders disk) * unat (heads disk) * unat (sectors disk)"

lemma request_cl:
  fixes c s :: u16
  assumes "unat c < 1024" and "unat s < 64"
  shows "unat (push_bit 6 (ucast (drop_bit 8 c)) OR (ucast s AND 0x3F) :: u8) =
    unat s + 64 * (unat c div 256)"
proof -
  let ?hi = "ucast (drop_bit 8 c) :: u8" and ?lo = "ucast s AND 0x3F :: u8"
  have mask: "(0x3F :: u8) = mask 6" by (simp add: mask_eq_exp_minus_1)
  have disj: "push_bit 6 ?hi AND ?lo = 0"
    unfolding mask by (rule bit_word_eqI) (auto simp: bit_simps)
  have hi: "unat ?hi = unat c div 256"
    using assms(1)
    by (simp add: unsigned_ucast_eq unat_drop_bit take_bit_eq_mod [where 'a = nat])
  have "unat c div 256 < 4" using assms(1) by simp
  then have shifted: "unat (push_bit 6 ?hi) = 64 * (unat c div 256)"
    unfolding unsigned_push_bit_eq hi by (simp add: push_bit_eq_mult take_bit_eq_mod [where 'a = nat])
  have lo: "unat ?lo = unat s"
    unfolding mask using assms(2)
    by (simp flip: take_bit_eq_mask
        add: unsigned_take_bit_eq unsigned_ucast_eq take_bit_eq_mod [where 'a = nat])
  have "64 * (unat c div 256) + unat s < 256"
    using \<open>unat c div 256 < 4\<close> assms(2) by linarith
  then show ?thesis
    unfolding disjunctive_add_eq_or [OF disj, symmetric] unat_word_ariths shifted lo by simp
qed

lemma request_lba_eq:
  assumes "unat c < 1024" and "unat h < 256" and "1 \<le> unat s" and "unat s < 64"
  shows "request_lba disk (request disk (c, h, s) count dataOut) =
    (unat c * unat (heads disk) + unat h) * unat (sectors disk) + (unat s - 1)"
proof -
  have "unat (ucast c :: u8) + 256 * (unat c div 256) = unat c"
    by (simp add: unsigned_ucast_eq take_bit_eq_mod [where 'a = nat])
  moreover have "unat (ucast h :: u8) = unat h"
    using assms(2) by (simp add: unsigned_ucast_eq take_bit_eq_mod [where 'a = nat])
  ultimately show ?thesis
    using assms by (simp add: request_lba_def request_def LinearToSegOffset_def request_cl)
qed

lemma LBA2CHS_request:
  assumes "geometry_ok disk" and "unat lba < disk_size disk"
  obtains chs where "DISK_LBA2CHS disk lba = Inr chs"
    "\<And>count dataOut. request_lba disk (request disk chs count dataOut) = unat lba"
proof -
  let ?S = "unat (sectors disk)" and ?H = "unat (heads disk)" and ?C = "unat (cylinders disk)"
  have pos: "0 < ?S" "0 < ?H" using assms(1) by (simp_all add: geometry_ok_def)
  obtain c h s where chs: "DISK_LBA2CHS disk lba = Inr (c, h, s)"
    "unat c = unat lba div ?S div ?H mod 65536" "unat h = unat lba div ?S mod ?H"
    "unat s = (unat lba mod ?S + 1) mod 65536"
    using LBA2CHS_values [OF pos] by blast
  have "unat lba div ?S div ?H < ?C"
    using assms(2) pos by (simp add: disk_size_def div_less_iff_less_mult mult_ac)
  moreover have "?C \<le> 1024" "?H \<le> 256" "?S \<le> 63" using assms(1) by (simp_all add: geometry_ok_def)
  moreover have "unat lba mod ?S < ?S" "unat lba div ?S mod ?H < ?H" using pos by simp_all
  ultimately have "unat c < 1024" "unat h < 256" "unat s = unat lba mod ?S + 1" "unat s < 64"
    "unat c = unat lba div ?S div ?H"
    using chs by simp_all
  then have "request_lba disk (request disk (c, h, s) count dataOut) = unat lba" for count dataOut
    using chs(3) by (simp add: request_lba_eq)
  with chs(1) show ?thesis using that by blast
qed

lemma diskRead16_request:
  "diskRead16 bios (drive disk) cyl hds sec count dataOut w =
    (let (ah, stored, w) = int13_read bios (request disk (cyl, hds, sec) count dataOut) w
     in (ucast ah, stored, w))"
  by (simp add: diskRead16_def request_def Let_def split: prod.splits)

lemma seg_linear_below_1M:
  assumes "dataOut < 0x100000"
  shows "seg_linear (LinearToSegOffset dataOut) = dataOut"
proof -
  have "push_bit 4 (ucast (ucast (drop_bit 4 dataOut) :: u16) :: u32) =
      push_bit 4 (drop_bit 4 dataOut)"
  proof -
    have "unat dataOut < 0x100000" using assms by (simp add: word_less_nat_alt)
    then have "unat (drop_bit 4 dataOut) < 65536"
      by (simp add: unat_drop_bit)
    then have "ucast (ucast (drop_bit 4 dataOut) :: u16) = drop_bit 4 dataOut"
      by (simp add: word_unat_eq_iff unsigned_ucast_eq unsigned_take_bit_eq take_bit_nat_eq_self)
    then show ?thesis by simp
  qed
  moreover have "ucast (ucast (dataOut AND 0xF) :: u16) = dataOut AND 0xF"
  proof -
    have mask: "(0xF :: u32) = mask 4" by (simp add: mask_eq_exp_minus_1)
    show ?thesis
      unfolding mask by (rule bit_word_eqI) (auto simp: bit_simps)
  qed
  moreover have "push_bit 4 (drop_bit 4 dataOut) + (dataOut AND 0xF) = dataOut"
  proof -
    have mask: "(0xF :: u32) = mask 4" by (simp add: mask_eq_exp_minus_1)
    show ?thesis
      unfolding mask take_bit_eq_mask [symmetric] by (rule bits_ident)
  qed
  ultimately show ?thesis
    by (simp add: seg_linear_def LinearToSegOffset_def)
qed

section \<open>Reading sectors\<close>

text \<open>
  What the code relies on of the read service: it stores at most the sectors asked for, and with
  status 0 it has stored the contents of exactly those, sector by sector.
\<close>

definition sector_data :: "(nat \<Rightarrow> u8 list) \<Rightarrow> nat \<Rightarrow> nat \<Rightarrow> u8 list" where
  "sector_data img lba n = concat (map img [lba..<lba + n])"

definition reads_disk :: "'w bios \<Rightarrow> DISK \<Rightarrow> (nat \<Rightarrow> u8 list) \<Rightarrow> bool" where
  "reads_disk bios disk img \<longleftrightarrow> (\<forall>n. length (img n) = 512) \<and> (\<forall>r w. rDL r = drive disk \<longrightarrow>
     (case int13_read bios r w of (ah, stored, w') \<Rightarrow>
        length stored \<le> 512 * unat (rAL r) \<and>
        (ah = 0 \<longrightarrow> stored = sector_data img (request_lba disk r) (unat (rAL r)))))"

lemma length_sector_data:
  "(\<And>n. length (img n) = 512) \<Longrightarrow> length (sector_data img lba n) = 512 * n"
  by (simp add: sector_data_def length_concat sum_list_triv comp_def)

lemma reads_diskD:
  assumes "reads_disk bios disk img" and "rDL r = drive disk" and "int13_read bios r w = (ah, stored, w')"
  shows "length stored \<le> 512 * unat (rAL r)"
    and "ah = 0 \<Longrightarrow> stored = sector_data img (request_lba disk r) (unat (rAL r))"
proof -
  have "case int13_read bios r w of (ah, stored, w') \<Rightarrow> length stored \<le> 512 * unat (rAL r) \<and>
      (ah = 0 \<longrightarrow> stored = sector_data img (request_lba disk r) (unat (rAL r)))"
    using assms(1) [unfolded reads_disk_def, THEN conjunct2, rule_format, OF assms(2), of w] .
  then show "length stored \<le> 512 * unat (rAL r)"
    and "ah = 0 \<Longrightarrow> stored = sector_data img (request_lba disk r) (unat (rAL r))"
    unfolding assms(3) by simp_all
qed

lemma DISK_Reset_returns:
  obtains r c w where "DISK_Reset bios disk m = Inr (r, m \<lparr> console := c, world := w \<rparr>)"
proof (cases "with_world (diskReset16 bios (drive disk)) m")
  case (Pair r m')
  then obtain w where m': "m' = m \<lparr> world := w \<rparr>"
    by (auto simp: with_world_def split: prod.splits)
  show ?thesis
  proof (cases "r = 1")
    case True
    obtain c where "boot_log LOG_ERROR disklogid ''Failed to reset disk!'' [] m' = Inr (m' \<lparr> console := c \<rparr>)"
      using log_disk_failures(1) by (rule logged_obtain)
    then show ?thesis using that [of 1 w c] Pair True m' by (simp add: DISK_Reset_def)
  next
    case False
    then show ?thesis using that [of 0 w "console m"] Pair m' by (simp add: DISK_Reset_def)
  qed
qed

lemma store_bytes_prefix:
  assumes "length bs \<le> n" and "n \<le> length obj"
  shows "\<exists>obj'. store_bytes bs obj = Inr obj' \<and> length obj' = length obj \<and> drop n obj' = drop n obj \<and>
    take (length bs) obj' = bs"
  using assms by (simp add: store_bytes_def)

lemma read_attempts_correct:
  fixes m :: "('w, 'e) machine_scheme"
  assumes "reads_disk bios disk img"
    and "request_lba disk (request disk chs count dataOut) = lba"
    and "512 * unat count \<le> length obj" and "left = 0 \<longrightarrow> result \<noteq> 0"
  shows "\<exists>r obj' c w. read_attempts bios disk chs count dataOut left result obj m =
      Inr (r, obj', m \<lparr> console := c, world := w \<rparr>) \<and>
    length obj' = length obj \<and> drop (512 * unat count) obj' = drop (512 * unat count) obj \<and>
    (r = 0 \<longrightarrow> take (512 * unat count) obj' = sector_data img lba (unat count))"
  using assms(3,4)
proof (induction left arbitrary: result obj m)
  case 0
  obtain c where "boot_log LOG_ERROR disklogid ''Exhausted all three attempts.'' [] m = Inr (m \<lparr> console := c \<rparr>)"
    using log_disk_failures(2) by (rule logged_obtain)
  then show ?case using 0 by (intro exI [of _ result] exI [of _ obj] exI [of _ c] exI [of _ "world m"]) simp
next
  case (Suc left)
  obtain cyl hds sec where chs: "chs = (cyl, hds, sec)" by (cases chs)
  let ?r = "request disk chs count dataOut" and ?n = "512 * unat count"
  obtain ah stored w1 where read: "int13_read bios ?r (world m) = (ah, stored, w1)"
    by (cases "int13_read bios ?r (world m)")
  have "rDL ?r = drive disk" "rAL ?r = count"
    by (simp_all add: request_def split: prod.splits)
  then have stored: "length stored \<le> ?n" "ah = 0 \<longrightarrow> stored = sector_data img lba (unat count)"
    using reads_diskD [OF assms(1) _ read] assms(2) by simp_all
  obtain obj1 where obj1: "store_bytes stored obj = Inr obj1" "length obj1 = length obj"
    "drop ?n obj1 = drop ?n obj" "take (length stored) obj1 = stored"
    using store_bytes_prefix [OF stored(1) Suc.prems(1)] by blast
  let ?m1 = "m \<lparr> world := w1 \<rparr>"
  have sectors: "\<And>n. length (img n) = 512" using assms(1) by (simp add: reads_disk_def)
  show ?case
  proof (cases "ah = 0")
    case True
    then have "take ?n obj1 = sector_data img lba (unat count)"
      using obj1(4) stored(2) length_sector_data [OF sectors] by simp
    with True show ?thesis
      using obj1 read chs
      by (intro exI [of _ 0] exI [of _ obj1] exI [of _ "console m"] exI [of _ w1])
        (simp add: with_world_def diskRead16_request)
  next
    case False
    then have status: "(ucast ah :: u16) \<noteq> 0"
      by (simp add: word_unat_eq_iff [of "ucast ah :: u16"] word_unat_eq_iff [of ah])
    obtain c1 where log1: "boot_log LOG_ERROR disklogid ''Failed to read disk! (%s)''
        [Str (bytes_of (getStatus (ucast ah)))] ?m1 = Inr (?m1 \<lparr> console := c1 \<rparr>)"
      using log_disk_status(1) by (rule logged_obtain)
    obtain r2 c2 w2 where reset: "DISK_Reset bios disk (?m1 \<lparr> console := c1 \<rparr>) =
        Inr (r2, ?m1 \<lparr> console := c1 \<rparr> \<lparr> console := c2, world := w2 \<rparr>)"
      by (rule DISK_Reset_returns)
    have step: "read_attempts bios disk chs count dataOut (Suc left) result obj m =
      (if r2 = 1 then Inr (1, obj1, m \<lparr> console := c2, world := w2 \<rparr>)
       else read_attempts bios disk chs count dataOut left (ucast ah) obj1
         (m \<lparr> console := c2, world := w2 \<rparr>))"
      using status read chs obj1(1) log1 reset
      by (simp add: with_world_def diskRead16_request)
    show ?thesis
    proof (cases "r2 = 1")
      case True
      then show ?thesis using step obj1 by auto
    next
      case False
      then show ?thesis
        using Suc.IH [of obj1 "ucast ah" "m \<lparr> console := c2, world := w2 \<rparr>"] step obj1 status Suc.prems
        by auto
    qed
  qed
qed

lemma DISK_ReadSectors_reads:
  assumes "reads_disk bios disk img" and "geometry_ok disk" and "unat lba < disk_size disk"
    and "dataOut < 0x100000" and "512 * unat count \<le> length obj"
  shows "\<exists>r obj' c w. DISK_ReadSectors bios disk lba count dataOut obj m =
      Inr (r, obj', m \<lparr> console := c, world := w \<rparr>) \<and>
    length obj' = length obj \<and> drop (512 * unat count) obj' = drop (512 * unat count) obj \<and>
    (r = 0 \<longrightarrow> take (512 * unat count) obj' = sector_data img (unat lba) (unat count))"
proof -
  obtain chs where "DISK_LBA2CHS disk lba = Inr chs"
    "request_lba disk (request disk chs count dataOut) = unat lba"
    using LBA2CHS_request [OF assms(2,3)] by metis
  then show ?thesis
    using read_attempts_correct [OF assms(1) _ assms(5), of chs dataOut "unat lba" 3 0 m]
      seg_linear_below_1M [OF assms(4)]
    by (simp add: DISK_ReadSectors_def)
qed

text \<open>
  C4: With a BIOS that reads a disk of a geometry it can address, \<^verbatim>\<open>DISK_ReadSectors\<close> for any sector
  of the disk and any number of sectors that fit in the destination never goes wrong, stays within
  the bytes of the sectors asked for, and when it returns 0 those bytes are the contents of the
  sectors from that logical address on, whatever failed attempts had stored before.
\<close>

theorem DISK_ReadSectors_correct:
  assumes "reads_disk bios disk img" and "geometry_ok disk" and "unat lba < disk_size disk"
    and "dataOut < 0x100000" and "512 * unat count \<le> length obj"
  shows "\<exists>r obj' c w. DISK_ReadSectors bios disk lba count dataOut obj m =
      Inr (r, obj', m \<lparr> console := c, world := w \<rparr>) \<and>
    length obj' = length obj \<and> drop (512 * unat count) obj' = drop (512 * unat count) obj \<and>
    (r = 0 \<longrightarrow> take (512 * unat count) obj' = sector_data img (unat lba) (unat count))"
  by (rule DISK_ReadSectors_reads [OF assms])

text \<open>A BIOS for a disk with a given image, whose next \<open>w\<close> reads fail.\<close>

definition flaky_bios :: "DISK \<Rightarrow> (nat \<Rightarrow> u8 list) \<Rightarrow> nat bios" where
  "flaky_bios disk img = \<lparr>
     int13_reset = (\<lambda>dl w. (False, w)),
     int13_read = (\<lambda>r w. if w = 0 then (0, sector_data img (request_lba disk r) (unat (rAL r)), 0)
                        else (4, [], w - 1)),
     int13_params = (\<lambda>dl w. (Some \<lparr> pBL = 4, pCH = 79, pCL = 18, pDH = 1 \<rparr>, w)),
     int15_e820 = (\<lambda>cont w. (\<lparr> eCarry = True, eEAX = 0, eEBX = 0, eECX = 0, eStored = [] \<rparr>, w)),
     cpuid_vendor = (0, 0, 0), cr0_high = 0, reset_return = 0x8123 \<rparr>"

lemma flaky_reads_disk: "(\<And>n. length (img n) = 512) \<Longrightarrow> reads_disk (flaky_bios disk img) disk img"
  by (simp add: reads_disk_def flaky_bios_def length_sector_data)

definition blank_machine :: "'w \<Rightarrow> 'w machine" where
  "blank_machine w = \<lparr> console = blank_console, world = w \<rparr>"

definition test_image :: "nat \<Rightarrow> u8 list" where
  "test_image n = replicate 512 (of_nat n)"

lemma length_test_image: "length (test_image n) = 512"
  by (simp add: test_image_def)

theorem DISK_ReadSectors_correct_witness:
  "\<exists>r obj' c w. DISK_ReadSectors (flaky_bios floppy test_image) floppy 2879 1 0x20000 (replicate 600 0)
      (blank_machine 1) = Inr (r, obj', blank_machine 1 \<lparr> console := c, world := w \<rparr>) \<and>
    length obj' = length (replicate 600 (0 :: u8)) \<and>
    drop (512 * unat (1 :: u8)) obj' = drop (512 * unat (1 :: u8)) (replicate 600 0) \<and>
    (r = 0 \<longrightarrow> take (512 * unat (1 :: u8)) obj' = sector_data test_image (unat (2879 :: u32)) (unat (1 :: u8)))"
  by (rule DISK_ReadSectors_correct [OF flaky_reads_disk])
    (simp_all add: length_test_image geometry_ok_def disk_size_def floppy_def)

text \<open>The state after \<open>n\<close> reads that failed and were followed by a successful reset each.\<close>

fun after_failures :: "'w bios \<Rightarrow> read_regs \<Rightarrow> nat \<Rightarrow> 'w \<Rightarrow> 'w option" where
  "after_failures bios r 0 w = Some w"
| "after_failures bios r (Suc n) w =
     (let (ah, stored, w) = int13_read bios r w;
          (carry, w) = int13_reset bios (ucast (drop_bit 16 (reset_return bios))) w
      in if ah = 0 \<or> carry then None else after_failures bios r n w)"

lemma read_attempts_retry:
  assumes "reads_disk bios disk img" and "512 * unat count \<le> length obj"
    and "int13_read bios (request disk chs count dataOut) (world m) = (ah, stored, w1)" and "ah \<noteq> 0"
    and "int13_reset bios (ucast (drop_bit 16 (reset_return bios))) w1 = (False, w2)"
  obtains obj1 c where "length obj1 = length obj"
    "read_attempts bios disk chs count dataOut (Suc left) result obj m =
       read_attempts bios disk chs count dataOut left (ucast ah) obj1 (m \<lparr> console := c, world := w2 \<rparr>)"
proof -
  obtain cyl hds sec where chs: "chs = (cyl, hds, sec)" by (cases chs)
  have "rDL (request disk chs count dataOut) = drive disk" "rAL (request disk chs count dataOut) = count"
    by (simp_all add: request_def split: prod.splits)
  then have "length stored \<le> 512 * unat count" using reads_diskD(1) [OF assms(1) _ assms(3)] by simp
  then obtain obj1 where obj1: "store_bytes stored obj = Inr obj1" "length obj1 = length obj"
    using store_bytes_prefix assms(2) by blast
  have status: "(ucast ah :: u16) \<noteq> 0"
    using assms(4) by (simp add: word_unat_eq_iff [of "ucast ah :: u16"] word_unat_eq_iff [of ah])
  let ?m1 = "m \<lparr> world := w1 \<rparr>"
  obtain c1 where log1: "boot_log LOG_ERROR disklogid ''Failed to read disk! (%s)''
      [Str (bytes_of (getStatus (ucast ah)))] ?m1 = Inr (?m1 \<lparr> console := c1 \<rparr>)"
    using log_disk_status(1) by (rule logged_obtain)
  have "DISK_Reset bios disk (?m1 \<lparr> console := c1 \<rparr>) = Inr (0, m \<lparr> console := c1, world := w2 \<rparr>)"
    using assms(5) by (simp add: DISK_Reset_def with_world_def diskReset16_def boot_disk_reset_def)
  then have "read_attempts bios disk chs count dataOut (Suc left) result obj m =
      read_attempts bios disk chs count dataOut left (ucast ah) obj1 (m \<lparr> console := c1, world := w2 \<rparr>)"
    using status assms(3) chs obj1(1) log1 by (simp add: with_world_def diskRead16_request)
  with obj1(2) show ?thesis using that by blast
qed

lemma read_attempts_recovers:
  assumes "reads_disk bios disk img" and "512 * unat count \<le> length obj"
    and "after_failures bios (request disk chs count dataOut) n (world m) = Some w" and "n < left"
    and "fst (int13_read bios (request disk chs count dataOut) w) = 0"
  shows "\<exists>obj' m'. read_attempts bios disk chs count dataOut left result obj m = Inr (0, obj', m')"
  using assms(2-4)
proof (induction n arbitrary: left result obj m)
  case 0
  obtain cyl hds sec where chs: "chs = (cyl, hds, sec)" by (cases chs)
  obtain left' where left: "left = Suc left'" using 0 by (cases left) auto
  obtain stored w1 where read: "int13_read bios (request disk chs count dataOut) w = (0, stored, w1)"
    using assms(5) by (metis prod.collapse)
  have "rDL (request disk chs count dataOut) = drive disk" "rAL (request disk chs count dataOut) = count"
    by (simp_all add: request_def split: prod.splits)
  then have "length stored \<le> 512 * unat count" using reads_diskD(1) [OF assms(1) _ read] by simp
  then obtain obj1 where "store_bytes stored obj = Inr obj1"
    using store_bytes_prefix 0(1) by blast
  then show ?case
    using 0 read left chs by (simp add: with_world_def diskRead16_request)
next
  case (Suc n)
  let ?r = "request disk chs count dataOut"
  obtain ah stored w1 where read: "int13_read bios ?r (world m) = (ah, stored, w1)"
    by (cases "int13_read bios ?r (world m)")
  obtain carry w2 where reset: "int13_reset bios (ucast (drop_bit 16 (reset_return bios))) w1 = (carry, w2)"
    by (cases "int13_reset bios (ucast (drop_bit 16 (reset_return bios))) w1")
  have "ah \<noteq> 0" "\<not> carry" and rest: "after_failures bios ?r n w2 = Some w"
    using Suc.prems(2) read reset by (auto split: if_splits)
  moreover obtain left' where left: "left = Suc left'" using Suc.prems(3) by (cases left) auto
  ultimately obtain obj1 c where "length obj1 = length obj"
    "read_attempts bios disk chs count dataOut left result obj m =
       read_attempts bios disk chs count dataOut left' (ucast ah) obj1 (m \<lparr> console := c, world := w2 \<rparr>)"
    using read_attempts_retry [OF assms(1) Suc.prems(1) read] reset by metis
  then show ?case
    using Suc.IH [of obj1 "m \<lparr> console := c, world := w2 \<rparr>" left'] rest Suc.prems left by simp
qed

text \<open>
  C31: \<^verbatim>\<open>DISK_ReadSectors\<close> survives transient errors: when up to two reads fail and the resets after
  them succeed, so that the next read is good, it returns 0.
\<close>

theorem DISK_ReadSectors_recovers:
  assumes "reads_disk bios disk img" and "512 * unat count \<le> length obj" and "dataOut < 0x100000"
    and "DISK_LBA2CHS disk lba = Inr chs" and "n < 3"
    and "after_failures bios (request disk chs count dataOut) n (world m) = Some w"
    and "fst (int13_read bios (request disk chs count dataOut) w) = 0"
  shows "\<exists>obj' m'. DISK_ReadSectors bios disk lba count dataOut obj m = Inr (0, obj', m')"
  using read_attempts_recovers [OF assms(1,2,6,5,7)] seg_linear_below_1M [OF assms(3)] assms(4)
  by (simp add: DISK_ReadSectors_def)

lemma flaky_after_failures: "after_failures (flaky_bios disk img) r n n = Some 0"
  by (induction n) (simp_all add: flaky_bios_def)

lemma flaky_read: "fst (int13_read (flaky_bios disk img) r 0) = 0"
  by (simp add: flaky_bios_def)

theorem DISK_ReadSectors_recovers_witness:
  "\<exists>obj' m'. DISK_ReadSectors (flaky_bios floppy test_image) floppy 2879 1 0x20000 (replicate 600 0)
     (blank_machine 2) = Inr (0, obj', m')"
  by (rule DISK_ReadSectors_recovers [OF flaky_reads_disk, where n = 2 and w = 0 and chs = "(79, 1, 18)"])
    (simp_all only: flaky_read flaky_after_failures blank_machine_def machine.simps,
      simp_all add: length_test_image DISK_LBA2CHS_def floppy_def)

text \<open>
  A geometry without sectors or heads (the BIOS may report zero sectors) makes every read divide
  by zero, whatever the address.
\<close>

theorem DISK_ReadSectors_divide_error:
  assumes "sectors disk = 0 \<or> heads disk = 0"
  shows "DISK_ReadSectors bios disk lba count dataOut obj m = Inl DivideError"
  using assms by (simp add: DISK_ReadSectors_def DISK_LBA2CHS_def)

theorem DISK_ReadSectors_divide_error_witness:
  "DISK_ReadSectors (flaky_bios floppy test_image) (floppy \<lparr> sectors := 0 \<rparr>) 0 1 0x20000 [] (blank_machine 0)
     = Inl DivideError"
  by (rule DISK_ReadSectors_divide_error) simp

section \<open>A disk without errors\<close>

definition reads_ok :: "'w bios \<Rightarrow> DISK \<Rightarrow> (nat \<Rightarrow> u8 list) \<Rightarrow> bool" where
  "reads_ok bios disk img \<longleftrightarrow> reads_disk bios disk img \<and> geometry_ok disk \<and>
     (\<forall>r w. fst (int13_read bios r w) = 0)"

lemma DISK_ReadSectors_ok:
  assumes "reads_ok bios disk img" and "unat lba < disk_size disk"
    and "dataOut < 0x100000" and "512 * unat count \<le> length obj"
  shows "\<exists>c w. DISK_ReadSectors bios disk lba count dataOut obj m =
    Inr (0, sector_data img (unat lba) (unat count) @ drop (512 * unat count) obj, m \<lparr> console := c, world := w \<rparr>)"
proof -
  have bios: "reads_disk bios disk img" "geometry_ok disk" "\<And>r w. fst (int13_read bios r w) = 0"
    using assms(1) by (simp_all add: reads_ok_def)
  obtain r obj' c w where read: "DISK_ReadSectors bios disk lba count dataOut obj m =
      Inr (r, obj', m \<lparr> console := c, world := w \<rparr>)"
    "drop (512 * unat count) obj' = drop (512 * unat count) obj"
    "r = 0 \<Longrightarrow> take (512 * unat count) obj' = sector_data img (unat lba) (unat count)"
    using DISK_ReadSectors_reads [OF bios(1,2) assms(2-4), of m] by blast
  obtain chs where chs: "DISK_LBA2CHS disk lba = Inr chs"
    using LBA2CHS_request [OF bios(2) assms(2)] by metis
  have "\<exists>obj' m'. DISK_ReadSectors bios disk lba count dataOut obj m = Inr (0, obj', m')"
    using read_attempts_recovers [OF bios(1) assms(4), of chs dataOut 0 m "world m" 3 0] bios(3)
      seg_linear_below_1M [OF assms(3)] chs
    by (simp add: DISK_ReadSectors_def)
  then have "r = 0" using read(1) by auto
  then show ?thesis
    using read append_take_drop_id [of "512 * unat count" obj'] by auto
qed

definition rom_bios :: "DISK \<Rightarrow> (nat \<Rightarrow> u8 list) \<Rightarrow> nat bios" where
  "rom_bios disk img = flaky_bios disk img
     \<lparr> int13_read := (\<lambda>r w. (0, sector_data img (request_lba disk r) (unat (rAL r)), w)) \<rparr>"

lemma rom_reads_ok:
  "(\<And>n. length (img n) = 512) \<Longrightarrow> geometry_ok disk \<Longrightarrow> reads_ok (rom_bios disk img) disk img"
  by (simp add: reads_ok_def reads_disk_def rom_bios_def length_sector_data)

section \<open>Initialising and resetting\<close>

lemma unat_cylinders: "unat (le16 a (drop_bit 6 b) + 1) = unat a + 256 * (unat b div 64) + 1"
  and cylinders_bound: "unat a + 256 * (unat b div 64) + 1 \<le> 1024" for a b :: u8
proof -
  have "unat a < 256" "unat b < 256"
    using unsigned_less [of a, where ?'a = nat] unsigned_less [of b, where ?'a = nat] by simp_all
  then have "unat a \<le> 255" "unat b div 64 \<le> 3" by simp_all
  then show bound: "unat a + 256 * (unat b div 64) + 1 \<le> 1024"
    by linarith
  then show "unat (le16 a (drop_bit 6 b) + 1) = unat a + 256 * (unat b div 64) + 1"
    by (simp add: unat_word_ariths unat_le16 unat_drop_bit)
qed

text \<open>
  When the BIOS knows the drive, \<^verbatim>\<open>DISK_Init\<close> returns 0 and stores the geometry that the
  registers encode (ten bits of highest cylinder, highest head, six bits of sectors per track), which
  the driver can address whenever there is a sector; otherwise it returns 1 and leaves \<^verbatim>\<open>disk\<close> alone.
\<close>

theorem DISK_Init_geometry:
  "case int13_params bios dn (world m) of
     (Some r, w) \<Rightarrow> \<exists>d c. DISK_Init bios disk dn m = Inr (0, d, m \<lparr> console := c, world := w \<rparr>) \<and>
       drive d = dn \<and> unat (cylinders d) = unat (pCH r) + 256 * (unat (pCL r) div 64) + 1 \<and>
       unat (heads d) = unat (pDH r) + 1 \<and> unat (sectors d) = unat (pCL r) mod 64 \<and>
       (geometry_ok d \<or> unat (pCL r) mod 64 = 0)
   | (None, w) \<Rightarrow> \<exists>c. DISK_Init bios disk dn m = Inr (1, disk, m \<lparr> console := c, world := w \<rparr>)"
proof (cases "int13_params bios dn (world m)")
  case (Pair p w)
  let ?m = "m \<lparr> world := w \<rparr>"
  show ?thesis
  proof (cases p)
    case None
    obtain c where "boot_log LOG_CRITICAL disklogid ''Failed to init disk! Failed to get drive parameters. %s''
        [Str (bytes_of (getStatus 1))] ?m = Inr (?m \<lparr> console := c \<rparr>)"
      using log_disk_status(2) by (rule logged_obtain)
    then have "DISK_Init bios disk dn m = Inr (1, disk, m \<lparr> console := c, world := w \<rparr>)"
      using Pair None by (simp add: DISK_Init_def with_world_def diskGetDriveParams16_def)
    then show ?thesis using Pair None by auto
  next
    case (Some r)
    let ?C = "le16 (pCH r) (drop_bit 6 (pCL r)) + 1" and ?H = "ucast (pDH r) + 1 :: u16"
      and ?S = "ucast (pCL r AND 0x3F) :: u16"
    let ?d = "\<lparr> drive = dn, cylinders = ?C, heads = ?H, sectors = ?S \<rparr>"
    obtain c where log: "boot_log LOG_NORMAL disklogid ''Disk geometry: \"C: %i | H: %i | S: %i\"''
        [Bits (ucast ?C), Bits (ucast ?H), Bits (ucast ?S)] ?m = Inr (?m \<lparr> console := c \<rparr>)"
      using log_disk_geometry by (rule logged_obtain)
    have "unat (pDH r) < 256" using unsigned_less [of "pDH r", where ?'a = nat] by simp
    then have heads: "unat ?H = unat (pDH r) + 1"
      by (simp add: unat_word_ariths)
    have mask: "(0x3F :: u8) = mask 6" by (simp add: mask_eq_exp_minus_1)
    have sectors: "unat ?S = unat (pCL r) mod 64"
      unfolding mask take_bit_eq_mask [symmetric]
      by (simp add: unsigned_take_bit_eq take_bit_eq_mod [where 'a = nat])
    have "geometry_ok ?d \<or> unat (pCL r) mod 64 = 0"
      using cylinders_bound [of "pCH r" "pCL r"] heads \<open>unat (pDH r) < 256\<close>
      by (auto simp: geometry_ok_def unat_cylinders sectors simp del: unat_ucast_fits)
    then have "\<exists>d c. DISK_Init bios disk dn m = Inr (0, d, m \<lparr> console := c, world := w \<rparr>) \<and>
       drive d = dn \<and> unat (cylinders d) = unat (pCH r) + 256 * (unat (pCL r) div 64) + 1 \<and>
       unat (heads d) = unat (pDH r) + 1 \<and> unat (sectors d) = unat (pCL r) mod 64 \<and>
       (geometry_ok d \<or> unat (pCL r) mod 64 = 0)"
      using Pair Some log heads sectors
      by (intro exI [of _ ?d] exI [of _ c])
        (simp add: DISK_Init_def with_world_def diskGetDriveParams16_def unat_cylinders)
    then show ?thesis using Pair Some by simp
  qed
qed

text \<open>
  \<^verbatim>\<open>DISK_Reset\<close> does not reset the disk it is called for: the stub takes a byte of its return
  address for the drive number, which is 0, the first floppy drive, for code below 64 KiB.
\<close>

theorem DISK_Reset_wrong_drive:
  assumes "reset_return bios < 0x10000"
  shows "DISK_Reset bios disk m =
    (let (carry, w) = int13_reset bios 0 (world m) in
     if carry then bindE (boot_log LOG_ERROR disklogid ''Failed to reset disk!'' [] (m \<lparr> world := w \<rparr>))
                     (\<lambda>m. Inr (1, m))
     else Inr (0, m \<lparr> world := w \<rparr>))"
proof -
  have "unat (reset_return bios) < 65536" using assms by (simp add: word_less_nat_alt)
  then have "unat (drop_bit 16 (reset_return bios)) = 0" by (simp add: unat_drop_bit)
  then have "drop_bit 16 (reset_return bios) = 0" by (simp only: unat_eq_0)
  then show ?thesis
    by (simp add: DISK_Reset_def with_world_def diskReset16_def boot_disk_reset_def split: prod.splits)
qed

theorem DISK_Reset_wrong_drive_witness:
  "DISK_Reset (flaky_bios floppy test_image) (floppy \<lparr> drive := 0x80 \<rparr>) (blank_machine 3) =
    Inr (0, blank_machine 3)"
  using DISK_Reset_wrong_drive [of "flaky_bios floppy test_image" "floppy \<lparr> drive := 0x80 \<rparr>" "blank_machine 3"]
  by (simp add: flaky_bios_def blank_machine_def)

end
