(* ===== verification/Fat12.thy ===== *)
theory Fat12
  imports Disk
begin

text \<open>
  The FAT12 file system of the boot loader: \<^verbatim>\<open>libs/fat.h\<close> and \<^verbatim>\<open>libs/fat.c\<close>, with the addresses of
  \<^verbatim>\<open>libs/memdefs.h\<close>.
\<close>

section \<open>Data\<close>

definition MEMORY_FAT_ADDR :: u32 where "MEMORY_FAT_ADDR = 0x20000"
definition MEMORY_FAT_SIZE :: u32 where "MEMORY_FAT_SIZE = 0x10000"
definition SECTOR_SIZE :: u32 where "SECTOR_SIZE = 512"
definition MAX_PATH_SIZE :: nat where "MAX_PATH_SIZE = 256"
definition MAX_FILE_HANDLES :: nat where "MAX_FILE_HANDLES = 10"
definition ROOT_DIRECTORY_HANDLE :: i32 where "ROOT_DIRECTORY_HANDLE = -1"

text \<open>A directory entry and its 32 bytes on the disk.\<close>

record FAT_DirectoryEntry =
  Name :: "u8 list"
  Attributes :: u8
  Reserved :: u8
  CreatedTimeTenths :: u8
  CreatedTime :: u16
  CreatedDate :: u16
  AccessedDate :: u16
  FirstClusterHigh :: u16
  ModifiedTime :: u16
  ModifiedDate :: u16
  FirstClusterLow :: u16
  EntrySize :: u32

definition sizeof_DirectoryEntry :: u32 where "sizeof_DirectoryEntry = 32"

definition le16_at :: "u8 list \<Rightarrow> nat \<Rightarrow> u16" where
  "le16_at bs i = le16 (bs ! i) (bs ! (i + 1))"

definition directory_entry :: "u8 list \<Rightarrow> FAT_DirectoryEntry" where
  "directory_entry bs = \<lparr>
     Name = take 11 bs, Attributes = bs ! 11, Reserved = bs ! 12, CreatedTimeTenths = bs ! 13,
     CreatedTime = le16_at bs 14, CreatedDate = le16_at bs 16, AccessedDate = le16_at bs 18,
     FirstClusterHigh = le16_at bs 20, ModifiedTime = le16_at bs 22, ModifiedDate = le16_at bs 24,
     FirstClusterLow = le16_at bs 26, EntrySize = le32 (bs ! 28) (bs ! 29) (bs ! 30) (bs ! 31) \<rparr>"

definition FAT_ATTRIBUTE_DIRECTORY :: u8 where "FAT_ATTRIBUTE_DIRECTORY = 0x10"

record FAT_File =
  Handle :: i32
  IsDirectory :: bool
  Position :: u32
  Size :: u32

record FAT_FileData =
  Buffer :: "u8 list"
  Public :: FAT_File
  Opened :: bool
  FirstCluster :: u32
  CurrentCluster :: u32
  CurrentSectorInCluster :: u32

text \<open>
  The structure \<^verbatim>\<open>FAT_Data\<close> at \<^verbatim>\<open>MEMORY_FAT_ADDR\<close> and the static variables: the boot sector as its
  512 bytes, the root directory, the ten handles; \<open>fat\<close> holds the bytes from \<^verbatim>\<open>fat\<close> to the end of the
  memory set aside.
\<close>

record 'w fat_machine = "'w machine" +
  BootSectorBytes :: "u8 list"
  RootDirectory :: FAT_FileData
  OpenedFiles :: "FAT_FileData list"
  fat :: "u8 list"
  dataSectionLba :: u32

definition sizeof_FileData :: nat where "sizeof_FileData = 512 + 16 + 16"
definition sizeof_FAT_Data :: u32 where "sizeof_FAT_Data = of_nat (512 + 11 * sizeof_FileData)"

text \<open>The fields of the boot sector the code uses.\<close>

definition BytesPerSector :: "('w, 'e) fat_machine_scheme \<Rightarrow> u16" where
  "BytesPerSector m = le16_at (BootSectorBytes m) 11"

definition SectorsPerCluster :: "('w, 'e) fat_machine_scheme \<Rightarrow> u8" where
  "SectorsPerCluster m = BootSectorBytes m ! 13"

definition ReservedSectors :: "('w, 'e) fat_machine_scheme \<Rightarrow> u16" where
  "ReservedSectors m = le16_at (BootSectorBytes m) 14"

definition FatCount :: "('w, 'e) fat_machine_scheme \<Rightarrow> u8" where
  "FatCount m = BootSectorBytes m ! 16"

definition DirEntryCount :: "('w, 'e) fat_machine_scheme \<Rightarrow> u16" where
  "DirEntryCount m = le16_at (BootSectorBytes m) 17"

definition SectorsPerFat :: "('w, 'e) fat_machine_scheme \<Rightarrow> u16" where
  "SectorsPerFat m = le16_at (BootSectorBytes m) 22"

definition Signature :: "('w, 'e) fat_machine_scheme \<Rightarrow> u8" where
  "Signature m = BootSectorBytes m ! 38"

definition fatlogid :: "u8 list" where
  "fatlogid = bytes_of ''filesys'' @ [0]"

text \<open>
  The pointers to a \<^verbatim>\<open>FAT_File\<close> that occur: \<^verbatim>\<open>NULL\<close>, the root directory's and those of the handles.
\<close>

datatype file_ptr = NullFile | RootFile | SlotFile nat

fun file_data :: "file_ptr \<Rightarrow> ('w, 'e) fat_machine_scheme \<Rightarrow> FAT_FileData res" where
  "file_data NullFile m = Inl NullPointer"
| "file_data RootFile m = Inr (RootDirectory m)"
| "file_data (SlotFile i) m = (if i < length (OpenedFiles m) then Inr (OpenedFiles m ! i) else Inl OutOfBounds)"

fun set_file_data ::
  "file_ptr \<Rightarrow> FAT_FileData \<Rightarrow> ('w, 'e) fat_machine_scheme \<Rightarrow> ('w, 'e) fat_machine_scheme" where
  "set_file_data NullFile fd m = m"
| "set_file_data RootFile fd m = m \<lparr> RootDirectory := fd \<rparr>"
| "set_file_data (SlotFile i) fd m = m \<lparr> OpenedFiles := (OpenedFiles m)[i := fd] \<rparr>"

fun buffer_address :: "file_ptr \<Rightarrow> u32" where
  "buffer_address NullFile = 0"
| "buffer_address RootFile = MEMORY_FAT_ADDR + 512"
| "buffer_address (SlotFile i) = MEMORY_FAT_ADDR + of_nat (512 + (i + 1) * sizeof_FileData)"

section \<open>Initialising\<close>

definition fail_with ::
  "string \<Rightarrow> va_list \<Rightarrow> ('w, 'e) fat_machine_scheme \<Rightarrow> (u16 \<times> ('w, 'e) fat_machine_scheme) res" where
  "fail_with fmt args m = bindE (boot_log LOG_ERROR fatlogid fmt args m) (\<lambda>m. Inr (1, m))"

text \<open>The last part of \<^verbatim>\<open>FAT_Initialize\<close>: from reading the root directory on.\<close>

definition open_root ::
  "'w bios \<Rightarrow> DISK \<Rightarrow> ('w, 'e) fat_machine_scheme \<Rightarrow> (u16 \<times> ('w, 'e) fat_machine_scheme) res" where
  "open_root bios disk m =
     (let rootDirLba = ucast (ReservedSectors m) + ucast (SectorsPerFat m) * ucast (FatCount m);
          rootDirSize = sizeof_DirectoryEntry * ucast (DirEntryCount m);
          root = RootDirectory m \<lparr>
            Public := \<lparr> Handle = ROOT_DIRECTORY_HANDLE, IsDirectory = True, Position = 0,
                        Size = sizeof_DirectoryEntry * ucast (DirEntryCount m) \<rparr>,
            Opened := True, FirstCluster := rootDirLba, CurrentCluster := rootDirLba,
            CurrentSectorInCluster := 0 \<rparr>;
          m = m \<lparr> RootDirectory := root \<rparr>
      in bindE (DISK_ReadSectors bios disk rootDirLba 1 (buffer_address RootFile) (Buffer root) m)
        (\<lambda>(result, bytes, m).
          let m = m \<lparr> RootDirectory := RootDirectory m \<lparr> Buffer := bytes \<rparr> \<rparr> in
          if result \<noteq> 0 then fail_with ''Failed to read root!'' [] m
          else if BytesPerSector m = 0 then Inl DivideError
          else let rootDirSectors = (rootDirSize + ucast (BytesPerSector m) - 1) div ucast (BytesPerSector m)
               in Inr (0, m \<lparr> dataSectionLba := rootDirLba + rootDirSectors,
                              OpenedFiles := map (\<lambda>fd. fd \<lparr> Opened := False \<rparr>) (OpenedFiles m) \<rparr>)))"

definition FAT_Initialize ::
  "'w bios \<Rightarrow> DISK \<Rightarrow> ('w, 'e) fat_machine_scheme \<Rightarrow> (u16 \<times> ('w, 'e) fat_machine_scheme) res" where
  "FAT_Initialize bios disk m =
     bindE (DISK_ReadSectors bios disk 0 1 MEMORY_FAT_ADDR (BootSectorBytes m) m) (\<lambda>(result, bytes, m).
       let m = m \<lparr> BootSectorBytes := bytes \<rparr> in
       if result \<noteq> 0 then fail_with ''Failed to read bootsector!'' [] m
       else if Signature m \<noteq> 0x29 then fail_with ''Bad bootsector signature!'' [] m
       else let fatSize = ucast (BytesPerSector m) * ucast (SectorsPerFat m) in
         if MEMORY_FAT_SIZE \<le> sizeof_FAT_Data + fatSize then
           fail_with ''Not enough memory to read FAT! (Required %u but only have %u)''
             [Bits (ucast (sizeof_FAT_Data + fatSize)), Bits (ucast MEMORY_FAT_SIZE)] m
         else bindE (DISK_ReadSectors bios disk (ucast (ReservedSectors m)) (ucast (SectorsPerFat m))
             (MEMORY_FAT_ADDR + sizeof_FAT_Data) (fat m) m) (\<lambda>(result, bytes, m).
           let m = m \<lparr> fat := bytes \<rparr> in
           if result \<noteq> 0 then fail_with ''Failed to read FAT!'' [] m
           else open_root bios disk m))"

definition FAT_ClusterToLba :: "('w, 'e) fat_machine_scheme \<Rightarrow> u32 \<Rightarrow> u32" where
  "FAT_ClusterToLba m cluster = dataSectionLba m + (cluster - 2) * ucast (SectorsPerCluster m)"

section \<open>Opening a directory entry\<close>

fun free_handle :: "FAT_FileData list \<Rightarrow> nat \<Rightarrow> nat option" where
  "free_handle [] i = None"
| "free_handle (fd # fds) i = (if \<not> Opened fd then Some i else free_handle fds (i + 1))"

fun print_name :: "u8 list \<Rightarrow> console \<Rightarrow> console res" where
  "print_name [] s = Inr s"
| "print_name (c # cs) s = bindE (printf Boot32 (bytes_of ''%c'') [Bits (ucast c)] s) (print_name cs)"

definition FAT_OpenEntry ::
  "'w bios \<Rightarrow> DISK \<Rightarrow> FAT_DirectoryEntry \<Rightarrow> ('w, 'e) fat_machine_scheme
    \<Rightarrow> (file_ptr \<times> ('w, 'e) fat_machine_scheme) res" where
  "FAT_OpenEntry bios disk entry m =
     (case free_handle (OpenedFiles m) 0 of
       None \<Rightarrow> bindE (boot_log LOG_ERROR fatlogid ''No more file handles!'' [] m) (\<lambda>m. Inr (NullFile, m))
     | Some handle \<Rightarrow>
         let cluster = ucast (FirstClusterLow entry) + push_bit 16 (ucast (FirstClusterHigh entry));
             fd = (OpenedFiles m ! handle) \<lparr>
               Public := \<lparr> Handle = of_nat handle,
                           IsDirectory = (Attributes entry AND FAT_ATTRIBUTE_DIRECTORY \<noteq> 0),
                           Position = 0, Size = EntrySize entry \<rparr>,
               FirstCluster := cluster, CurrentCluster := cluster, CurrentSectorInCluster := 0 \<rparr>;
             m = set_file_data (SlotFile handle) fd m
         in bindE (DISK_ReadSectors bios disk (FAT_ClusterToLba m cluster) 1
               (buffer_address (SlotFile handle)) (Buffer fd) m) (\<lambda>(result, bytes, m).
             let m = set_file_data (SlotFile handle) (fd \<lparr> Buffer := bytes \<rparr>) m in
             if result \<noteq> 0 then
               bindE (boot_log LOG_ERROR fatlogid ''Open entry failed. Cluster=%u LBA=%u''
                   [Bits (ucast cluster), Bits (ucast (FAT_ClusterToLba m cluster))] m) (\<lambda>m.
                 bindE (print_name (Name entry) (console m)) (\<lambda>c.
                   Inr (NullFile, m \<lparr> console := putc Boot32 (ch CHR ''\<newline>'') c \<rparr>)))
             else Inr (SlotFile handle,
                       set_file_data (SlotFile handle) (fd \<lparr> Buffer := bytes, Opened := True \<rparr>) m)))"

section \<open>Reading a file\<close>

text \<open>\<^verbatim>\<open>fat + fatIndex\<close> read as 16 bits.\<close>

definition FAT_NextCluster :: "('w, 'e) fat_machine_scheme \<Rightarrow> u32 \<Rightarrow> u32 res" where
  "FAT_NextCluster m currentCluster =
     (let fatIndex = unat (currentCluster * 3 div 2) in
      if length (fat m) \<le> fatIndex + 1 then Inl OutOfBounds
      else if currentCluster mod 2 = 0 then Inr (ucast (le16_at (fat m) fatIndex AND 0x0FFF))
      else Inr (ucast (drop_bit 4 (le16_at (fat m) fatIndex))))"

text \<open>Reading one sector into the buffer of a file.\<close>

definition read_buffer ::
  "'w bios \<Rightarrow> DISK \<Rightarrow> file_ptr \<Rightarrow> u32 \<Rightarrow> ('w, 'e) fat_machine_scheme
    \<Rightarrow> (u16 \<times> ('w, 'e) fat_machine_scheme) res" where
  "read_buffer bios disk loc lba m =
     bindE (file_data loc m) (\<lambda>fd.
       bindE (DISK_ReadSectors bios disk lba 1 (buffer_address loc) (Buffer fd) m) (\<lambda>(result, bytes, m).
         Inr (result, set_file_data loc (fd \<lparr> Buffer := bytes \<rparr>) m)))"

text \<open>
  What \<^verbatim>\<open>FAT_Read\<close> does at the end of a sector.  The result tells whether the loop goes on, and has
  the new value of \<^verbatim>\<open>maxSector\<close>.
\<close>

definition next_sector_root ::
  "'w bios \<Rightarrow> DISK \<Rightarrow> file_ptr \<Rightarrow> u32 \<Rightarrow> ('w, 'e) fat_machine_scheme
    \<Rightarrow> (bool \<times> u32 \<times> ('w, 'e) fat_machine_scheme) res" where
  "next_sector_root bios disk loc maxSector m =
     bindE (file_data loc m) (\<lambda>fd.
       let fd = fd \<lparr> CurrentCluster := CurrentCluster fd + 1 \<rparr>;
           m = set_file_data loc fd m
       in bindE (read_buffer bios disk loc (CurrentCluster fd) m) (\<lambda>(result, m).
         if result \<noteq> 0 then
           bindE (boot_log LOG_ERROR fatlogid ''Read error on take!'' [] m) (\<lambda>m. Inr (False, maxSector, m))
         else Inr (True, maxSector, m)))"

definition loading_bar :: "u32 \<Rightarrow> u32 \<Rightarrow> ('w, 'e) machine_scheme \<Rightarrow> ('w, 'e) machine_scheme res" where
  "loading_bar maxSector byteCount m =
     (if maxSector = 0 then Inl DivideError
      else let tval = 79 * (maxSector - byteCount div SECTOR_SIZE) div maxSector
           in Inr (m \<lparr> console := putchr Boot32 tval 24 0xDB (console m) \<rparr>))"

text \<open>The next sector of the cluster or the first of the next cluster.\<close>

definition step_cluster ::
  "('w, 'e) fat_machine_scheme \<Rightarrow> FAT_FileData \<Rightarrow> FAT_FileData res" where
  "step_cluster m fd =
     (let fd = fd \<lparr> CurrentSectorInCluster := CurrentSectorInCluster fd + 1 \<rparr> in
      if ucast (SectorsPerCluster m) \<le> CurrentSectorInCluster fd then
        bindE (FAT_NextCluster m (CurrentCluster fd)) (\<lambda>c.
          Inr (fd \<lparr> CurrentSectorInCluster := 0, CurrentCluster := c \<rparr>))
      else Inr fd)"

definition next_sector_file ::
  "'w bios \<Rightarrow> DISK \<Rightarrow> file_ptr \<Rightarrow> u32 \<Rightarrow> u32 \<Rightarrow> ('w, 'e) fat_machine_scheme
    \<Rightarrow> (bool \<times> u32 \<times> ('w, 'e) fat_machine_scheme) res" where
  "next_sector_file bios disk loc byteCount maxSector m =
     bindE (bindE (file_data loc m) (step_cluster m)) (\<lambda>fd.
       if 0xFF8 \<le> CurrentCluster fd then
         Inr (False, maxSector,
              set_file_data loc (fd \<lparr> Public := Public fd \<lparr> Size := Position (Public fd) \<rparr> \<rparr>) m)
       else
         let m = set_file_data loc fd m;
             maxSector = (if maxSector = 0 then byteCount div SECTOR_SIZE else maxSector)
         in bindE (read_buffer bios disk loc
               (FAT_ClusterToLba m (CurrentCluster fd) + CurrentSectorInCluster fd) m) (\<lambda>(result, m).
             if result \<noteq> 0 then
               bindE (boot_log LOG_ERROR fatlogid ''Read error!'' [] m) (\<lambda>m. Inr (False, maxSector, m))
             else bindE (loading_bar maxSector byteCount m) (\<lambda>m. Inr (True, maxSector, m))))"

definition next_sector ::
  "'w bios \<Rightarrow> DISK \<Rightarrow> file_ptr \<Rightarrow> u32 \<Rightarrow> u32 \<Rightarrow> ('w, 'e) fat_machine_scheme
    \<Rightarrow> (bool \<times> u32 \<times> ('w, 'e) fat_machine_scheme) res" where
  "next_sector bios disk loc byteCount maxSector m =
     bindE (file_data loc m) (\<lambda>fd.
       if Handle (Public fd) = ROOT_DIRECTORY_HANDLE then next_sector_root bios disk loc maxSector m
       else next_sector_file bios disk loc byteCount maxSector m)"

text \<open>
  One round of the loop up to the end of the sector: how many bytes are left to read, whether the
  sector is used up, and the bytes taken from the buffer.
\<close>

definition take_bytes ::
  "file_ptr \<Rightarrow> u32 \<Rightarrow> ('w, 'e) fat_machine_scheme
    \<Rightarrow> (u32 \<times> bool \<times> u8 list \<times> ('w, 'e) fat_machine_scheme) res" where
  "take_bytes loc byteCount m =
     bindE (file_data loc m) (\<lambda>fd.
       let position = Position (Public fd);
           leftInBuffer = SECTOR_SIZE - position mod SECTOR_SIZE;
           taken = min_int byteCount leftInBuffer
       in if leftInBuffer < taken then Inl OutOfBounds
       else let bytes = take (unat taken) (drop (unat (position mod SECTOR_SIZE)) (Buffer fd));
                fd = fd \<lparr> Public := Public fd \<lparr> Position := position + taken \<rparr> \<rparr>
            in Inr (byteCount - taken, leftInBuffer = taken, bytes, set_file_data loc fd m))"

lemma take_bytes_progress:
  assumes "take_bytes loc byteCount m = Inr (byteCount', full, bytes, m')" and "0 < byteCount"
  shows "byteCount' < byteCount"
proof -
  obtain fd where fd: "file_data loc m = Inr fd"
    using assms(1) by (cases "file_data loc m") (auto simp: take_bytes_def)
  let ?left = "SECTOR_SIZE - Position (Public fd) mod SECTOR_SIZE" and ?take = "min_int byteCount
    (SECTOR_SIZE - Position (Public fd) mod SECTOR_SIZE)"
  have "Position (Public fd) mod SECTOR_SIZE < SECTOR_SIZE"
    by (simp add: SECTOR_SIZE_def word_less_nat_alt unat_mod)
  then have left: "0 < unat ?left" "unat ?left \<le> 512"
    by (simp_all add: SECTOR_SIZE_def word_less_nat_alt unat_sub_if_size word_size)
  have taken: "\<not> ?left < ?take" "byteCount' = byteCount - ?take"
    using assms(1) fd by (auto simp: take_bytes_def Let_def split: if_splits)
  have "?take = byteCount \<or> ?take = ?left" by (simp add: min_int_def)
  then have "0 < ?take" using assms(2) left by (auto simp: word_less_nat_alt)
  moreover have "?take \<le> byteCount"
  proof (cases "?take = byteCount")
    case False
    then have "?take = ?left" "\<not> byteCount <s ?left" by (auto simp: min_int_def split: if_splits)
    then have "sint ?left \<le> sint byteCount" by (simp add: word_sless_alt)
    then show ?thesis
      using left \<open>?take = ?left\<close> sint_eq_unat [of ?left] sint_eq_unat [of byteCount]
      by (auto simp: word_le_def split: if_splits)
  qed simp
  ultimately show ?thesis
    unfolding taken(2) by (simp add: word_less_nat_alt word_le_nat_alt unat_sub)
qed

function read_loop ::
  "'w bios \<Rightarrow> DISK \<Rightarrow> file_ptr \<Rightarrow> u32 \<Rightarrow> u32 \<Rightarrow> u8 list \<Rightarrow> ('w, 'e) fat_machine_scheme
    \<Rightarrow> (u8 list \<times> ('w, 'e) fat_machine_scheme) res" where
  "read_loop bios disk loc byteCount maxSector out m =
     (if byteCount > 0 then
        bindE (take_bytes loc byteCount m) (\<lambda>(byteCount, full, bytes, m).
          if full then
            bindE (next_sector bios disk loc byteCount maxSector m) (\<lambda>(continue, maxSector, m).
              if continue then read_loop bios disk loc byteCount maxSector (out @ bytes) m
              else Inr (out @ bytes, m))
          else read_loop bios disk loc byteCount maxSector (out @ bytes) m)
      else Inr (out, m))"
  by pat_completeness auto
termination
  by (relation "measure (\<lambda>(bios, disk, loc, byteCount, maxSector, out, m). unat byteCount)")
    (auto dest!: take_bytes_progress simp: word_less_nat_alt)

declare read_loop.simps [simp del]

text \<open>
  \<^verbatim>\<open>FAT_Read\<close> yields the bytes it stores at \<^verbatim>\<open>dataOut\<close>; the number it returns is their length.
\<close>

definition FAT_Read ::
  "'w bios \<Rightarrow> DISK \<Rightarrow> file_ptr \<Rightarrow> u32 \<Rightarrow> ('w, 'e) fat_machine_scheme
    \<Rightarrow> (u8 list \<times> ('w, 'e) fat_machine_scheme) res" where
  "FAT_Read bios disk file byteCount m =
     bindE (file_data file m) (\<lambda>f.
       let loc = (if Handle (Public f) = ROOT_DIRECTORY_HANDLE then RootFile
                  else SlotFile (unat (Handle (Public f))))
       in bindE (file_data loc m) (\<lambda>fd.
         let file = Public fd;
             byteCount = (if \<not> IsDirectory file \<or> IsDirectory file \<and> Size file \<noteq> 0
                          then min_int byteCount (Size file - Position file) else byteCount)
         in read_loop bios disk loc byteCount 0 [] m))"

definition FAT_ReadEntry ::
  "'w bios \<Rightarrow> DISK \<Rightarrow> file_ptr \<Rightarrow> ('w, 'e) fat_machine_scheme
    \<Rightarrow> (bool \<times> u8 list \<times> ('w, 'e) fat_machine_scheme) res" where
  "FAT_ReadEntry bios disk file m =
     bindE (FAT_Read bios disk file sizeof_DirectoryEntry m) (\<lambda>(bytes, m).
       Inr (of_nat (length bytes) = sizeof_DirectoryEntry, bytes, m))"

definition FAT_Close :: "file_ptr \<Rightarrow> ('w, 'e) fat_machine_scheme \<Rightarrow> ('w, 'e) fat_machine_scheme res" where
  "FAT_Close file m =
     bindE (file_data file m) (\<lambda>fd.
       if Handle (Public fd) = ROOT_DIRECTORY_HANDLE then
         let m = set_file_data file (fd \<lparr> Public := Public fd \<lparr> Position := 0 \<rparr> \<rparr>) m
         in Inr (m \<lparr> RootDirectory := RootDirectory m \<lparr> CurrentCluster := FirstCluster (RootDirectory m) \<rparr> \<rparr>)
       else
         let slot = SlotFile (unat (Handle (Public fd)))
         in bindE (file_data slot m) (\<lambda>fd. Inr (set_file_data slot (fd \<lparr> Opened := False \<rparr>) m)))"

section \<open>Names\<close>

text \<open>
  \<^verbatim>\<open>strchr\<close> on a string held in an array: the index of the character; without a null byte in the
  array the search leaves it.
\<close>

definition array_strchr :: "u8 list \<Rightarrow> u8 \<Rightarrow> nat option res" where
  "array_strchr array c =
     (if 0 \<in> set array then Inr (find_byte c (takeWhile (\<lambda>x. x \<noteq> 0) array)) else Inl OutOfBounds)"

text \<open>The two loops that build \<^verbatim>\<open>fatName\<close>; the number counts the rounds left.\<close>

fun copy_base :: "u8 list \<Rightarrow> nat \<Rightarrow> nat \<Rightarrow> nat \<Rightarrow> u8 list \<Rightarrow> u8 list" where
  "copy_base name ext 0 i fatName = fatName"
| "copy_base name ext (Suc left) i fatName =
     (if name ! i \<noteq> 0 \<and> i < ext then copy_base name ext left (i + 1) (fatName[i := toupper (name ! i)])
      else fatName)"

fun copy_ext :: "u8 list \<Rightarrow> nat \<Rightarrow> nat \<Rightarrow> nat \<Rightarrow> u8 list \<Rightarrow> u8 list" where
  "copy_ext name ext 0 i fatName = fatName"
| "copy_ext name ext (Suc left) i fatName =
     (if name ! (ext + i + 1) \<noteq> 0
      then copy_ext name ext left (i + 1) (fatName[i + 8 := toupper (name ! (ext + i + 1))])
      else fatName)"

definition fat_name :: "u8 list \<Rightarrow> u8 list res" where
  "fat_name name =
     (let fatName = (replicate 12 (ch CHR '' ''))[11 := 0] in
      bindE (array_strchr name (ch CHR ''.'')) (\<lambda>found.
        let ext = (case found of None \<Rightarrow> 11 | Some i \<Rightarrow> i);
            fatName = copy_base name ext 8 0 fatName
        in Inr (if ext \<noteq> 11 then copy_ext name ext 3 0 fatName else fatName)))"

section \<open>Finding and opening files\<close>

text \<open>
  The loop of \<^verbatim>\<open>FAT_FindFile\<close>.  It ends only when the directory does, which a cyclic cluster chain
  never does: the result is then \<open>None\<close>.
\<close>

partial_function (option) find_entry ::
  "'w bios \<Rightarrow> DISK \<Rightarrow> file_ptr \<Rightarrow> u8 list \<Rightarrow> ('w, 'e) fat_machine_scheme
    \<Rightarrow> (FAT_DirectoryEntry option \<times> ('w, 'e) fat_machine_scheme) res option" where
  "find_entry bios disk file fatName m =
     (case FAT_ReadEntry bios disk file m of
       Inl e \<Rightarrow> Some (Inl e)
     | Inr (complete, bytes, m) \<Rightarrow>
         if complete then
           let entry = directory_entry bytes in
           if bytes_cmp (take 11 fatName) (Name entry) = 0 then Some (Inr (Some entry, m))
           else find_entry bios disk file fatName m
         else Some (Inr (None, m)))"

definition FAT_FindFile ::
  "'w bios \<Rightarrow> DISK \<Rightarrow> file_ptr \<Rightarrow> u8 list \<Rightarrow> ('w, 'e) fat_machine_scheme
    \<Rightarrow> (FAT_DirectoryEntry option \<times> ('w, 'e) fat_machine_scheme) res option" where
  "FAT_FindFile bios disk file name m =
     (case fat_name name of Inl e \<Rightarrow> Some (Inl e) | Inr fatName \<Rightarrow> find_entry bios disk file fatName m)"

text \<open>
  Taking the next name off the path: the array \<^verbatim>\<open>name\<close>, the rest of the path and whether this was
  the last name.  The null byte goes one place too far, and the byte before it keeps its old value.
\<close>

definition next_name :: "u8 list \<Rightarrow> u8 list \<Rightarrow> (u8 list \<times> u8 list \<times> bool) res" where
  "next_name path name =
     (case find_byte (ch CHR ''/'') path of
       Some len \<Rightarrow>
         if length name \<le> len + 1 then Inl OutOfBounds
         else Inr ((take len path @ drop len name)[len + 1 := 0], drop (len + 1) path, False)
     | None \<Rightarrow>
         let len = length path in
         if length name \<le> len + 1 then Inl OutOfBounds
         else Inr ((take len path @ drop len name)[len + 1 := 0], drop len path, True))"

lemma find_byte_less: "find_byte c cs = Some i \<Longrightarrow> i < length cs"
  by (induction cs arbitrary: i) (auto split: if_splits)

lemma next_name_shorter:
  "next_name path name = Inr (name', path', l) \<Longrightarrow> path \<noteq> [] \<Longrightarrow> length path' < length path"
  by (auto simp: next_name_def Let_def dest: find_byte_less split: option.splits if_splits)

text \<open>The loop of \<^verbatim>\<open>FAT_Open\<close>, one round for every name of the path.\<close>

function open_path ::
  "'w bios \<Rightarrow> DISK \<Rightarrow> u8 list \<Rightarrow> u8 list \<Rightarrow> file_ptr \<Rightarrow> ('w, 'e) fat_machine_scheme
    \<Rightarrow> (file_ptr \<times> ('w, 'e) fat_machine_scheme) res option" where
  "open_path bios disk path name current m =
     (if path = [] then Some (Inr (current, m))
      else case next_name path name of
        Inl e \<Rightarrow> Some (Inl e)
      | Inr (name, path, isLast) \<Rightarrow>
        (case FAT_FindFile bios disk current name m of
          None \<Rightarrow> None
        | Some (Inl e) \<Rightarrow> Some (Inl e)
        | Some (Inr (found, m)) \<Rightarrow>
          (case FAT_Close current m of
            Inl e \<Rightarrow> Some (Inl e)
          | Inr m \<Rightarrow>
            (case found of
              Some entry \<Rightarrow>
                if \<not> isLast \<and> Attributes entry AND FAT_ATTRIBUTE_DIRECTORY = 0 then
                  Some (bindE (boot_log LOG_ERROR fatlogid ''%s is not a directory'' [Str name] m) (\<lambda>m.
                    Inr (NullFile, m)))
                else
                  (case bindE (boot_log LOG_NORMAL fatlogid ''Opening %s'' [Str name] m) (\<lambda>m.
                     FAT_OpenEntry bios disk entry m) of
                    Inl e \<Rightarrow> Some (Inl e)
                  | Inr (current, m) \<Rightarrow> open_path bios disk path name current m)
            | None \<Rightarrow>
                Some (bindE (boot_log LOG_ERROR fatlogid ''file \"%s\" not found'' [Str name] m) (\<lambda>m.
                  Inr (NullFile, m)))))))"
  by pat_completeness auto
termination
  by (relation "measure (\<lambda>(bios, disk, path, name, current, m). length path)")
    (auto dest: next_name_shorter)

declare open_path.simps [simp del]

text \<open>\<open>junk\<close> is what the array \<^verbatim>\<open>name\<close> on the stack holds at the call.\<close>

definition FAT_Open ::
  "'w bios \<Rightarrow> DISK \<Rightarrow> u8 list \<Rightarrow> u8 list \<Rightarrow> ('w, 'e) fat_machine_scheme
    \<Rightarrow> (file_ptr \<times> ('w, 'e) fat_machine_scheme) res option" where
  "FAT_Open bios disk path junk m =
     (let path = (if path \<noteq> [] \<and> hd path = ch CHR ''/'' then tl path else path)
      in open_path bios disk path (take MAX_PATH_SIZE junk) RootFile m)"

section \<open>The state a step leaves alone\<close>

lemma set_file_data_simps [simp]:
  "console (set_file_data loc fd m) = console m"
  "world (set_file_data loc fd m) = world m"
  "BootSectorBytes (set_file_data loc fd m) = BootSectorBytes m"
  "fat (set_file_data loc fd m) = fat m"
  "dataSectionLba (set_file_data loc fd m) = dataSectionLba m"
  "length (OpenedFiles (set_file_data loc fd m)) = length (OpenedFiles m)"
  by (cases loc; simp)+

lemma set_file_data_update [simp]:
  "set_file_data loc fd (m \<lparr> console := c \<rparr>) = set_file_data loc fd m \<lparr> console := c \<rparr>"
  "set_file_data loc fd (m \<lparr> world := w \<rparr>) = set_file_data loc fd m \<lparr> world := w \<rparr>"
  by (cases loc; simp)+

lemma file_data_update [simp]:
  "file_data loc (m \<lparr> console := c \<rparr>) = file_data loc m"
  "file_data loc (m \<lparr> world := w \<rparr>) = file_data loc m"
  by (cases loc; simp)+

lemma file_data_set:
  "file_data loc m = Inr fd \<Longrightarrow> file_data loc (set_file_data loc fd' m) = Inr fd'"
  by (cases loc) (auto split: if_splits)

lemma set_file_data_twice [simp]: "set_file_data loc fd (set_file_data loc fd' m) = set_file_data loc fd m"
  by (cases loc) simp_all

lemma set_file_data_same: "file_data loc m = Inr fd \<Longrightarrow> set_file_data loc fd m = m"
  by (cases loc) (auto split: if_splits)

lemma boot_fields_cong:
  assumes "BootSectorBytes m' = BootSectorBytes m"
  shows "SectorsPerCluster m' = SectorsPerCluster m" "BytesPerSector m' = BytesPerSector m"
  using assms by (simp_all add: SectorsPerCluster_def BytesPerSector_def)

lemma cluster_cong:
  assumes "BootSectorBytes m' = BootSectorBytes m" and "dataSectionLba m' = dataSectionLba m"
    and "fat m' = fat m"
  shows "FAT_ClusterToLba m' c = FAT_ClusterToLba m c" "FAT_NextCluster m' c = FAT_NextCluster m c"
  using assms by (simp_all add: FAT_ClusterToLba_def FAT_NextCluster_def Let_def boot_fields_cong [OF assms(1)])

section \<open>The clusters of a file\<close>

text \<open>Two entries of a FAT12 table take three bytes.\<close>

fun pack12 :: "nat list \<Rightarrow> u8 list" where
  "pack12 [] = []"
| "pack12 [a] = [of_nat (a mod 256), of_nat (a div 256)]"
| "pack12 (a # b # es) =
     of_nat (a mod 256) # of_nat (a div 256 + 16 * (b mod 16)) # of_nat (b div 16) # pack12 es"

definition le_at :: "u8 list \<Rightarrow> nat \<Rightarrow> nat" where
  "le_at bs i = unat (bs ! i) + 256 * unat (bs ! (i + 1))"

lemma pack12_step: "3 * Suc (Suc c) div 2 = Suc (Suc (Suc (3 * c div 2)))"
  by simp

lemma pack12_nth:
  assumes "c < length es" and "\<forall>e \<in> set es. e < 4096"
  shows "3 * c div 2 + 1 < length (pack12 es) \<and>
    (if even c then le_at (pack12 es) (3 * c div 2) mod 4096 else le_at (pack12 es) (3 * c div 2) div 16) = es ! c"
  using assms
proof (induction es arbitrary: c rule: pack12.induct)
  case (2 a)
  then show ?case by (simp add: le_at_def)
next
  case (3 a b es)
  have a: "a div 256 \<le> 15" "a < 4096" and b: "b < 4096" "b div 16 < 256"
    using "3.prems" by (auto simp: div_less_iff_less_mult)
  have mid: "a div 256 + 16 * (b mod 16) < 256" using a by (simp add: mod_less_divisor)
  consider "c = 0" | "c = 1" | c' where "c = Suc (Suc c')"
    by (metis One_nat_def not0_implies_Suc)
  then show ?case
  proof cases
    case 1
    have "a mod 256 + 256 * (a div 256 + 16 * (b mod 16)) = a + 4096 * (b mod 16)"
      using mod_mult_div_eq [of a 256] by (simp add: algebra_simps)
    then show ?thesis using 1 mid a by (simp add: le_at_def del: of_nat_add of_nat_mult)
  next
    case 2
    have "a div 256 + 16 * (b mod 16) + 256 * (b div 16) = a div 256 + 16 * b"
      using mod_mult_div_eq [of b 16] by linarith
    then have "(a div 256 + 16 * (b mod 16) + 256 * (b div 16)) div 16 = b"
      using a by simp
    then show ?thesis using 2 mid a b by (simp add: le_at_def del: of_nat_add of_nat_mult)
  next
    case (3 c')
    note eq = pack12_step [of c', folded 3]
    show ?thesis
      unfolding eq using "3.IH" [of c'] "3.prems" 3
      by (cases "even c'") (simp_all add: le_at_def)
  qed
qed simp

text \<open>
  C29: \<^verbatim>\<open>FAT_NextCluster\<close> reads the packed table: when the bytes at \<^verbatim>\<open>fat\<close> are those of a list of 12-bit
  entries, two entries in three bytes, it returns for every cluster below the length of the list the
  entry of that cluster.
\<close>

theorem FAT_NextCluster_decodes:
  assumes "take (length (pack12 es)) (fat m) = pack12 es" and "\<forall>e \<in> set es. e < 4096"
    and "unat c < length es" and "length es \<le> 4096"
  shows "\<exists>next. FAT_NextCluster m c = Inr next \<and> unat next = es ! unat c"
proof -
  let ?i = "3 * unat c div 2"
  note entry = pack12_nth [OF assms(3,2)]
  have index: "unat (c * 3 div 2) = ?i"
    using assms(3,4) by (simp add: unat_div unat_word_ariths mult.commute)
  have "fat m = pack12 es @ drop (length (pack12 es)) (fat m)"
    using assms(1) append_take_drop_id [of "length (pack12 es)" "fat m"] by simp
  then have nth: "fat m ! j = pack12 es ! j" if "j < length (pack12 es)" for j
    using that by (metis nth_append)
  have len: "length (pack12 es) \<le> length (fat m)"
    using assms(1) by (metis length_take min.cobounded2 min.commute)
  have word: "unat (le16_at (fat m) ?i) = le_at (pack12 es) ?i"
    using entry nth by (simp add: le16_at_def unat_le16 le_at_def)
  have parity: "c mod 2 = 0 \<longleftrightarrow> even (unat c)"
    by (simp add: word_unat_eq_iff unat_mod even_iff_mod_2_eq_zero)
  have mask: "(0x0FFF :: u16) = mask 12" by (simp add: mask_eq_exp_minus_1)
  have "unat (le16_at (fat m) ?i AND 0x0FFF) = le_at (pack12 es) ?i mod 4096"
    unfolding mask take_bit_eq_mask [symmetric] using word
    by (simp add: unsigned_take_bit_eq take_bit_eq_mod [where 'a = nat])
  moreover have "unat (drop_bit 4 (le16_at (fat m) ?i)) = le_at (pack12 es) ?i div 16"
    using word by (simp add: unat_drop_bit)
  ultimately show ?thesis
    using entry len parity by (cases "even (unat c)") (simp_all add: FAT_NextCluster_def Let_def index)
qed

definition blank_file :: FAT_FileData where
  "blank_file = \<lparr> Buffer = replicate 512 0,
     Public = \<lparr> Handle = 0, IsDirectory = False, Position = 0, Size = 0 \<rparr>, Opened = False,
     FirstCluster = 0, CurrentCluster = 0, CurrentSectorInCluster = 0 \<rparr>"

definition blank_fat_machine :: "u8 list \<Rightarrow> u8 list \<Rightarrow> 'w \<Rightarrow> 'w fat_machine" where
  "blank_fat_machine boot table w = \<lparr> console = blank_console, world = w, BootSectorBytes = boot,
     RootDirectory = blank_file, OpenedFiles = replicate 10 blank_file, fat = table, dataSectionLba = 0 \<rparr>"

theorem FAT_NextCluster_decodes_witness:
  "\<exists>next. FAT_NextCluster (blank_fat_machine [] (pack12 [0xFF0, 0xFFF, 5, 0xFF8, 0xABC, 3]) ()) 4 = Inr next \<and>
     unat next = [0xFF0, 0xFFF, 5, 0xFF8, 0xABC, 3] ! unat (4 :: u32)"
  by (rule FAT_NextCluster_decodes) (simp_all add: blank_fat_machine_def)

end
