(* ===== verification/Fat_Names.thy ===== *)
theory Fat_Names
  imports Fat12
begin

text \<open>
  The names \<^verbatim>\<open>FAT_Open\<close> looks up: how a name of the path becomes the eleven characters of a directory entry.
\<close>

section \<open>Names on the disk\<close>

text \<open>The eleven characters of a name in a directory, upper case and padded with spaces.\<close>

definition pad :: "nat \<Rightarrow> u8 list \<Rightarrow> u8 list" where
  "pad n cs = map toupper (take n cs) @ replicate (n - length cs) (ch CHR '' '')"

definition name83 :: "u8 list \<Rightarrow> u8 list \<Rightarrow> u8 list" where
  "name83 base ext = pad 8 base @ pad 3 ext @ [0]"

lemma length_pad [simp]: "length (pad n cs) = n"
  by (simp add: pad_def)

lemma find_byte_append: "c \<notin> set xs \<Longrightarrow> find_byte c (xs @ c # ys) = Some (length xs)"
  by (induction xs) auto

text \<open>The first loop stores the characters from \<open>i\<close> on up to the dot or the terminator.\<close>

lemma copy_base_eq:
  assumes "i + left \<le> length fatName" and "k \<le> length name"
    and "\<And>j. j < k \<Longrightarrow> name ! j \<noteq> 0 \<and> j < ext" and "i \<le> k" and "\<not> (name ! k \<noteq> 0 \<and> k < ext)"
  shows "copy_base name ext left i fatName =
    take i fatName @ map toupper (take (min left (k - i)) (drop i name)) @ drop (i + min left (k - i)) fatName"
  using assms(1,4)
proof (induction left arbitrary: i fatName)
  case (Suc left)
  show ?case
  proof (cases "i = k")
    case True
    then show ?thesis using assms(5) by auto
  next
    case False
    then have i: "i < k" "i < length name" using Suc.prems(2) assms(2) by simp_all
    let ?f = "fatName[i := toupper (name ! i)]"
    have i': "i < length fatName" using Suc.prems(1) by simp
    have "copy_base name ext (Suc left) i fatName = copy_base name ext left (Suc i) ?f"
      using assms(3) i by simp
    also have "\<dots> = take (Suc i) ?f @ map toupper (take (min left (k - Suc i)) (drop (Suc i) name)) @
        drop (Suc i + min left (k - Suc i)) ?f"
      by (rule Suc.IH) (use Suc.prems i in simp_all)
    also have "\<dots> = take i fatName @ ([toupper (name ! i)] @
        map toupper (take (min left (k - Suc i)) (drop (Suc i) name))) @ drop (Suc i + min left (k - Suc i)) ?f"
      using i' by (simp add: take_Suc_conv_app_nth)
    also have "[toupper (name ! i)] @ map toupper (take (min left (k - Suc i)) (drop (Suc i) name)) =
        map toupper (take (min (Suc left) (k - i)) (drop i name))"
      using i by (simp add: Cons_nth_drop_Suc [symmetric] Suc_diff_Suc [symmetric] min_Suc_Suc)
    finally show ?thesis
      using i by (simp add: Suc_diff_Suc [symmetric] min_Suc_Suc)
  qed
qed simp

lemma copy_ext_eq:
  assumes "i + 8 + left \<le> length fatName" and "ext + 1 + k \<le> length name"
    and "\<And>j. j < k \<Longrightarrow> name ! (ext + j + 1) \<noteq> 0" and "i \<le> k" and "left \<le> k - i \<or> name ! (ext + k + 1) = 0"
  shows "copy_ext name ext left i fatName =
    take (i + 8) fatName @ map toupper (take (min left (k - i)) (drop (ext + 1 + i) name)) @
    drop (i + 8 + min left (k - i)) fatName"
  using assms(1,4,5)
proof (induction left arbitrary: i fatName)
  case (Suc left)
  show ?case
  proof (cases "i = k")
    case True
    then show ?thesis using Suc.prems(3) by simp
  next
    case False
    then have i: "i < k" "ext + i + 1 < length name" using Suc.prems(2) assms(2) by simp_all
    let ?f = "fatName[i + 8 := toupper (name ! (ext + i + 1))]"
    have i': "i + 8 < length fatName" using Suc.prems(1) by simp
    have "copy_ext name ext (Suc left) i fatName = copy_ext name ext left (Suc i) ?f"
      using assms(3) i by simp
    also have "\<dots> = take (Suc i + 8) ?f @ map toupper (take (min left (k - Suc i)) (drop (ext + 1 + Suc i) name)) @
        drop (Suc i + 8 + min left (k - Suc i)) ?f"
      by (rule Suc.IH) (use Suc.prems i in auto)
    also have "\<dots> = take (i + 8) fatName @ ([toupper (name ! (ext + i + 1))] @
        map toupper (take (min left (k - Suc i)) (drop (ext + 1 + Suc i) name))) @
        drop (Suc i + 8 + min left (k - Suc i)) ?f"
      using i' take_Suc_conv_app_nth [of "i + 8" ?f] by simp
    also have "[toupper (name ! (ext + i + 1))] @
        map toupper (take (min left (k - Suc i)) (drop (ext + 1 + Suc i) name)) =
        map toupper (take (min (Suc left) (k - i)) (drop (ext + 1 + i) name))"
      using i by (simp add: Cons_nth_drop_Suc [symmetric] Suc_diff_Suc [symmetric] min_Suc_Suc)
    finally show ?thesis
      using i by (simp add: Suc_diff_Suc [symmetric] min_Suc_Suc add.assoc)
  qed
qed simp

lemma name_array:
  assumes "0 \<notin> set cs"
  shows "array_strchr (cs @ 0 # rest) c = Inr (find_byte c cs)"
proof -
  have "takeWhile (\<lambda>x. x \<noteq> 0) (cs @ 0 # rest) = cs"
    using assms by (induction cs) auto
  then show ?thesis by (simp add: array_strchr_def)
qed

lemma take_pad: "min n (length cs) = length (take n cs)"
  by simp

lemma fat_name_with_ext:
  assumes "0 \<notin> set base" and "ch CHR ''.'' \<notin> set base" and "0 \<notin> set ext" and "length base \<noteq> 11"
  shows "fat_name (base @ ch CHR ''.'' # ext @ 0 # rest) = Inr (name83 base ext)"
proof -
  let ?name = "base @ ch CHR ''.'' # ext @ 0 # rest"
  let ?blank = "(replicate 12 (ch CHR '' ''))[11 := 0]"
  have "array_strchr ?name (ch CHR ''.'') = Inr (find_byte (ch CHR ''.'') (base @ ch CHR ''.'' # ext))"
    using name_array [of "base @ ch CHR ''.'' # ext" rest] assms by simp
  also have "\<dots> = Inr (Some (length base))"
    using find_byte_append [OF assms(2)] by simp
  finally have found: "array_strchr ?name (ch CHR ''.'') = Inr (Some (length base))" .
  have "?name ! j \<noteq> 0 \<and> j < length base" if "j < length base" for j
    using that assms(1) by (auto simp: nth_append in_set_conv_nth)
  then have base: "copy_base ?name (length base) 8 0 ?blank =
      map toupper (take (min 8 (length base)) ?name) @ drop (min 8 (length base)) ?blank"
    using copy_base_eq [of 0 8 ?blank "length base" ?name "length base"] by simp
  have "?blank = replicate 11 (ch CHR '' '') @ [0]" by (simp add: numeral_eq_Suc)
  then have "drop (min 8 (length base)) ?blank = replicate (8 - length base) (ch CHR '' '') @ replicate 3 (ch CHR '' '') @ [0]"
    by (cases "8 \<le> length base") (simp_all add: min_def replicate_add [symmetric])
  then have padded: "copy_base ?name (length base) 8 0 ?blank = pad 8 base @ replicate 3 (ch CHR '' '') @ [0]"
    unfolding base by (cases "8 \<le> length base") (simp_all add: pad_def min_def)
  have "?name ! (length base + j + 1) \<noteq> 0" if "j < length ext" for j
    using that assms(3) by (auto simp: nth_append in_set_conv_nth)
  moreover have "?name ! (length base + length ext + 1) = 0" by (simp add: nth_append)
  ultimately have "copy_ext ?name (length base) 3 0 (pad 8 base @ replicate 3 (ch CHR '' '') @ [0]) =
      pad 8 base @ map toupper (take (min 3 (length ext)) (drop (length base + 1) ?name)) @
      drop (8 + min 3 (length ext)) (pad 8 base @ replicate 3 (ch CHR '' '') @ [0])"
    using copy_ext_eq [of 0 3 "pad 8 base @ replicate 3 (ch CHR '' '') @ [0]" "length base" "length ext" ?name]
    by simp
  also have "\<dots> = name83 base ext"
    by (cases "3 \<le> length ext") (simp_all add: name83_def pad_def min_def)
  finally show ?thesis
    using assms(4) unfolding fat_name_def Let_def found bindE_simps option.case padded by simp
qed

lemma fat_name_without_ext:
  assumes "0 \<notin> set base" and "ch CHR ''.'' \<notin> set base"
  shows "fat_name (base @ 0 # rest) = Inr (name83 base [])"
proof -
  let ?name = "base @ 0 # rest" and ?blank = "(replicate 12 (ch CHR '' ''))[11 := 0]"
  have found: "array_strchr ?name (ch CHR ''.'') = Inr None"
    using name_array [OF assms(1)] find_byte_None_iff assms(2) by simp
  let ?k = "min 11 (length base)"
  have before: "?name ! j \<noteq> 0 \<and> j < 11" if "j < ?k" for j
    using that assms(1) by (auto simp: nth_append in_set_conv_nth)
  have stop: "\<not> (?name ! ?k \<noteq> 0 \<and> ?k < 11)"
    by (auto simp: nth_append min_def)
  have "copy_base ?name 11 8 0 ?blank =
      take 0 ?blank @ map toupper (take (min 8 (?k - 0)) (drop 0 ?name)) @ drop (0 + min 8 (?k - 0)) ?blank"
    by (rule copy_base_eq [OF _ _ before _ stop]) simp_all
  then have base: "copy_base ?name 11 8 0 ?blank =
      map toupper (take (min 8 ?k) ?name) @ drop (min 8 ?k) ?blank"
    by (simp only: diff_zero drop_0 take_0 append_Nil add_0)
  have "?blank = replicate 8 (ch CHR '' '') @ replicate 3 (ch CHR '' '') @ [0]" by (simp add: numeral_eq_Suc)
  then have "drop (min 8 (length base)) ?blank = replicate (8 - length base) (ch CHR '' '') @ replicate 3 (ch CHR '' '') @ [0]"
    by (cases "8 \<le> length base") (simp_all add: min_def)
  moreover have k: "min 8 ?k = min 8 (length base)" by simp
  ultimately have "copy_base ?name 11 8 0 ?blank = name83 base []"
    unfolding base k by (cases "8 \<le> length base") (simp_all add: name83_def pad_def min_def)
  then show ?thesis
    unfolding fat_name_def Let_def found bindE_simps option.case by simp
qed

text \<open>The array \<^verbatim>\<open>name\<close> after a name was taken off the path; its byte after the name is stale.\<close>

definition component :: "u8 list \<Rightarrow> u8 list \<Rightarrow> u8 list \<Rightarrow> bool \<Rightarrow> bool" where
  "component path cs path' isLast \<longleftrightarrow> ch CHR ''/'' \<notin> set cs \<and> 0 \<notin> set cs \<and>
     (if isLast then path = cs \<and> path' = [] else path = cs @ ch CHR ''/'' # path')"

lemma next_name_component:
  assumes "component path cs path' isLast" and "length cs + 1 < length name"
  shows "next_name path name =
    Inr (cs @ name ! length cs # 0 # drop (length cs + 2) name, path', isLast)"
proof -
  have array: "(cs @ drop (length cs) name)[length cs + 1 := 0] =
      cs @ name ! length cs # 0 # drop (length cs + 2) name"
    using assms(2)
    by (simp add: list_update_append Cons_nth_drop_Suc [of "length cs", symmetric]
        Cons_nth_drop_Suc [of "Suc (length cs)", symmetric])
  show ?thesis
  proof (cases isLast)
    case True
    then have "path = cs" "path' = []" "find_byte (ch CHR ''/'') path = None"
      using assms(1) by (simp_all add: component_def find_byte_None_iff)
    then show ?thesis using assms(2) True array by (simp add: next_name_def Let_def)
  next
    case False
    then have "path = cs @ ch CHR ''/'' # path'" "find_byte (ch CHR ''/'') path = Some (length cs)"
      using assms(1) find_byte_append by (auto simp: component_def)
    then show ?thesis using assms(2) False array by (simp add: next_name_def)
  qed
qed

lemma pad_prefix: "3 \<le> length ext \<Longrightarrow> pad 3 (ext @ cs) = pad 3 ext"
  by (simp add: pad_def)

lemma looked_up:
  assumes "component path (base @ ch CHR ''.'' # ext) path' isLast"
    and "ch CHR ''.'' \<notin> set base" and "length base \<noteq> 11" and "3 \<le> length ext"
    and "length base + length ext + 2 < length name"
  shows "bindE (next_name path name) (\<lambda>(name, path, isLast). fat_name name) = Inr (name83 base ext)"
proof -
  let ?cs = "base @ ch CHR ''.'' # ext"
  have null: "0 \<notin> set base" "0 \<notin> set ext" using assms(1) by (auto simp: component_def)
  let ?g = "name ! length ?cs" and ?rest = "drop (length ?cs + 2) name"
  have "fat_name (?cs @ ?g # 0 # ?rest) = Inr (name83 base ext)"
  proof (cases "?g = 0")
    case True
    then show ?thesis
      using fat_name_with_ext [OF null(1) assms(2) null(2) assms(3), of "0 # ?rest"] by simp
  next
    case False
    then have "0 \<notin> set (ext @ [?g])" using null by simp
    then show ?thesis
      using fat_name_with_ext [OF null(1) assms(2) _ assms(3), of "ext @ [?g]" ?rest]
        pad_prefix [OF assms(4)] by (simp add: name83_def)
  qed
  then show ?thesis
    using next_name_component [OF assms(1), of name] assms(5) by simp
qed

text \<open>
  A name of the path with an extension of at least three characters is looked up by its eight and
  three characters in upper case, padded with spaces, whatever the array \<^verbatim>\<open>name\<close> held before.
\<close>

theorem looked_up_name:
  assumes "component path (base @ ch CHR ''.'' # ext) path' isLast"
    and "ch CHR ''.'' \<notin> set base" and "length base \<noteq> 11" and "3 \<le> length ext"
    and "length base + length ext + 2 < length name"
  shows "bindE (next_name path name) (\<lambda>(name, path, isLast). fat_name name) = Inr (name83 base ext)"
  by (rule looked_up [OF assms])

theorem looked_up_name_witness:
  "bindE (next_name (bytes_of ''kernel.bin'') (replicate 256 0x78)) (\<lambda>(name, path, isLast). fat_name name) =
   Inr (bytes_of ''KERNEL  BIN'' @ [0])"
proof -
  have "name83 (bytes_of ''kernel'') (bytes_of ''bin'') = bytes_of ''KERNEL  BIN'' @ [0]"
    by (simp add: name83_def pad_def toupper_def islower_def numeral_eq_Suc)
  then show ?thesis
    using looked_up_name [of "bytes_of ''kernel.bin''" "bytes_of ''kernel''" "bytes_of ''bin''" "[]" True
        "replicate 256 0x78"]
    by (simp add: component_def)
qed

text \<open>
  A name without an extension is looked up together with the byte that the array \<^verbatim>\<open>name\<close> held
  behind it, because the null byte is stored one place too far: unless that byte happens to be a
  null or a dot, a name of less than eight characters is not found under its own name.
\<close>

theorem looked_up_name_stale:
  assumes "component path cs path' isLast" and "ch CHR ''.'' \<notin> set cs"
    and "length cs + 1 < length name" and "length cs < 8"
    and "name ! length cs \<noteq> 0" and "name ! length cs \<noteq> ch CHR ''.''" and "name ! length cs \<noteq> ch CHR '' ''"
  shows "bindE (next_name path name) (\<lambda>(name, path, isLast). fat_name name) =
      Inr (name83 (cs @ [name ! length cs]) []) \<and>
    name83 (cs @ [name ! length cs]) [] \<noteq> name83 cs []"
proof
  let ?g = "name ! length cs"
  have "0 \<notin> set (cs @ [?g])" "ch CHR ''.'' \<notin> set (cs @ [?g])"
    using assms by (auto simp: component_def)
  then show "bindE (next_name path name) (\<lambda>(name, path, isLast). fat_name name) = Inr (name83 (cs @ [?g]) [])"
    using next_name_component [OF assms(1,3)] fat_name_without_ext [of "cs @ [?g]"] by simp
  have "toupper ?g \<noteq> ch CHR '' ''"
  proof
    assume "toupper ?g = ch CHR '' ''"
    then have "unat (toupper ?g) = 32" by simp
    then have "unat ?g = 32"
      by (auto simp: unat_toupper islower_unat split: if_splits)
    then show False using assms(7) by (simp add: word_unat_eq_iff)
  qed
  moreover have "name83 (cs @ [?g]) [] ! length cs = toupper ?g" "name83 cs [] ! length cs = ch CHR '' ''"
    using assms(4) by (simp_all add: name83_def pad_def nth_append)
  ultimately show "name83 (cs @ [?g]) [] \<noteq> name83 cs []" by metis
qed

theorem looked_up_name_stale_witness:
  "bindE (next_name (bytes_of ''boot/kernel.bin'') (replicate 256 0x78)) (\<lambda>(name, path, isLast). fat_name name) =
     Inr (bytes_of ''BOOTX      '' @ [0])"
proof -
  have "name83 (bytes_of ''boot'' @ [0x78]) [] = bytes_of ''BOOTX      '' @ [0]"
    by (simp add: name83_def pad_def toupper_def islower_def replicate_add [symmetric] numeral_eq_Suc)
  then show ?thesis
    using looked_up_name_stale [of "bytes_of ''boot/kernel.bin''" "bytes_of ''boot''" "bytes_of ''kernel.bin''"
        False "replicate 256 0x78"]
    by (simp add: component_def)
qed

end
