(* ===== verification/Fat_Read.thy ===== *)
theory Fat_Read
  imports Fat12
begin

text \<open>
  Reading a file: what \<^verbatim>\<open>FAT_Read\<close> delivers along a cluster chain, and where it divides by zero.
\<close>

section \<open>Reading across sectors\<close>

text \<open>A file in use: the root directory through its own handle or an entry of \<^verbatim>\<open>OpenedFiles\<close>.\<close>

definition in_use :: "file_ptr \<Rightarrow> FAT_FileData \<Rightarrow> ('w, 'e) fat_machine_scheme \<Rightarrow> bool" where
  "in_use loc fd m \<longleftrightarrow> file_data loc m = Inr fd \<and> length (Buffer fd) = 512 \<and>
     (loc = RootFile \<and> Handle (Public fd) = ROOT_DIRECTORY_HANDLE \<or>
      (\<exists>i < 10. loc = SlotFile i \<and> Handle (Public fd) = of_nat i))"

lemma slot_handle_not_root: "i < 10 \<Longrightarrow> (of_nat i :: i32) \<noteq> ROOT_DIRECTORY_HANDLE"
proof -
  assume "i < 10"
  then have "unat (of_nat i :: i32) \<noteq> unat (-1 :: i32)"
    by (simp add: unsigned_minus_1_eq_mask mask_eq_exp_minus_1)
  then show ?thesis by (auto simp: ROOT_DIRECTORY_HANDLE_def)
qed

lemma in_use_address: "in_use loc fd m \<Longrightarrow> buffer_address loc < 0x100000"
proof -
  assume "in_use loc fd m"
  then consider "loc = RootFile" | i where "i < 10" "loc = SlotFile i" by (auto simp: in_use_def)
  then show ?thesis
  proof cases
    case 2
    have "unat (of_nat (512 + (i + 1) * sizeof_FileData) :: u32) = 512 + (i + 1) * 544"
      using 2(1) by (simp add: sizeof_FileData_def del: of_nat_add of_nat_mult)
    then have "unat (MEMORY_FAT_ADDR + of_nat (512 + (i + 1) * sizeof_FileData)) = 131072 + (512 + (i + 1) * 544)"
      using 2(1) unfolding unat_word_ariths MEMORY_FAT_ADDR_def by simp
    then show ?thesis using 2 by (simp add: word_less_nat_alt del: of_nat_add of_nat_mult)
  qed (simp add: MEMORY_FAT_ADDR_def)
qed

lemma in_use_root: "in_use loc fd m \<Longrightarrow> Handle (Public fd) = ROOT_DIRECTORY_HANDLE \<longleftrightarrow> loc = RootFile"
  using slot_handle_not_root by (auto simp: in_use_def dest!: slot_handle_not_root)

text \<open>Where a file goes on at the end of a sector: cluster and sector in the cluster.\<close>

definition next_loc ::
  "file_ptr \<Rightarrow> ('w, 'e) fat_machine_scheme \<Rightarrow> u32 \<times> u32 \<Rightarrow> (u32 \<times> u32) res" where
  "next_loc loc m cs = (let (c, s) = cs in
     if loc = RootFile then Inr (c + 1, s)
     else if ucast (SectorsPerCluster m) \<le> s + 1 then bindE (FAT_NextCluster m c) (\<lambda>c. Inr (c, 0))
     else Inr (c, s + 1))"

definition loc_lba :: "file_ptr \<Rightarrow> ('w, 'e) fat_machine_scheme \<Rightarrow> u32 \<times> u32 \<Rightarrow> u32" where
  "loc_lba loc m cs = (let (c, s) = cs in if loc = RootFile then c else FAT_ClusterToLba m c + s)"

definition at_loc :: "u32 \<times> u32 \<Rightarrow> u8 list \<Rightarrow> FAT_FileData \<Rightarrow> FAT_FileData" where
  "at_loc cs sector fd =
     fd \<lparr> CurrentCluster := fst cs, CurrentSectorInCluster := snd cs, Buffer := sector \<rparr>"

lemma read_buffer_ok:
  assumes "reads_ok bios disk img" and "in_use loc fd m" and "unat lba < disk_size disk"
  shows "\<exists>c w. read_buffer bios disk loc lba m =
    Inr (0, set_file_data loc (fd \<lparr> Buffer := img (unat lba) \<rparr>) m \<lparr> console := c, world := w \<rparr>)"
proof -
  have "length (Buffer fd) = 512" "file_data loc m = Inr fd" using assms(2) by (simp_all add: in_use_def)
  moreover have "sector_data img (unat lba) 1 = img (unat lba)"
    by (simp add: sector_data_def)
  moreover obtain c w where "DISK_ReadSectors bios disk lba 1 (buffer_address loc) (Buffer fd) m =
      Inr (0, sector_data img (unat lba) 1 @ drop 512 (Buffer fd), m \<lparr> console := c, world := w \<rparr>)"
    using DISK_ReadSectors_ok [OF assms(1,3) in_use_address [OF assms(2)], of 1 "Buffer fd" m] calculation
    by auto
  ultimately have "read_buffer bios disk loc lba m =
      Inr (0, set_file_data loc (fd \<lparr> Buffer := img (unat lba) \<rparr>) m \<lparr> console := c, world := w \<rparr>)"
    by (simp add: read_buffer_def)
  then show ?thesis by blast
qed

lemma loading_bar_ok:
  "maxSector \<noteq> 0 \<Longrightarrow> loading_bar maxSector byteCount (m \<lparr> console := c, world := w \<rparr>) =
     Inr (m \<lparr> console := putchr Boot32 (79 * (maxSector - byteCount div SECTOR_SIZE) div maxSector) 24 0xDB c,
              world := w \<rparr>)"
  by (simp add: loading_bar_def)

text \<open>One step to the next sector.\<close>

lemma next_sector_ok:
  assumes "reads_ok bios disk img" and "in_use loc fd m"
    and "next_loc loc m (CurrentCluster fd, CurrentSectorInCluster fd) = Inr cs"
    and "unat (loc_lba loc m cs) < disk_size disk"
    and "loc \<noteq> RootFile \<Longrightarrow> fst cs < 0xFF8"
    and "loc \<noteq> RootFile \<Longrightarrow> maxSector \<noteq> 0 \<or> 512 \<le> byteCount"
  shows "\<exists>ms c w. next_sector bios disk loc byteCount maxSector m =
    Inr (True, ms, set_file_data loc (at_loc cs (img (unat (loc_lba loc m cs))) fd) m \<lparr> console := c, world := w \<rparr>) \<and>
    (loc \<noteq> RootFile \<longrightarrow> ms \<noteq> 0)"
proof (cases "loc = RootFile")
  case True
  let ?fd = "fd \<lparr> CurrentCluster := CurrentCluster fd + 1 \<rparr>"
  let ?m = "set_file_data loc ?fd m"
  have fd: "file_data loc m = Inr fd" using assms(2) by (simp add: in_use_def)
  have cs: "fst cs = CurrentCluster fd + 1" "snd cs = CurrentSectorInCluster fd"
    and lba: "loc_lba loc m cs = CurrentCluster fd + 1"
    using assms(3) True by (auto simp: next_loc_def loc_lba_def)
  have "in_use loc ?fd ?m"
    using assms(2) True by (simp add: in_use_def)
  then obtain c w where "read_buffer bios disk loc (CurrentCluster fd + 1) ?m =
      Inr (0, set_file_data loc (?fd \<lparr> Buffer := img (unat (CurrentCluster fd + 1)) \<rparr>) ?m \<lparr> console := c, world := w \<rparr>)"
    using read_buffer_ok [OF assms(1)] assms(4) lba by metis
  moreover have "?fd \<lparr> Buffer := img (unat (CurrentCluster fd + 1)) \<rparr> = at_loc cs (img (unat (loc_lba loc m cs))) fd"
    by (simp add: at_loc_def cs lba)
  ultimately show ?thesis
    using True fd in_use_root [OF assms(2)]
    by (auto simp: next_sector_def next_sector_root_def Let_def)
next
  case False
  let ?fd = "fd \<lparr> CurrentCluster := fst cs, CurrentSectorInCluster := snd cs \<rparr>"
  let ?m = "set_file_data loc ?fd m"
  let ?ms = "if maxSector = 0 then byteCount div SECTOR_SIZE else maxSector"
  have fd: "file_data loc m = Inr fd" using assms(2) by (simp add: in_use_def)
  have step: "step_cluster m fd = Inr ?fd"
    using assms(3) False
    by (auto simp: next_loc_def step_cluster_def Let_def bindE_def split: if_splits sum.splits)
  have cong: "FAT_ClusterToLba ?m (fst cs) = FAT_ClusterToLba m (fst cs)"
    by (rule cluster_cong(1)) simp_all
  have lba: "loc_lba loc m cs = FAT_ClusterToLba m (fst cs) + snd cs"
    using False by (simp add: loc_lba_def split: prod.splits)
  have "in_use loc ?fd ?m"
    using assms(2) False by (auto simp: in_use_def file_data_set [OF fd])
  then obtain c w where read: "read_buffer bios disk loc (FAT_ClusterToLba m (fst cs) + snd cs) ?m =
      Inr (0, set_file_data loc (?fd \<lparr> Buffer := img (unat (loc_lba loc m cs)) \<rparr>) ?m \<lparr> console := c, world := w \<rparr>)"
    using read_buffer_ok [OF assms(1)] assms(4) lba by metis
  have at: "?fd \<lparr> Buffer := img (unat (loc_lba loc m cs)) \<rparr> = at_loc cs (img (unat (loc_lba loc m cs))) fd"
    by (simp add: at_loc_def)
  have ms: "?ms \<noteq> 0"
  proof (cases "maxSector = 0")
    case True
    then have "512 \<le> unat byteCount" using assms(6) False by (simp add: word_le_nat_alt)
    then have "unat (byteCount div SECTOR_SIZE) \<noteq> 0"
      by (simp add: SECTOR_SIZE_def unat_div div_eq_0_iff)
    then show ?thesis using True by auto
  qed simp
  have "\<not> 0xFF8 \<le> fst cs" using assms(5) False by simp
  then have bar: "next_sector_file bios disk loc byteCount maxSector m =
      bindE (loading_bar ?ms byteCount
        (set_file_data loc (at_loc cs (img (unat (loc_lba loc m cs))) fd) m \<lparr> console := c, world := w \<rparr>))
        (\<lambda>m. Inr (True, ?ms, m))"
    using fd step read cong at by (simp add: next_sector_file_def Let_def)
  obtain c' where "loading_bar ?ms byteCount
      (set_file_data loc (at_loc cs (img (unat (loc_lba loc m cs))) fd) m \<lparr> console := c, world := w \<rparr>) =
      Inr (set_file_data loc (at_loc cs (img (unat (loc_lba loc m cs))) fd) m \<lparr> console := c', world := w \<rparr>)"
    by (rule that [OF loading_bar_ok [OF ms]])
  with bar have "next_sector_file bios disk loc byteCount maxSector m =
      Inr (True, ?ms, set_file_data loc (at_loc cs (img (unat (loc_lba loc m cs))) fd) m \<lparr> console := c', world := w \<rparr>)"
    by simp
  then have "next_sector bios disk loc byteCount maxSector m =
      Inr (True, ?ms, set_file_data loc (at_loc cs (img (unat (loc_lba loc m cs))) fd) m \<lparr> console := c', world := w \<rparr>)"
    using fd False in_use_root [OF assms(2)] by (simp only: next_sector_def bindE_simps Let_def if_False)
  then show ?thesis using ms by blast
qed

text \<open>
  A run of \<open>k\<close> steps along a file, through the places \<open>sec 0\<close>, ..., \<open>sec k\<close>, and the bytes of its
  sectors.
\<close>

definition chain ::
  "DISK \<Rightarrow> file_ptr \<Rightarrow> ('w, 'e) fat_machine_scheme \<Rightarrow> (nat \<Rightarrow> u32 \<times> u32) \<Rightarrow> nat \<Rightarrow> bool" where
  "chain disk loc m sec k \<longleftrightarrow> (\<forall>j < k. next_loc loc m (sec j) = Inr (sec (Suc j)) \<and>
     unat (loc_lba loc m (sec (Suc j))) < disk_size disk \<and>
     (loc = RootFile \<or> fst (sec (Suc j)) < 0xFF8))"

definition sector_at :: "(nat \<Rightarrow> u8 list) \<Rightarrow> file_ptr \<Rightarrow> ('w, 'e) fat_machine_scheme \<Rightarrow> u32 \<times> u32 \<Rightarrow> u8 list" where
  "sector_at img loc m cs = img (unat (loc_lba loc m cs))"

definition file_bytes ::
  "(nat \<Rightarrow> u8 list) \<Rightarrow> file_ptr \<Rightarrow> ('w, 'e) fat_machine_scheme \<Rightarrow> (nat \<Rightarrow> u32 \<times> u32) \<Rightarrow> nat \<Rightarrow> u8 list" where
  "file_bytes img loc m sec k = concat (map (\<lambda>j. sector_at img loc m (sec j)) [0..<k])"

definition moved :: "FAT_FileData \<Rightarrow> u32 \<Rightarrow> FAT_FileData" where
  "moved fd n = fd \<lparr> Public := Public fd \<lparr> Position := Position (Public fd) + n \<rparr> \<rparr>"

lemma file_bytes_Suc:
  "file_bytes img loc m sec (Suc k) = sector_at img loc m (sec 0) @ file_bytes img loc m (\<lambda>j. sec (Suc j)) k"
proof -
  have "[0..<Suc k] = 0 # map Suc [0..<k]" by (simp add: upt_conv_Cons map_Suc_upt)
  then show ?thesis by (simp add: file_bytes_def comp_def)
qed

lemma location_cong:
  assumes "BootSectorBytes m' = BootSectorBytes m" and "dataSectionLba m' = dataSectionLba m"
    and "fat m' = fat m"
  shows "next_loc loc m' = next_loc loc m" "loc_lba loc m' = loc_lba loc m"
    "chain disk loc m' sec k = chain disk loc m sec k"
    "sector_at img loc m' = sector_at img loc m"
    "file_bytes img loc m' sec k = file_bytes img loc m sec k"
proof -
  show next_loc: "next_loc loc m' = next_loc loc m"
    by (rule ext) (simp add: next_loc_def cluster_cong(2) [OF assms] boot_fields_cong(1) [OF assms(1)]
        split: prod.split)
  show lba: "loc_lba loc m' = loc_lba loc m"
    by (rule ext) (simp add: loc_lba_def cluster_cong(1) [OF assms] split: prod.split)
  show "chain disk loc m' sec k = chain disk loc m sec k"
    by (simp add: chain_def next_loc lba)
  show sector: "sector_at img loc m' = sector_at img loc m"
    by (rule ext) (simp add: sector_at_def lba)
  show "file_bytes img loc m' sec k = file_bytes img loc m sec k"
    by (simp add: file_bytes_def sector)
qed

lemma take_bytes_ok:
  assumes "in_use loc fd m" and "unat n < 2 ^ 31"
  defines "p \<equiv> unat (Position (Public fd)) mod 512"
  shows "take_bytes loc n m =
    (if unat n < 512 - p
     then Inr (0, False, take (unat n) (drop p (Buffer fd)), set_file_data loc (moved fd n) m)
     else Inr (n - of_nat (512 - p), True, drop p (Buffer fd), set_file_data loc (moved fd (of_nat (512 - p))) m))"
proof -
  have fd: "file_data loc m = Inr fd" "length (Buffer fd) = 512" using assms(1) by (simp_all add: in_use_def)
  have p: "unat (Position (Public fd) mod SECTOR_SIZE) = p" "p < 512"
    by (simp_all add: p_def SECTOR_SIZE_def unat_mod)
  then have left: "unat (SECTOR_SIZE - Position (Public fd) mod SECTOR_SIZE) = 512 - p"
    by (simp add: SECTOR_SIZE_def unat_sub word_le_nat_alt)
  then have left_eq: "SECTOR_SIZE - Position (Public fd) mod SECTOR_SIZE = of_nat (512 - p)"
    by (metis word_of_nat_eq_iff word_unat_eq_iff of_nat_unat ucast_id)
  have "sint (of_nat (512 - p) :: u32) = int (512 - p)" "sint n = int (unat n)"
    using left left_eq assms(2) by (simp_all add: sint_eq_unat del: of_nat_diff of_nat_unat)
  then have taken: "min_int n (of_nat (512 - p)) = (if unat n < 512 - p then n else of_nat (512 - p))"
    by (simp add: min_int_def word_sless_alt del: of_nat_diff of_nat_unat)
  have "\<not> of_nat (512 - p) < min_int n (of_nat (512 - p))"
    using left left_eq by (simp add: taken word_less_nat_alt del: of_nat_diff)
  moreover have "n \<noteq> of_nat (512 - p)" if "unat n < 512 - p"
    using that left left_eq by auto
  ultimately show ?thesis
    using fd p left left_eq taken
    by (auto simp: take_bytes_def Let_def moved_def simp del: of_nat_diff)
qed

lemma read_loop_0: "read_loop bios disk loc 0 ms out m = Inr (out, m)"
  by (simp add: read_loop.simps)

lemma at_loc_same:
  "(CurrentCluster fd, CurrentSectorInCluster fd) = cs \<Longrightarrow> Buffer fd = sector \<Longrightarrow> at_loc cs sector fd = fd"
  by (auto simp: at_loc_def)

lemma in_use_update [simp]:
  "in_use loc fd (m \<lparr> console := c \<rparr>) = in_use loc fd m"
  "in_use loc fd (m \<lparr> world := w \<rparr>) = in_use loc fd m"
  by (simp_all add: in_use_def)

lemma in_use_set:
  assumes "in_use loc fd m" and "Handle (Public fd') = Handle (Public fd)" and "length (Buffer fd') = 512"
  shows "in_use loc fd' (set_file_data loc fd' m)"
  using assms by (auto simp: in_use_def file_data_set [of loc m fd])

lemma take_drop_first:
  assumes "length xs = 512" and "p < 512" and "512 - p \<le> n"
  shows "take n (drop p (xs @ ys)) = drop p xs @ take (n - (512 - p)) ys"
  using assms by simp

lemma take_drop_within:
  assumes "length xs = 512" and "n \<le> 512 - p"
  shows "take n (drop p (xs @ ys)) = take n (drop p xs)"
  using assms by simp

text \<open>One crossing into the next sector of a file.\<close>

lemma cross_sector:
  assumes "reads_ok bios disk img" and "in_use loc fd m" and "unat n < 2 ^ 31"
    and "unat (Position (Public fd)) + unat n < 2 ^ 32"
    and "p = unat (Position (Public fd)) mod 512" and "512 - p \<le> unat n"
    and "(CurrentCluster fd, CurrentSectorInCluster fd) = cs"
    and "next_loc loc m cs = Inr cs'" and "unat (loc_lba loc m cs') < disk_size disk"
    and "loc \<noteq> RootFile \<longrightarrow> fst cs' < 0xFF8"
    and "loc \<noteq> RootFile \<longrightarrow> ms \<noteq> 0 \<or> 1024 \<le> p + unat n"
  defines "n' \<equiv> n - of_nat (512 - p)"
    and "fd' \<equiv> at_loc cs' (sector_at img loc m cs') (moved fd (of_nat (512 - p)))"
  shows "unat n' = unat n - (512 - p)" and "p + unat n = 512 + unat n'"
    and "unat (Position (Public fd')) = unat (Position (Public fd)) + (512 - p)"
    and "unat (Position (Public fd')) mod 512 = 0"
    and "in_use loc fd' (set_file_data loc fd' m)"
    and "\<exists>ms' c w. read_loop bios disk loc n ms out m =
        read_loop bios disk loc n' ms' (out @ drop p (Buffer fd)) (set_file_data loc fd' m \<lparr> console := c, world := w \<rparr>) \<and>
      (loc \<noteq> RootFile \<longrightarrow> ms' \<noteq> 0)"
proof -
  note of_nat_diff [simp del]
  have p: "p < 512" using assms(5) by simp
  have l: "unat (of_nat (512 - p) :: u32) = 512 - p" by (rule unat_of_nat_small) simp
  have "of_nat (512 - p) \<le> n" unfolding word_le_nat_alt l by (rule assms(6))
  from unat_sub [OF this] show n': "unat n' = unat n - (512 - p)" unfolding l n'_def .
  then show total: "p + unat n = 512 + unat n'" using assms(6) p by linarith
  show pos: "unat (Position (Public fd')) = unat (Position (Public fd)) + (512 - p)"
    using assms(4,6) l by (simp add: fd'_def at_loc_def moved_def unat_word_ariths)
  have "(unat (Position (Public fd)) + (512 - p)) mod 512 = 0"
    unfolding assms(5)
    by (metis add.commute le_add_diff_inverse2 less_imp_le_nat mod_add_left_eq mod_self p assms(5) add.left_commute)
  then show "unat (Position (Public fd')) mod 512 = 0" unfolding pos .
  have fd: "file_data loc m = Inr fd" "length (Buffer fd) = 512" using assms(2) by (simp_all add: in_use_def)
  let ?fd1 = "moved fd (of_nat (512 - p))"
  let ?m1 = "set_file_data loc ?fd1 m"
  have use1: "in_use loc ?fd1 ?m1"
    by (rule in_use_set [OF assms(2)]) (use fd(2) in \<open>simp_all add: moved_def\<close>)
  have eq1: "next_loc loc ?m1 = next_loc loc m" "loc_lba loc ?m1 = loc_lba loc m"
    by (rule location_cong; simp)+
  have "\<exists>ms' c w. next_sector bios disk loc n' ms ?m1 =
      Inr (True, ms', set_file_data loc (at_loc cs' (img (unat (loc_lba loc ?m1 cs'))) ?fd1) ?m1
        \<lparr> console := c, world := w \<rparr>) \<and> (loc \<noteq> RootFile \<longrightarrow> ms' \<noteq> 0)"
  proof (rule next_sector_ok [OF assms(1) use1])
    show "next_loc loc ?m1 (CurrentCluster ?fd1, CurrentSectorInCluster ?fd1) = Inr cs'"
      unfolding eq1 using assms(7,8) by (simp add: moved_def)
    show "unat (loc_lba loc ?m1 cs') < disk_size disk" unfolding eq1 by (rule assms(9))
    show "fst cs' < 0xFF8" if "loc \<noteq> RootFile" using assms(10) that by simp
    show "ms \<noteq> 0 \<or> 512 \<le> n'" if "loc \<noteq> RootFile"
      using assms(11) that total by (auto simp: word_le_nat_alt)
  qed
  then obtain ms' c w where step: "next_sector bios disk loc n' ms ?m1 =
      Inr (True, ms', set_file_data loc fd' m \<lparr> console := c, world := w \<rparr>)" "loc \<noteq> RootFile \<longrightarrow> ms' \<noteq> 0"
    unfolding eq1 fd'_def sector_at_def by auto
  have "n \<noteq> 0" using assms(6) p by auto
  then have "read_loop bios disk loc n ms out m =
      read_loop bios disk loc n' ms' (out @ drop p (Buffer fd)) (set_file_data loc fd' m \<lparr> console := c, world := w \<rparr>)"
    using take_bytes_ok [OF assms(2,3)] assms(6) step(1)
    unfolding n'_def assms(5) by (simp add: read_loop.simps [of bios disk loc n] word_neq_0_conv)
  then show "\<exists>ms' c w. read_loop bios disk loc n ms out m =
        read_loop bios disk loc n' ms' (out @ drop p (Buffer fd)) (set_file_data loc fd' m \<lparr> console := c, world := w \<rparr>) \<and>
      (loc \<noteq> RootFile \<longrightarrow> ms' \<noteq> 0)"
    using step(2) by blast
  have "length (sector_at img loc m cs') = 512"
    using assms(1) by (simp add: sector_at_def reads_ok_def reads_disk_def)
  then show "in_use loc fd' (set_file_data loc fd' m)"
    using in_use_set [OF assms(2), of fd'] by (simp add: fd'_def at_loc_def moved_def)
qed

text \<open>
  The loop of \<^verbatim>\<open>FAT_Read\<close> delivers the bytes of the sectors it crosses and leaves the file behind them.
\<close>

lemma read_loop_correct:
  assumes "reads_ok bios disk img" and "in_use loc fd m" and "unat n < 2 ^ 31"
    and "(unat (Position (Public fd)) mod 512 + unat n) div 512 = k"
    and "unat (Position (Public fd)) + unat n < 2 ^ 32"
    and "chain disk loc m sec k"
    and "(CurrentCluster fd, CurrentSectorInCluster fd) = sec 0" and "Buffer fd = sector_at img loc m (sec 0)"
    and "loc = RootFile \<or> k = 0 \<or> ms \<noteq> 0 \<or> 1024 \<le> unat (Position (Public fd)) mod 512 + unat n"
  shows "\<exists>c w. read_loop bios disk loc n ms out m =
    Inr (out @ take (unat n) (drop (unat (Position (Public fd)) mod 512) (file_bytes img loc m sec (Suc k))),
         set_file_data loc (at_loc (sec k) (sector_at img loc m (sec k)) (moved fd n)) m
           \<lparr> console := c, world := w \<rparr>)"
  using assms(2-9)
proof (induction "unat n" arbitrary: n fd m sec k ms out rule: less_induct)
  case less
  note use = less.prems(1) and small = less.prems(2) and k = less.prems(3) and wrap = less.prems(4)
    and chain = less.prems(5) and here = less.prems(6) and buf = less.prems(7) and bar = less.prems(8)
  let ?p = "unat (Position (Public fd)) mod 512"
  have fd: "file_data loc m = Inr fd" "length (Buffer fd) = 512" using use by (simp_all add: in_use_def)
  have p: "?p < 512" by simp
  have same: "at_loc (sec 0) (sector_at img loc m (sec 0)) fd' = fd'"
    if "CurrentCluster fd' = CurrentCluster fd" "CurrentSectorInCluster fd' = CurrentSectorInCluster fd"
      "Buffer fd' = Buffer fd" for fd'
    by (rule at_loc_same) (use that here buf in simp_all)
  consider "n = 0" | "0 < unat n" "unat n < 512 - ?p" | "0 < unat n" "512 - ?p \<le> unat n"
    by (metis not_le unat_gt_0)
  then show ?case
  proof cases
    case 1
    then have "k = 0" using k by simp
    moreover have "moved fd n = fd" using 1 by (simp add: moved_def)
    ultimately show ?thesis
      using 1 same [of fd] set_file_data_same [OF fd(1)]
      by (intro exI [of _ "console m"] exI [of _ "world m"]) (simp add: read_loop_0)
  next
    case 2
    then have "k = 0" using k by simp
    have "n \<noteq> 0" using 2(1) by auto
    then have "read_loop bios disk loc n ms out m =
        Inr (out @ take (unat n) (drop ?p (Buffer fd)), set_file_data loc (moved fd n) m)"
      using take_bytes_ok [OF use small] 2(2)
      by (simp add: read_loop.simps [of bios disk loc n] word_neq_0_conv read_loop_0)
    moreover have "take (unat n) (drop ?p (file_bytes img loc m sec (Suc k))) = take (unat n) (drop ?p (Buffer fd))"
      unfolding file_bytes_Suc using take_drop_within [of "Buffer fd" "unat n" ?p] fd(2) buf 2(2) by simp
    moreover have "at_loc (sec 0) (sector_at img loc m (sec 0)) (moved fd n) = moved fd n"
      by (rule same) (simp_all add: moved_def)
    ultimately show ?thesis
      using \<open>k = 0\<close> by (intro exI [of _ "console m"] exI [of _ "world m"]) simp
  next
    case 3
    note of_nat_diff [simp del]
    let ?n = "n - of_nat (512 - ?p)"
    let ?fd2 = "at_loc (sec 1) (sector_at img loc m (sec 1)) (moved fd (of_nat (512 - ?p)))"
    define k' where "k' = unat ?n div 512"
    have "k \<noteq> 0" using k 3(2) by (auto simp: div_eq_0_iff)
    then have "0 < k" by simp
    then have step: "next_loc loc m (sec 0) = Inr (sec 1)" "unat (loc_lba loc m (sec 1)) < disk_size disk"
      "loc \<noteq> RootFile \<longrightarrow> fst (sec 1) < 0xFF8" "loc \<noteq> RootFile \<longrightarrow> ms \<noteq> 0 \<or> 1024 \<le> ?p + unat n"
      using chain bar by (auto simp: chain_def)
    note cross = cross_sector [OF assms(1) use small wrap refl 3(2) here step]
    have k': "k = Suc k'" using k cross(2) by (simp add: k'_def)
    obtain ms' c1 w1 where step2: "read_loop bios disk loc n ms out m = read_loop bios disk loc ?n ms'
        (out @ drop ?p (Buffer fd)) (set_file_data loc ?fd2 m \<lparr> console := c1, world := w1 \<rparr>)"
      "loc \<noteq> RootFile \<Longrightarrow> ms' \<noteq> 0"
      using cross(6) by blast
    let ?m2 = "set_file_data loc ?fd2 m \<lparr> console := c1, world := w1 \<rparr>"
    have use2: "in_use loc ?fd2 ?m2" using cross(5) by simp
    have eq2: "\<And>sec k. chain disk loc ?m2 sec k = chain disk loc m sec k"
        "sector_at img loc ?m2 = sector_at img loc m"
        "\<And>sec k. file_bytes img loc ?m2 sec k = file_bytes img loc m sec k"
      by (rule location_cong; simp)+
    have "\<exists>c w. read_loop bios disk loc ?n ms' (out @ drop ?p (Buffer fd)) ?m2 =
      Inr ((out @ drop ?p (Buffer fd)) @ take (unat ?n) (drop (unat (Position (Public ?fd2)) mod 512)
            (file_bytes img loc ?m2 (\<lambda>j. sec (Suc j)) (Suc k'))),
         set_file_data loc (at_loc (sec (Suc k')) (sector_at img loc ?m2 (sec (Suc k'))) (moved ?fd2 ?n)) ?m2
           \<lparr> console := c, world := w \<rparr>)"
    proof (rule less.hyps [OF _ use2])
      show "unat ?n < unat n" using cross(1) 3 p by simp
      show "unat ?n < 2 ^ 31" using cross(1) small by simp
      show "(unat (Position (Public ?fd2)) mod 512 + unat ?n) div 512 = k'" using cross(4) k'_def by simp
      show "unat (Position (Public ?fd2)) + unat ?n < 2 ^ 32"
        unfolding cross(1,3) add.assoc le_add_diff_inverse [OF 3(2)] by (rule wrap)
      show "chain disk loc ?m2 (\<lambda>j. sec (Suc j)) k'"
        unfolding eq2 using chain k' by (simp add: chain_def)
      show "(CurrentCluster ?fd2, CurrentSectorInCluster ?fd2) = sec (Suc 0)" by (simp add: at_loc_def)
      show "Buffer ?fd2 = sector_at img loc ?m2 (sec (Suc 0))" unfolding eq2 by (simp add: at_loc_def)
      show "loc = RootFile \<or> k' = 0 \<or> ms' \<noteq> 0 \<or> 1024 \<le> unat (Position (Public ?fd2)) mod 512 + unat ?n"
        using step2(2) by blast
    qed
    then obtain c w where rest: "read_loop bios disk loc ?n ms' (out @ drop ?p (Buffer fd)) ?m2 =
      Inr ((out @ drop ?p (Buffer fd)) @ take (unat ?n) (file_bytes img loc m (\<lambda>j. sec (Suc j)) (Suc k')),
         set_file_data loc (at_loc (sec k) (sector_at img loc m (sec k)) (moved ?fd2 ?n)) m
           \<lparr> console := c, world := w \<rparr>)"
      unfolding eq2 cross(4) k' by auto
    have "at_loc (sec k) S (moved ?fd2 ?n) = at_loc (sec k) S (moved fd n)" for S
      by (simp add: at_loc_def moved_def)
    moreover have "take (unat n) (drop ?p (file_bytes img loc m sec (Suc k))) =
        drop ?p (Buffer fd) @ take (unat ?n) (file_bytes img loc m (\<lambda>j. sec (Suc j)) (Suc k'))"
      unfolding k' file_bytes_Suc [of img loc m sec "Suc k'"] cross(1)
      using take_drop_first [of "Buffer fd" ?p "unat n"] fd(2) buf p 3(2) by simp
    ultimately show ?thesis using rest step2(1) by (intro exI [of _ c] exI [of _ w]) simp
  qed
qed

section \<open>Reading a file\<close>

text \<open>How many bytes \<^verbatim>\<open>FAT_Read\<close> goes for.\<close>

definition wanted :: "FAT_File \<Rightarrow> u32 \<Rightarrow> nat" where
  "wanted f byteCount = min (unat byteCount) (unat (Size f) - unat (Position f))"

definition position_ok :: "FAT_File \<Rightarrow> bool" where
  "position_ok f \<longleftrightarrow> Position f \<le> Size f \<and> unat (Size f) < 2 ^ 31 \<and> (IsDirectory f \<longrightarrow> Size f \<noteq> 0)"

lemma FAT_Read_loop:
  assumes "in_use loc fd m" and "position_ok (Public fd)" and "unat byteCount < 2 ^ 31"
  shows "FAT_Read bios disk loc byteCount m =
    read_loop bios disk loc (of_nat (wanted (Public fd) byteCount)) 0 [] m"
proof -
  let ?f = "Public fd" and ?rest = "Size (Public fd) - Position (Public fd)"
  have fd: "file_data loc m = Inr fd" using assms(1) by (simp add: in_use_def)
  have "(if Handle ?f = ROOT_DIRECTORY_HANDLE then RootFile else SlotFile (unat (Handle ?f))) = loc"
    using assms(1) slot_handle_not_root slot_handle_not_root [THEN not_sym] by (auto simp: in_use_def)
  then have "FAT_Read bios disk loc byteCount m =
      read_loop bios disk loc (min_int byteCount ?rest) 0 [] m"
    using fd assms(2) by (auto simp: FAT_Read_def Let_def position_ok_def)
  moreover have rest: "unat ?rest = unat (Size ?f) - unat (Position ?f)"
    using assms(2) by (simp add: position_ok_def unat_sub)
  have "unat (Size ?f) < 2 ^ 31" using assms(2) by (simp add: position_ok_def)
  with rest have "unat ?rest < 2 ^ 31" by linarith
  then have "sint ?rest = int (unat ?rest)" "sint byteCount = int (unat byteCount)"
    using assms(3) by (simp_all add: sint_eq_unat del: of_nat_unat)
  then have "min_int byteCount ?rest = of_nat (min (unat byteCount) (unat ?rest))"
    by (simp add: min_int_def word_sless_alt min_def del: of_nat_unat) simp
  ultimately show ?thesis by (simp add: wanted_def rest)
qed

lemma unat_wanted:
  assumes "unat byteCount < 2 ^ 31"
  shows "unat (of_nat (wanted f byteCount) :: u32) = wanted f byteCount" "wanted f byteCount < 2 ^ 31"
proof -
  show "wanted f byteCount < 2 ^ 31" using assms by (simp add: wanted_def min_def)
  then show "unat (of_nat (wanted f byteCount) :: u32) = wanted f byteCount"
    by (intro unat_of_nat_small) simp
qed

lemma FAT_Read_reads:
  assumes "reads_ok bios disk img" and "in_use loc fd m" and "position_ok (Public fd)"
    and "unat byteCount < 2 ^ 31"
    and "(CurrentCluster fd, CurrentSectorInCluster fd) = sec 0" and "Buffer fd = sector_at img loc m (sec 0)"
  defines "n \<equiv> wanted (Public fd) byteCount" and "p \<equiv> unat (Position (Public fd)) mod 512"
  assumes "chain disk loc m sec ((p + n) div 512)"
    and "loc = RootFile \<or> p + n < 512 \<or> 1024 \<le> p + n"
  shows "\<exists>c w. FAT_Read bios disk loc byteCount m =
    Inr (take n (drop p (file_bytes img loc m sec (Suc ((p + n) div 512)))),
         set_file_data loc (at_loc (sec ((p + n) div 512)) (sector_at img loc m (sec ((p + n) div 512)))
             (moved fd (of_nat n))) m \<lparr> console := c, world := w \<rparr>)"
proof -
  have n: "unat (of_nat n :: u32) = n" "n < 2 ^ 31"
    unfolding n_def by (rule unat_wanted [OF assms(4)])+
  have "unat (Position (Public fd)) + n \<le> unat (Size (Public fd))"
    using assms(3) by (auto simp: n_def wanted_def position_ok_def word_le_nat_alt)
  then have "unat (Position (Public fd)) + n < 2 ^ 32"
    using assms(3) by (simp add: position_ok_def)
  moreover have "loc = RootFile \<or> (p + n) div 512 = 0 \<or> (0 :: u32) \<noteq> 0 \<or> 1024 \<le> p + n"
    using assms(10) by auto
  ultimately show ?thesis
    unfolding FAT_Read_loop [OF assms(2-4)] n_def [symmetric]
    using read_loop_correct [OF assms(1,2), of "of_nat n" "(p + n) div 512" sec 0 "[]"] n assms(5,6,9)
    by (simp add: p_def)
qed

text \<open>
  C3: Reading a file whose position is within its size, over a disk without errors and an intact
  cluster chain: \<^verbatim>\<open>FAT_Read\<close> delivers the next bytes of the file's sectors, as many as were asked for
  or are left, and leaves the file where they end, with the sector there in its buffer.  For files
  (not the root directory) the bytes must not end in the first sector after the current one.
\<close>

theorem FAT_Read_correct:
  assumes "reads_ok bios disk img" and "in_use loc fd m" and "position_ok (Public fd)"
    and "unat byteCount < 2 ^ 31"
    and "(CurrentCluster fd, CurrentSectorInCluster fd) = sec 0" and "Buffer fd = sector_at img loc m (sec 0)"
    and "n = wanted (Public fd) byteCount" and "p = unat (Position (Public fd)) mod 512"
    and "chain disk loc m sec ((p + n) div 512)"
    and "loc = RootFile \<or> p + n < 512 \<or> 1024 \<le> p + n"
  shows "\<exists>c w. FAT_Read bios disk loc byteCount m =
    Inr (take n (drop p (file_bytes img loc m sec (Suc ((p + n) div 512)))),
         set_file_data loc (at_loc (sec ((p + n) div 512)) (sector_at img loc m (sec ((p + n) div 512)))
             (moved fd (of_nat n))) m \<lparr> console := c, world := w \<rparr>)"
  unfolding assms(7,8) by (rule FAT_Read_reads) (use assms in simp_all)

text \<open>
  The end of the chain: \<^verbatim>\<open>FAT_Read\<close> then makes the position the size of the file.
\<close>

definition ended :: "u32 \<times> u32 \<Rightarrow> u8 list \<Rightarrow> FAT_FileData \<Rightarrow> FAT_FileData" where
  "ended cs sector fd = at_loc cs sector (fd \<lparr> Public := Public fd \<lparr> Size := Position (Public fd) \<rparr> \<rparr>)"

definition chain_ends :: "file_ptr \<Rightarrow> ('w, 'e) fat_machine_scheme \<Rightarrow> u32 \<times> u32 \<Rightarrow> u32 \<times> u32 \<Rightarrow> bool" where
  "chain_ends loc m cs cs' \<longleftrightarrow> loc \<noteq> RootFile \<and> next_loc loc m cs = Inr cs' \<and> 0xFF8 \<le> fst cs'"

lemma next_sector_ends:
  assumes "in_use loc fd m" and "chain_ends loc m (CurrentCluster fd, CurrentSectorInCluster fd) cs"
  shows "next_sector bios disk loc n ms m = Inr (False, ms, set_file_data loc (ended cs (Buffer fd) fd) m)"
proof -
  have fd: "file_data loc m = Inr fd" using assms(1) by (simp add: in_use_def)
  have "step_cluster m fd = Inr (fd \<lparr> CurrentCluster := fst cs, CurrentSectorInCluster := snd cs \<rparr>)"
    using assms(2)
    by (auto simp: chain_ends_def next_loc_def step_cluster_def Let_def bindE_def split: if_splits sum.splits)
  moreover have "ended cs (Buffer fd) fd = fd \<lparr> CurrentCluster := fst cs, CurrentSectorInCluster := snd cs,
      Public := Public fd \<lparr> Size := Position (Public fd) \<rparr> \<rparr>"
    by (cases fd) (simp add: ended_def at_loc_def)
  ultimately have "next_sector_file bios disk loc n ms m = Inr (False, ms, set_file_data loc (ended cs (Buffer fd) fd) m)"
    using assms(2) fd by (simp add: next_sector_file_def chain_ends_def)
  then show ?thesis
    using fd in_use_root [OF assms(1)] assms(2) by (simp add: next_sector_def chain_ends_def)
qed

lemma read_loop_ends:
  assumes "reads_ok bios disk img" and "in_use loc fd m" and "unat n < 2 ^ 31"
    and "unat (Position (Public fd)) + unat n < 2 ^ 32" and "p = unat (Position (Public fd)) mod 512"
    and "512 * Suc k \<le> p + unat n" and "chain disk loc m sec k"
    and "(CurrentCluster fd, CurrentSectorInCluster fd) = sec 0" and "Buffer fd = sector_at img loc m (sec 0)"
    and "chain_ends loc m (sec k) cs"
  shows "\<exists>c w. read_loop bios disk loc n ms out m =
    Inr (out @ drop p (file_bytes img loc m sec (Suc k)),
         set_file_data loc (ended cs (sector_at img loc m (sec k)) (moved fd (of_nat (512 * Suc k - p)))) m
           \<lparr> console := c, world := w \<rparr>)"
  using assms(2-10)
proof (induction k arbitrary: n fd m sec ms out p)
  case 0
  note of_nat_diff [simp del]
  let ?fd1 = "moved fd (of_nat (512 - p))"
  let ?m1 = "set_file_data loc ?fd1 m"
  have fd: "length (Buffer fd) = 512" using "0.prems"(1) by (simp add: in_use_def)
  have p: "p < 512" using "0.prems"(4) by simp
  have use1: "in_use loc ?fd1 ?m1"
    by (rule in_use_set [OF "0.prems"(1)]) (use fd in \<open>simp_all add: moved_def\<close>)
  have eq1: "next_loc loc ?m1 = next_loc loc m" by (rule location_cong; simp)
  have "chain_ends loc ?m1 (CurrentCluster ?fd1, CurrentSectorInCluster ?fd1) cs"
    unfolding chain_ends_def eq1 using "0.prems"(7,9) by (simp add: chain_ends_def moved_def)
  from next_sector_ends [OF use1 this]
  have step: "next_sector bios disk loc n' ms ?m1 = Inr (False, ms, set_file_data loc (ended cs (Buffer fd) ?fd1) m)" for n'
    by (simp add: moved_def)
  have "take_bytes loc n m = Inr (n - of_nat (512 - p), True, drop p (Buffer fd), ?m1)"
    using take_bytes_ok [OF "0.prems"(1,2)] "0.prems"(4,5) by simp
  moreover have "0 < n" using "0.prems"(5) p by (simp add: word_less_nat_alt)
  ultimately have "read_loop bios disk loc n ms out m =
      Inr (out @ drop p (Buffer fd), set_file_data loc (ended cs (Buffer fd) ?fd1) m)"
    using step by (simp add: read_loop.simps [of bios disk loc n])
  moreover have "file_bytes img loc m sec (Suc 0) = Buffer fd"
    unfolding file_bytes_Suc "0.prems"(8) by (simp add: file_bytes_def)
  ultimately show ?case
    using "0.prems"(8) by (intro exI [of _ "console m"] exI [of _ "world m"]) simp
next
  case (Suc k)
  note of_nat_diff [simp del]
  let ?n = "n - of_nat (512 - p)"
  let ?fd2 = "at_loc (sec 1) (sector_at img loc m (sec 1)) (moved fd (of_nat (512 - p)))"
  have p: "p < 512" using Suc.prems(4) by simp
  have l: "512 - p \<le> unat n" using Suc.prems(5) by simp
  have step: "next_loc loc m (sec 0) = Inr (sec 1)" "unat (loc_lba loc m (sec 1)) < disk_size disk"
    "loc \<noteq> RootFile \<longrightarrow> fst (sec 1) < 0xFF8" "loc \<noteq> RootFile \<longrightarrow> ms \<noteq> 0 \<or> 1024 \<le> p + unat n"
    using Suc.prems(5,6) by (auto simp: chain_def)
  note cross = cross_sector [OF assms(1) Suc.prems(1-4) l Suc.prems(7) step]
  obtain ms' c1 w1 where step2: "read_loop bios disk loc n ms out m = read_loop bios disk loc ?n ms'
      (out @ drop p (Buffer fd)) (set_file_data loc ?fd2 m \<lparr> console := c1, world := w1 \<rparr>)"
    using cross(6) by blast
  let ?m2 = "set_file_data loc ?fd2 m \<lparr> console := c1, world := w1 \<rparr>"
  have use2: "in_use loc ?fd2 ?m2" using cross(5) by simp
  have eq2: "next_loc loc ?m2 = next_loc loc m" "\<And>sec k. chain disk loc ?m2 sec k = chain disk loc m sec k"
      "sector_at img loc ?m2 = sector_at img loc m"
      "\<And>sec k. file_bytes img loc ?m2 sec k = file_bytes img loc m sec k"
    by (rule location_cong; simp)+
  have "\<exists>c w. read_loop bios disk loc ?n ms' (out @ drop p (Buffer fd)) ?m2 =
    Inr ((out @ drop p (Buffer fd)) @ drop 0 (file_bytes img loc ?m2 (\<lambda>j. sec (Suc j)) (Suc k)),
         set_file_data loc (ended cs (sector_at img loc ?m2 (sec (Suc k))) (moved ?fd2 (of_nat (512 * Suc k - 0)))) ?m2
           \<lparr> console := c, world := w \<rparr>)"
  proof (rule Suc.IH [OF use2])
    show "unat ?n < 2 ^ 31" using cross(1) Suc.prems(2) by simp
    show "unat (Position (Public ?fd2)) + unat ?n < 2 ^ 32"
      unfolding cross(1,3) add.assoc le_add_diff_inverse [OF l] by (rule Suc.prems(3))
    show "0 = unat (Position (Public ?fd2)) mod 512" using cross(4) by simp
    show "512 * Suc k \<le> 0 + unat ?n" using cross(2) Suc.prems(5) by simp
    show "chain disk loc ?m2 (\<lambda>j. sec (Suc j)) k"
      unfolding eq2 using Suc.prems(6) by (simp add: chain_def)
    show "(CurrentCluster ?fd2, CurrentSectorInCluster ?fd2) = sec (Suc 0)" by (simp add: at_loc_def)
    show "Buffer ?fd2 = sector_at img loc ?m2 (sec (Suc 0))" unfolding eq2 by (simp add: at_loc_def)
    show "chain_ends loc ?m2 (sec (Suc k)) cs" using Suc.prems(9) unfolding chain_ends_def eq2 .
  qed
  then obtain c w where rest: "read_loop bios disk loc ?n ms' (out @ drop p (Buffer fd)) ?m2 =
    Inr (out @ drop p (Buffer fd) @ file_bytes img loc m (\<lambda>j. sec (Suc j)) (Suc k),
         set_file_data loc (ended cs (sector_at img loc m (sec (Suc k))) (moved ?fd2 (of_nat (512 * Suc k)))) m
           \<lparr> console := c, world := w \<rparr>)"
    unfolding eq2 by auto
  have "(of_nat (512 - p) + of_nat (512 * Suc k) :: u32) = of_nat (512 * Suc (Suc k) - p)"
    using p unfolding of_nat_add [symmetric] by (intro arg_cong [where f = of_nat]) simp
  then have "ended cs S (moved ?fd2 (of_nat (512 * Suc k))) = ended cs S (moved fd (of_nat (512 * Suc (Suc k) - p)))" for S
    by (simp add: ended_def at_loc_def moved_def add.assoc del: of_nat_add of_nat_mult of_nat_Suc mult_Suc_right)
  moreover have "drop p (file_bytes img loc m sec (Suc (Suc k))) =
      drop p (Buffer fd) @ file_bytes img loc m (\<lambda>j. sec (Suc j)) (Suc k)"
    unfolding file_bytes_Suc [of img loc m sec "Suc k"] Suc.prems(8) [symmetric]
    using Suc.prems(1) p by (simp add: in_use_def)
  ultimately show ?case using rest step2 by (intro exI [of _ c] exI [of _ w]) simp
qed

lemma FAT_Read_ends:
  assumes "reads_ok bios disk img" and "in_use loc fd m" and "position_ok (Public fd)"
    and "unat byteCount < 2 ^ 31" and "p = unat (Position (Public fd)) mod 512"
    and "512 * Suc k \<le> p + wanted (Public fd) byteCount" and "chain disk loc m sec k"
    and "(CurrentCluster fd, CurrentSectorInCluster fd) = sec 0" and "Buffer fd = sector_at img loc m (sec 0)"
    and "chain_ends loc m (sec k) cs"
  shows "\<exists>c w. FAT_Read bios disk loc byteCount m =
    Inr (drop p (file_bytes img loc m sec (Suc k)),
         set_file_data loc (ended cs (sector_at img loc m (sec k)) (moved fd (of_nat (512 * Suc k - p)))) m
           \<lparr> console := c, world := w \<rparr>)"
proof -
  let ?n = "wanted (Public fd) byteCount"
  note n = unat_wanted [OF assms(4), of "Public fd"]
  have "unat (Position (Public fd)) + ?n \<le> unat (Size (Public fd))"
    using assms(3) by (auto simp: wanted_def position_ok_def word_le_nat_alt)
  then have "unat (Position (Public fd)) + ?n < 2 ^ 32"
    using assms(3) by (simp add: position_ok_def)
  then show ?thesis
    unfolding FAT_Read_loop [OF assms(2-4)]
    using read_loop_ends [OF assms(1,2), of "of_nat ?n" p k sec cs 0 "[]"] n assms(5-10) by simp
qed

text \<open>
  A machine with one open file in the clusters 5, 6 and 7, of one sector each, on the test disk.
\<close>

definition three_cluster_file :: "u32 \<Rightarrow> FAT_FileData" where
  "three_cluster_file sz = blank_file \<lparr> Buffer := test_image 36,
     Public := \<lparr> Handle = 0, IsDirectory = False, Position = 0, Size = sz \<rparr>,
     Opened := True, FirstCluster := 5, CurrentCluster := 5 \<rparr>"

definition three_cluster_machine :: "u32 \<Rightarrow> nat fat_machine" where
  "three_cluster_machine sz =
     blank_fat_machine ((replicate 512 0) [13 := 1]) (pack12 [0xFF0, 0xFFF, 0, 0, 0, 6, 7, 0xFFF] @ replicate 100 0) 0
     \<lparr> dataSectionLba := 33, OpenedFiles := three_cluster_file sz # replicate 9 blank_file \<rparr>"

definition three_clusters :: "nat \<Rightarrow> u32 \<times> u32" where
  "three_clusters j = (if j = 0 then (5, 0) else if j = 1 then (6, 0) else (7, 0))"

lemma three_cluster_in_use: "in_use (SlotFile 0) (three_cluster_file sz) (three_cluster_machine sz)"
  by (simp add: in_use_def three_cluster_machine_def three_cluster_file_def blank_fat_machine_def
      blank_file_def length_test_image)

lemma three_cluster_next:
  "FAT_NextCluster (three_cluster_machine sz) 5 = Inr 6"
  "FAT_NextCluster (three_cluster_machine sz) 6 = Inr 7"
  by (simp_all add: FAT_NextCluster_def three_cluster_machine_def blank_fat_machine_def le16_at_def le16_def)

lemma three_cluster_lba:
  "FAT_ClusterToLba (three_cluster_machine sz) c = 33 + (c - 2)"
  "SectorsPerCluster (three_cluster_machine sz) = 1"
  by (simp_all add: FAT_ClusterToLba_def SectorsPerCluster_def three_cluster_machine_def blank_fat_machine_def)

lemma three_cluster_chain:
  assumes "k \<le> 2"
  shows "chain floppy (SlotFile 0) (three_cluster_machine sz) three_clusters k"
proof -
  have "next_loc (SlotFile 0) (three_cluster_machine sz) (three_clusters j) = Inr (three_clusters (Suc j)) \<and>
      unat (loc_lba (SlotFile 0) (three_cluster_machine sz) (three_clusters (Suc j))) < disk_size floppy \<and>
      fst (three_clusters (Suc j)) < 0xFF8" if "j < 2" for j
    using that
    by (cases "j = 0") (simp_all add: three_clusters_def next_loc_def loc_lba_def three_cluster_next
        three_cluster_lba disk_size_def floppy_def)
  then show ?thesis using assms by (simp add: chain_def)
qed

theorem FAT_Read_correct_witness:
  "\<exists>c w. FAT_Read (rom_bios floppy test_image) floppy (SlotFile 0) 1100 (three_cluster_machine 1200) =
    Inr (take 1100 (drop 0 (file_bytes test_image (SlotFile 0) (three_cluster_machine 1200) three_clusters
           (Suc ((0 + 1100) div 512)))),
         set_file_data (SlotFile 0) (at_loc (three_clusters ((0 + 1100) div 512))
             (sector_at test_image (SlotFile 0) (three_cluster_machine 1200) (three_clusters ((0 + 1100) div 512)))
             (moved (three_cluster_file 1200) (of_nat 1100))) (three_cluster_machine 1200)
           \<lparr> console := c, world := w \<rparr>)"
proof (rule FAT_Read_correct [OF rom_reads_ok three_cluster_in_use])
  show "chain floppy (SlotFile 0) (three_cluster_machine 1200) three_clusters ((0 + 1100) div 512)"
    by (rule three_cluster_chain) simp
  show "Buffer (three_cluster_file 1200) = sector_at test_image (SlotFile 0) (three_cluster_machine 1200) (three_clusters 0)"
    by (simp add: three_cluster_file_def sector_at_def loc_lba_def three_clusters_def three_cluster_lba)
qed (simp_all add: length_test_image geometry_ok_def floppy_def three_cluster_file_def blank_file_def
      position_ok_def wanted_def three_clusters_def word_le_nat_alt)

text \<open>
  When the cluster chain ends within the bytes asked for, as it does for a file that fills its last
  cluster and for one whose directory entry claims more than the chain holds, \<^verbatim>\<open>FAT_Read\<close> delivers the
  bytes up to the end of the last cluster and takes the position reached for the size of the file.
\<close>

theorem FAT_Read_stops_at_chain_end:
  assumes "reads_ok bios disk img" and "in_use loc fd m" and "position_ok (Public fd)"
    and "unat byteCount < 2 ^ 31" and "p = unat (Position (Public fd)) mod 512"
    and "512 * Suc k \<le> p + wanted (Public fd) byteCount" and "chain disk loc m sec k"
    and "(CurrentCluster fd, CurrentSectorInCluster fd) = sec 0" and "Buffer fd = sector_at img loc m (sec 0)"
    and "chain_ends loc m (sec k) cs"
  shows "\<exists>c w. FAT_Read bios disk loc byteCount m =
    Inr (drop p (file_bytes img loc m sec (Suc k)),
         set_file_data loc (ended cs (sector_at img loc m (sec k)) (moved fd (of_nat (512 * Suc k - p)))) m
           \<lparr> console := c, world := w \<rparr>)"
  by (rule FAT_Read_ends [OF assms])

theorem FAT_Read_stops_at_chain_end_witness:
  "\<exists>c w. FAT_Read (rom_bios floppy test_image) floppy (SlotFile 0) 0x10000 (three_cluster_machine 2000) =
    Inr (drop 0 (file_bytes test_image (SlotFile 0) (three_cluster_machine 2000) three_clusters (Suc 2)),
         set_file_data (SlotFile 0) (ended (0xFFF, 0)
             (sector_at test_image (SlotFile 0) (three_cluster_machine 2000) (three_clusters 2))
             (moved (three_cluster_file 2000) (of_nat (512 * Suc 2 - 0)))) (three_cluster_machine 2000)
           \<lparr> console := c, world := w \<rparr>)"
proof (rule FAT_Read_stops_at_chain_end [OF rom_reads_ok three_cluster_in_use])
  show "chain floppy (SlotFile 0) (three_cluster_machine 2000) three_clusters 2"
    by (rule three_cluster_chain) simp
  show "Buffer (three_cluster_file 2000) = sector_at test_image (SlotFile 0) (three_cluster_machine 2000) (three_clusters 0)"
    by (simp add: three_cluster_file_def sector_at_def loc_lba_def three_clusters_def three_cluster_lba)
  have "FAT_NextCluster (three_cluster_machine 2000) 7 = Inr 0xFFF"
    by (simp add: FAT_NextCluster_def three_cluster_machine_def blank_fat_machine_def le16_at_def le16_def)
  then show "chain_ends (SlotFile 0) (three_cluster_machine 2000) (three_clusters 2) (0xFFF, 0)"
    by (simp add: chain_ends_def three_clusters_def next_loc_def three_cluster_lba)
qed (simp_all add: length_test_image geometry_ok_def floppy_def three_cluster_file_def blank_file_def
      position_ok_def wanted_def three_clusters_def word_le_nat_alt)

text \<open>
  At the end of a sector with less than a sector left to read the loading bar has no whole sector for
  its total.
\<close>

lemma next_sector_divides:
  assumes "reads_ok bios disk img" and "in_use loc fd m" and "loc \<noteq> RootFile"
    and "next_loc loc m (CurrentCluster fd, CurrentSectorInCluster fd) = Inr cs"
    and "unat (loc_lba loc m cs) < disk_size disk" and "fst cs < 0xFF8" and "unat n < 512"
  shows "next_sector bios disk loc n 0 m = Inl DivideError"
proof -
  have fd: "file_data loc m = Inr fd" "length (Buffer fd) = 512" using assms(2) by (simp_all add: in_use_def)
  let ?fd = "fd \<lparr> CurrentCluster := fst cs, CurrentSectorInCluster := snd cs \<rparr>"
  let ?m = "set_file_data loc ?fd m"
  have step: "step_cluster m fd = Inr ?fd"
    using assms(3,4)
    by (auto simp: next_loc_def step_cluster_def Let_def bindE_def split: if_splits sum.splits)
  have "in_use loc ?fd ?m"
    by (rule in_use_set [OF assms(2)]) (use fd(2) in simp_all)
  moreover have lba: "loc_lba loc ?m cs = loc_lba loc m cs"
    by (subst location_cong(2) [of _ m]) simp_all
  ultimately obtain c w m' where "read_buffer bios disk loc (loc_lba loc m cs) ?m = Inr (0, m' \<lparr> console := c, world := w \<rparr>)"
    using read_buffer_ok [OF assms(1), of loc ?fd ?m "loc_lba loc m cs"] assms(5) by blast
  moreover have "FAT_ClusterToLba ?m (fst cs) + snd cs = loc_lba loc m cs"
    using lba assms(3) by (simp add: loc_lba_def split: prod.splits)
  moreover have "n div SECTOR_SIZE = 0"
    using assms(7) by (simp add: SECTOR_SIZE_def word_unat_eq_iff unat_div)
  ultimately have "next_sector_file bios disk loc n 0 m = Inl DivideError"
    using fd(1) step assms(6) by (simp add: next_sector_file_def Let_def loading_bar_def not_le [symmetric])
  then show ?thesis
    using fd(1) in_use_root [OF assms(2)] assms(3) by (simp add: next_sector_def)
qed

text \<open>
  C23: When the bytes to deliver end in the first sector after the current one and the cluster chain
  goes on there, \<^verbatim>\<open>FAT_Read\<close> divides by zero: the loading bar's total is the number of whole sectors
  left, which is none.
\<close>

theorem FAT_Read_divide_error:
  assumes "reads_ok bios disk img" and "in_use loc fd m" and "position_ok (Public fd)"
    and "unat byteCount < 2 ^ 31" and "loc \<noteq> RootFile"
    and "n = wanted (Public fd) byteCount" and "p = unat (Position (Public fd)) mod 512"
    and "next_loc loc m (CurrentCluster fd, CurrentSectorInCluster fd) = Inr cs"
    and "unat (loc_lba loc m cs) < disk_size disk" and "fst cs < 0xFF8"
    and "512 \<le> p + n" and "p + n < 1024"
  shows "FAT_Read bios disk loc byteCount m = Inl DivideError"
proof -
  note of_nat_diff [simp del]
  let ?l = "of_nat (512 - p) :: u32"
  let ?fd1 = "moved fd ?l"
  let ?m1 = "set_file_data loc ?fd1 m"
  have fd: "file_data loc m = Inr fd" "length (Buffer fd) = 512" using assms(2) by (simp_all add: in_use_def)
  have n: "unat (of_nat n :: u32) = n" "n < 2 ^ 31"
    unfolding assms(6) by (rule unat_wanted [OF assms(4)])+
  have p: "p < 512" using assms(7) by simp
  have l: "unat ?l = 512 - p" by (rule unat_of_nat_small) simp
  have "?l \<le> of_nat n" unfolding word_le_nat_alt l n(1) using assms(11) by simp
  from unat_sub [OF this] have rest: "unat (of_nat n - ?l) < 512"
    unfolding l n(1) using assms(11,12) p by simp
  have use1: "in_use loc ?fd1 ?m1"
    by (rule in_use_set [OF assms(2)]) (use fd(2) in \<open>simp_all add: moved_def\<close>)
  have eq1: "next_loc loc ?m1 = next_loc loc m" "loc_lba loc ?m1 = loc_lba loc m"
    by (rule location_cong; simp)+
  have "next_sector bios disk loc (of_nat n - ?l) 0 ?m1 = Inl DivideError"
    by (rule next_sector_divides [OF assms(1) use1 assms(5)]) (use assms(8-10) rest eq1 in \<open>simp_all add: moved_def\<close>)
  moreover have "take_bytes loc (of_nat n) m = Inr (of_nat n - ?l, True, drop p (Buffer fd), ?m1)"
    using take_bytes_ok [OF assms(2), of "of_nat n"] n assms(7,11) by simp
  moreover have "0 < (of_nat n :: u32)"
    using n(1) assms(11) p by (simp add: word_less_nat_alt)
  ultimately have "read_loop bios disk loc (of_nat n) 0 [] m = Inl DivideError"
    by (simp add: read_loop.simps [of bios disk loc "of_nat n"])
  then show ?thesis unfolding FAT_Read_loop [OF assms(2-4)] assms(6) .
qed

theorem FAT_Read_divide_error_witness:
  "FAT_Read (rom_bios floppy test_image) floppy (SlotFile 0) 0x10000 (three_cluster_machine 600) = Inl DivideError"
proof (rule FAT_Read_divide_error [OF rom_reads_ok three_cluster_in_use, where n = 600 and p = 0 and cs = "(6, 0)"])
  show "next_loc (SlotFile 0) (three_cluster_machine 600) (CurrentCluster (three_cluster_file 600),
      CurrentSectorInCluster (three_cluster_file 600)) = Inr (6, 0)"
    by (simp add: next_loc_def three_cluster_file_def three_cluster_next three_cluster_lba blank_file_def)
  show "unat (loc_lba (SlotFile 0) (three_cluster_machine 600) (6, 0)) < disk_size floppy"
    by (simp add: loc_lba_def three_cluster_lba disk_size_def floppy_def)
qed (simp_all add: length_test_image geometry_ok_def floppy_def three_cluster_file_def blank_file_def
      position_ok_def wanted_def word_le_nat_alt)

end
