(* ===== verification/Fat_Handles.thy ===== *)
theory Fat_Handles
  imports Fat12
begin

text \<open>
  The file handles: the shape of \<^verbatim>\<open>FAT_Data\<close> that every operation of \<^verbatim>\<open>fat.c\<close> keeps, whatever the BIOS
  returns and whatever is on the disk, and that opening a file leaves the files that are open alone.
\<close>

section \<open>What a disk access changes\<close>

definition screen_world :: "('w, 'e) machine_scheme \<Rightarrow> ('w, 'e) machine_scheme \<Rightarrow> bool" where
  "screen_world m m' \<longleftrightarrow> (\<exists>c w. m' = m \<lparr> console := c, world := w \<rparr>)"

lemma screen_world_update: "screen_world m (m \<lparr> console := c, world := w \<rparr>)"
  unfolding screen_world_def by blast

lemma screen_worldI [intro]:
  "screen_world m m" "screen_world m (m \<lparr> console := c \<rparr>)" "screen_world m (m \<lparr> world := w \<rparr>)"
  using screen_world_update [where m = m and c = "console m" and w = "world m"]
    screen_world_update [where m = m and c = c and w = "world m"]
    screen_world_update [where m = m and c = "console m" and w = w] by simp_all

lemma screen_world_trans: "screen_world m m' \<Longrightarrow> screen_world m' m'' \<Longrightarrow> screen_world m m''"
  unfolding screen_world_def by (elim exE) (simp add: screen_world_update [unfolded screen_world_def])

lemma boot_log_screen: "boot_log level service fmt args m = Inr m' \<Longrightarrow> screen_world m m'"
  by (auto simp: boot_log_def bindE_eq_Inr)

lemma DISK_Reset_screen: "DISK_Reset bios disk m = Inr (r, m') \<Longrightarrow> screen_world m m'"
  by (rule DISK_Reset_returns [of bios disk m]) (auto intro: screen_world_update)

lemma store_bytes_length: "store_bytes bs obj = Inr obj' \<Longrightarrow> length obj' = length obj"
  by (auto simp: store_bytes_def split: if_splits)

lemma read_attempts_frame:
  "read_attempts bios disk chs count dataOut left result obj m = Inr (r, obj', m') \<Longrightarrow>
     length obj' = length obj \<and> screen_world m m'"
proof (induction left arbitrary: result obj m)
  case 0
  then show ?case by (cases chs) (auto simp: bindE_eq_Inr dest: boot_log_screen)
next
  case (Suc left)
  obtain cyl hds sec where chs: "chs = (cyl, hds, sec)" by (cases chs)
  obtain r1 stored w where read: "diskRead16 bios (drive disk) cyl hds sec count dataOut (world m) = (r1, stored, w)"
    by (metis prod_cases3)
  let ?m1 = "m \<lparr> world := w \<rparr>"
  from Suc.prems obtain obj1 where obj1: "store_bytes stored obj = Inr obj1"
    and rest: "(if r1 \<noteq> 0 then
          bindE (boot_log LOG_ERROR disklogid ''Failed to read disk! (%s)'' [Str (bytes_of (getStatus r1))] ?m1) (\<lambda>m.
            bindE (DISK_Reset bios disk m) (\<lambda>(r, m).
              if r = 1 then Inr (1, obj1, m)
              else read_attempts bios disk (cyl, hds, sec) count dataOut left r1 obj1 m))
        else Inr (r1, obj1, ?m1)) = Inr (r, obj', m')"
    by (auto simp: chs read with_world_def Let_def bindE_eq_Inr)
  have m1: "screen_world m ?m1" by auto
  show ?case
  proof (cases "r1 = 0")
    case True
    then show ?thesis using rest m1 store_bytes_length [OF obj1] by auto
  next
    case False
    from rest False obtain m2 r2 m3 where
      m2: "boot_log LOG_ERROR disklogid ''Failed to read disk! (%s)'' [Str (bytes_of (getStatus r1))] ?m1 = Inr m2"
      and m3: "DISK_Reset bios disk m2 = Inr (r2, m3)"
      and rest: "(if r2 = 1 then Inr (1, obj1, m3)
        else read_attempts bios disk (cyl, hds, sec) count dataOut left r1 obj1 m3) = Inr (r, obj', m')"
      by (auto simp: bindE_eq_Inr)
    have step: "screen_world m m3"
      using m1 boot_log_screen [OF m2] DISK_Reset_screen [OF m3] screen_world_trans by blast
    show ?thesis
      using rest step Suc.IH [of r1 obj1 m3] store_bytes_length [OF obj1] screen_world_trans
      by (auto simp: chs split: if_splits)
  qed
qed

lemma DISK_ReadSectors_frame:
  assumes "DISK_ReadSectors bios disk lba count dataOut obj m = Inr (r, obj', m')"
  shows "length obj' = length obj" and "screen_world m m'"
  using assms by (auto simp: DISK_ReadSectors_def bindE_eq_Inr dest: read_attempts_frame split: if_splits)

section \<open>Invariants of reading\<close>

text \<open>
  The file \<^verbatim>\<open>FAT_Read\<close> works on is the one its argument's handle names.
\<close>

definition target :: "FAT_FileData \<Rightarrow> file_ptr" where
  "target fd = (if Handle (Public fd) = ROOT_DIRECTORY_HANDLE then RootFile else SlotFile (unat (Handle (Public fd))))"

text \<open>
  A property of the machine that no change to the screen, the BIOS or the contents of the files \<open>may\<close>
  disturbs is kept by every read from these files.
\<close>

locale file_invariant =
  fixes P :: "('w, 'e) fat_machine_scheme \<Rightarrow> bool" and may :: "file_ptr \<Rightarrow> bool"
  assumes screen: "P m \<Longrightarrow> P (m \<lparr> console := c \<rparr>)"
    and bios_state: "P m \<Longrightarrow> P (m \<lparr> world := w \<rparr>)"
    and contents: "P m \<Longrightarrow> may loc \<Longrightarrow> file_data loc m = Inr fd \<Longrightarrow> Handle (Public fd') = Handle (Public fd) \<Longrightarrow>
      Opened fd' = Opened fd \<Longrightarrow> length (Buffer fd') = length (Buffer fd) \<Longrightarrow> P (set_file_data loc fd' m)"
begin

lemma along: "P m \<Longrightarrow> screen_world m m' \<Longrightarrow> P m'"
  by (auto simp: screen_world_def intro: screen bios_state)

lemma logging: "P m \<Longrightarrow> boot_log level service fmt args m = Inr m' \<Longrightarrow> P m'"
  by (blast intro: along boot_log_screen)

lemma read_buffer:
  assumes "P m" and "may loc" and "read_buffer bios disk loc lba m = Inr (r, m')"
  shows "P m'"
proof -
  from assms(3) obtain fd bytes m1 where fd: "file_data loc m = Inr fd"
    and read: "DISK_ReadSectors bios disk lba 1 (buffer_address loc) (Buffer fd) m = Inr (r, bytes, m1)"
    and m': "m' = set_file_data loc (fd \<lparr> Buffer := bytes \<rparr>) m1"
    by (auto simp: read_buffer_def bindE_eq_Inr)
  have "file_data loc m1 = Inr fd"
    using fd DISK_ReadSectors_frame(2) [OF read] by (auto simp: screen_world_def)
  then show ?thesis
    unfolding m' using assms(2) DISK_ReadSectors_frame [OF read] along [OF assms(1)]
    by (intro contents [of m1 loc fd]) simp_all
qed

lemma next_sector_root:
  assumes "P m" and "may loc" and "next_sector_root bios disk loc ms m = Inr (b, ms', m')"
  shows "P m'"
proof -
  from assms(3) obtain fd r m1 where fd: "file_data loc m = Inr fd"
    and read: "read_buffer bios disk loc (CurrentCluster fd + 1)
        (set_file_data loc (fd \<lparr> CurrentCluster := CurrentCluster fd + 1 \<rparr>) m) = Inr (r, m1)"
    and rest: "m' = m1 \<or> boot_log LOG_ERROR fatlogid ''Read error on take!'' [] m1 = Inr m'"
    by (auto simp: next_sector_root_def Let_def bindE_eq_Inr split: if_splits)
  have "P (set_file_data loc (fd \<lparr> CurrentCluster := CurrentCluster fd + 1 \<rparr>) m)"
    by (rule contents [OF assms(1,2) fd]) simp_all
  from read_buffer [OF this assms(2) read] show ?thesis using rest logging by blast
qed

lemma step_cluster_keeps:
  "step_cluster m fd = Inr fd' \<Longrightarrow> Public fd' = Public fd \<and> Opened fd' = Opened fd \<and> Buffer fd' = Buffer fd"
  by (auto simp: step_cluster_def Let_def bindE_eq_Inr split: if_splits)

lemma next_sector_file:
  assumes "P m" and "may loc" and "next_sector_file bios disk loc n ms m = Inr (b, ms', m')"
  shows "P m'"
proof -
  from assms(3) obtain fd0 fd where fd0: "file_data loc m = Inr fd0" and step: "step_cluster m fd0 = Inr fd"
    by (auto simp: next_sector_file_def bindE_eq_Inr)
  note same = step_cluster_keeps [OF step]
  show ?thesis
  proof (cases "0xFF8 \<le> CurrentCluster fd")
    case True
    then have "m' = set_file_data loc (fd \<lparr> Public := Public fd \<lparr> Size := Position (Public fd) \<rparr> \<rparr>) m"
      using assms(3) fd0 step by (simp add: next_sector_file_def)
    then show ?thesis using contents [OF assms(1,2) fd0] same by simp
  next
    case False
    let ?m1 = "set_file_data loc fd m"
    have "next_sector_file bios disk loc n ms m =
        bindE (read_buffer bios disk loc (FAT_ClusterToLba ?m1 (CurrentCluster fd) + CurrentSectorInCluster fd) ?m1)
          (\<lambda>(result, m).
            if result \<noteq> 0 then bindE (boot_log LOG_ERROR fatlogid ''Read error!'' [] m)
              (\<lambda>m. Inr (False, if ms = 0 then n div SECTOR_SIZE else ms, m))
            else bindE (loading_bar (if ms = 0 then n div SECTOR_SIZE else ms) n m)
              (\<lambda>m. Inr (True, if ms = 0 then n div SECTOR_SIZE else ms, m)))"
      using False fd0 step by (simp add: next_sector_file_def Let_def)
    with assms(3) obtain lba r m2 where
      read: "read_buffer bios disk loc lba ?m1 = Inr (r, m2)"
      and rest: "boot_log LOG_ERROR fatlogid ''Read error!'' [] m2 = Inr m' \<or> (\<exists>x. loading_bar x n m2 = Inr m')"
      by (simp add: bindE_eq_Inr split: if_splits prod.splits) blast+
    have "P ?m1" by (rule contents [OF assms(1,2) fd0]) (use same in simp_all)
    from read_buffer [OF this assms(2) read] have "P m2" .
    then show ?thesis using rest logging screen by (auto simp: loading_bar_def Let_def split: if_splits)
  qed
qed

lemma next_sector:
  assumes "P m" and "may loc" and "next_sector bios disk loc n ms m = Inr (b, ms', m')"
  shows "P m'"
proof -
  from assms(3) have "next_sector_root bios disk loc ms m = Inr (b, ms', m') \<or>
      next_sector_file bios disk loc n ms m = Inr (b, ms', m')"
    by (simp add: next_sector_def bindE_eq_Inr split: if_splits) blast+
  then show ?thesis using next_sector_root [OF assms(1,2)] next_sector_file [OF assms(1,2)] by blast
qed

lemma take_bytes:
  assumes "P m" and "may loc" and "take_bytes loc n m = Inr (n', full, bytes, m')"
  shows "P m'"
proof -
  from assms(3) obtain fd p where fd: "file_data loc m = Inr fd"
    and "m' = set_file_data loc (fd \<lparr> Public := Public fd \<lparr> Position := p \<rparr> \<rparr>) m"
    by (auto simp: take_bytes_def Let_def bindE_eq_Inr split: if_splits)
  then show ?thesis using contents [OF assms(1,2) fd] by simp
qed

lemma read_loop:
  assumes "P m" and "may loc" and "read_loop bios disk loc n ms out m = Inr (bytes, m')"
  shows "P m'"
  using assms(1,3)
proof (induction "unat n" arbitrary: n ms out m rule: less_induct)
  case less
  show ?case
  proof (cases "0 < n")
    case True
    from less.prems(2) True obtain n1 full bs m1 where
      t: "take_bytes loc n m = Inr (n1, full, bs, m1)"
      and rest: "(if full then bindE (next_sector bios disk loc n1 ms m1) (\<lambda>(continue, ms, m).
              if continue then read_loop bios disk loc n1 ms (out @ bs) m else Inr (out @ bs, m))
          else read_loop bios disk loc n1 ms (out @ bs) m1) = Inr (bytes, m')"
      by (auto simp: read_loop.simps [of bios disk loc n] bindE_eq_Inr)
    have smaller: "unat n1 < unat n" using take_bytes_progress [OF t True] by (simp add: word_less_nat_alt)
    have m1: "P m1" by (rule take_bytes [OF less.prems(1) assms(2) t])
    show ?thesis
    proof (cases full)
      case True
      from rest True obtain continue ms2 m2 where n: "next_sector bios disk loc n1 ms m1 = Inr (continue, ms2, m2)"
        and rest2: "(if continue then read_loop bios disk loc n1 ms2 (out @ bs) m2 else Inr (out @ bs, m2)) = Inr (bytes, m')"
        by (auto simp: bindE_eq_Inr)
      have "P m2" by (rule next_sector [OF m1 assms(2) n])
      then show ?thesis using rest2 less.hyps [OF smaller] by (auto split: if_splits)
    next
      case False
      then show ?thesis using rest less.hyps [OF smaller m1] by simp
    qed
  next
    case False
    then show ?thesis using less.prems by (simp add: read_loop.simps [of bios disk loc n])
  qed
qed

lemma FAT_Read:
  assumes "P m" and "file_data f m = Inr fd" and "may (target fd)"
    and "FAT_Read bios disk f n m = Inr (bytes, m')"
  shows "P m'"
  using assms(4) read_loop [OF assms(1,3)] assms(2)
  by (auto simp: FAT_Read_def Let_def bindE_eq_Inr target_def split: if_splits)

lemma FAT_ReadEntry:
  assumes "P m" and "file_data f m = Inr fd" and "may (target fd)"
    and "FAT_ReadEntry bios disk f m = Inr (complete, bytes, m')"
  shows "P m'"
  using assms(4) FAT_Read [OF assms(1-3)] by (auto simp: FAT_ReadEntry_def bindE_eq_Inr)

text \<open>\<^verbatim>\<open>FAT_FindFile\<close>, when the invariant ensures that the directory is one of these files.\<close>

lemma find_entry:
  assumes "\<And>m fd. P m \<Longrightarrow> file_data f m = Inr fd \<Longrightarrow> may (target fd)"
    and "P m" and "find_entry bios disk f fatName m = Some (Inr (found, m'))"
  shows "P m'"
proof -
  have "fi = f \<longrightarrow> P m \<longrightarrow> (\<forall>found m'. r = Inr (found, m') \<longrightarrow> P m')"
    if "find_entry bios disk fi fatName m = Some r" for bios disk fi fatName m r
  proof (rule find_entry.raw_induct [OF _ that, where P = "\<lambda>bios disk fi fatName m r.
      fi = f \<longrightarrow> P m \<longrightarrow> (\<forall>found m'. r = Inr (found, m') \<longrightarrow> P m')"])
    fix rec bios disk fi fatName m r
    assume IH: "\<And>bios disk fi fatName m r. rec bios disk fi fatName m = Some r \<Longrightarrow>
        fi = f \<longrightarrow> P m \<longrightarrow> (\<forall>found m'. r = Inr (found, m') \<longrightarrow> P m')"
      and body: "(case FAT_ReadEntry bios disk fi m of Inl e \<Rightarrow> Some (Inl e)
        | Inr (complete, bytes, m) \<Rightarrow>
            if complete then
              let entry = directory_entry bytes in
              if bytes_cmp (take 11 fatName) (Name entry) = 0 then Some (Inr (Some entry, m))
              else rec bios disk fi fatName m
            else Some (Inr (None, m))) = Some r"
    show "fi = f \<longrightarrow> P m \<longrightarrow> (\<forall>found m'. r = Inr (found, m') \<longrightarrow> P m')"
    proof (intro impI allI)
      fix found m'
      assume fi: "fi = f" and m: "P m" and r: "r = Inr (found, m')"
      obtain complete bytes m1 where read: "FAT_ReadEntry bios disk f m = Inr (complete, bytes, m1)"
        using body fi r by (cases "FAT_ReadEntry bios disk f m") auto
      then obtain fd where fd: "file_data f m = Inr fd"
        by (auto simp: FAT_ReadEntry_def FAT_Read_def bindE_eq_Inr)
      have m1: "P m1" by (rule FAT_ReadEntry [OF m fd assms(1) [OF m fd] read])
      show "P m'"
      proof (cases "complete \<and> bytes_cmp (take 11 fatName) (Name (directory_entry bytes)) \<noteq> 0")
        case True
        then have "rec bios disk f fatName m1 = Some r" using body fi read by (simp add: Let_def)
        then show ?thesis using IH m1 r by blast
      next
        case False
        then have "m' = m1" using body fi read r by (auto simp: Let_def split: if_splits)
        then show ?thesis using m1 by simp
      qed
    qed
  qed
  then show ?thesis using assms(2,3) by blast
qed

lemma FAT_FindFile:
  assumes "\<And>m fd. P m \<Longrightarrow> file_data f m = Inr fd \<Longrightarrow> may (target fd)"
    and "P m" and "FAT_FindFile bios disk f name m = Some (Inr (found, m'))"
  shows "P m'"
  using find_entry [OF assms(1,2)] assms(3) by (auto simp: FAT_FindFile_def split: sum.splits)

end

section \<open>The handles\<close>

text \<open>
  The shape of \<^verbatim>\<open>FAT_Data\<close>: ten handles, a buffer of a sector in each file, and the handle of an open
  file is its place.
\<close>

definition fat_ok :: "('w, 'e) fat_machine_scheme \<Rightarrow> bool" where
  "fat_ok m \<longleftrightarrow> length (OpenedFiles m) = MAX_FILE_HANDLES \<and> length (Buffer (RootDirectory m)) = 512 \<and>
     Handle (Public (RootDirectory m)) = ROOT_DIRECTORY_HANDLE \<and>
     (\<forall>i < MAX_FILE_HANDLES. length (Buffer (OpenedFiles m ! i)) = 512 \<and>
        (Opened (OpenedFiles m ! i) \<longrightarrow> Handle (Public (OpenedFiles m ! i)) = of_nat i))"

text \<open>The files of \<open>K\<close> are still what they were in \<open>m0\<close>.\<close>

definition keeps ::
  "nat set \<Rightarrow> ('w, 'e) fat_machine_scheme \<Rightarrow> ('w, 'e) fat_machine_scheme \<Rightarrow> bool" where
  "keeps K m0 m \<longleftrightarrow> fat_ok m \<and> (\<forall>i \<in> K. OpenedFiles m ! i = OpenedFiles m0 ! i)"

definition outside :: "nat set \<Rightarrow> file_ptr \<Rightarrow> bool" where
  "outside K loc \<longleftrightarrow> (\<forall>i \<in> K. loc \<noteq> SlotFile i)"

lemma keeps_update [simp]:
  "keeps K m0 (m \<lparr> console := c \<rparr>) = keeps K m0 m"
  "keeps K m0 (m \<lparr> world := w \<rparr>) = keeps K m0 m"
  by (simp_all add: keeps_def fat_ok_def)

lemma keeps_set:
  assumes "keeps K m0 m" and "outside K loc" and "file_data loc m = Inr fd"
    and "length (Buffer fd') = 512" and "loc = RootFile \<Longrightarrow> Handle (Public fd') = ROOT_DIRECTORY_HANDLE"
    and "\<And>i. loc = SlotFile i \<Longrightarrow> Opened fd' \<Longrightarrow> Handle (Public fd') = of_nat i"
  shows "keeps K m0 (set_file_data loc fd' m)"
  using assms
  by (cases loc) (auto simp: keeps_def fat_ok_def outside_def nth_list_update split: if_splits)

interpretation handles: file_invariant "keeps K m0" "outside K" for K m0
proof
  fix m loc and fd fd' :: FAT_FileData
  assume m: "keeps K m0 m" "outside K loc" and fd: "file_data loc m = Inr fd"
    and same: "Handle (Public fd') = Handle (Public fd)" "Opened fd' = Opened fd" "length (Buffer fd') = length (Buffer fd)"
  show "keeps K m0 (set_file_data loc fd' m)"
    by (rule keeps_set [OF m fd])
      (use m fd same in \<open>cases loc; auto simp: keeps_def fat_ok_def split: if_splits\<close>)+
qed simp_all

lemma free_handle_Some:
  "free_handle fds i = Some h \<Longrightarrow> i \<le> h \<and> h < i + length fds \<and> \<not> Opened (fds ! (h - i))"
proof (induction fds arbitrary: i)
  case (Cons fd fds)
  show ?case
  proof (cases "Opened fd")
    case True
    then have "Suc i \<le> h \<and> h < Suc i + length fds \<and> \<not> Opened (fds ! (h - Suc i))"
      using Cons.prems by (intro Cons.IH) simp
    then show ?thesis by (simp add: nth_Cons' Suc_diff_Suc [symmetric])
  qed (use Cons.prems in simp)
qed simp

text \<open>What \<^verbatim>\<open>FAT_OpenEntry\<close> returns: no file, or one that is open and was not before.\<close>

definition opened_at :: "nat set \<Rightarrow> ('w, 'e) fat_machine_scheme \<Rightarrow> file_ptr \<Rightarrow> bool" where
  "opened_at K m f \<longleftrightarrow> f = NullFile \<or>
     (\<exists>i < MAX_FILE_HANDLES. i \<notin> K \<and> f = SlotFile i \<and> Opened (OpenedFiles m ! i))"

lemma FAT_OpenEntry_keeps:
  assumes "keeps K m0 m" and "\<forall>i \<in> K. Opened (OpenedFiles m ! i)"
    and "FAT_OpenEntry bios disk entry m = Inr (f, m')"
  shows "keeps K m0 m' \<and> opened_at K m' f"
proof (cases "free_handle (OpenedFiles m) 0")
  case None
  then show ?thesis
    using assms(1,3) handles.logging by (auto simp: FAT_OpenEntry_def opened_at_def bindE_eq_Inr)
next
  case (Some h)
  note free = free_handle_Some [OF Some]
  have h: "h < MAX_FILE_HANDLES" "h \<notin> K" "outside K (SlotFile h)"
    using free assms(1,2) by (auto simp: keeps_def fat_ok_def outside_def)
  let ?cluster = "ucast (FirstClusterLow entry) + push_bit 16 (ucast (FirstClusterHigh entry)) :: u32"
  define fd where "fd = (OpenedFiles m ! h) \<lparr>
      Public := \<lparr> Handle = of_nat h, IsDirectory = (Attributes entry AND FAT_ATTRIBUTE_DIRECTORY \<noteq> 0),
                  Position = 0, Size = EntrySize entry \<rparr>,
      FirstCluster := ?cluster, CurrentCluster := ?cluster, CurrentSectorInCluster := 0 \<rparr>"
  let ?m1 = "set_file_data (SlotFile h) fd m"
  have fd: "length (Buffer fd) = 512" "Handle (Public fd) = of_nat h" "file_data (SlotFile h) m = Inr (OpenedFiles m ! h)"
    using assms(1) h(1) by (simp_all add: fd_def keeps_def fat_ok_def)
  have m1: "keeps K m0 ?m1" by (rule keeps_set [OF assms(1) h(3) fd(3)]) (use fd in simp_all)
  from assms(3) Some obtain r bytes m2 where
    read: "DISK_ReadSectors bios disk (FAT_ClusterToLba ?m1 ?cluster) 1 (buffer_address (SlotFile h)) (Buffer fd) ?m1
      = Inr (r, bytes, m2)"
    by (auto simp: FAT_OpenEntry_def Let_def fd_def bindE_eq_Inr)
  note frame = DISK_ReadSectors_frame [OF read]
  let ?m3 = "set_file_data (SlotFile h) (fd \<lparr> Buffer := bytes \<rparr>) m2"
  have m2: "keeps K m0 m2" by (rule handles.along [OF m1 frame(2)])
  then have slot: "file_data (SlotFile h) m2 = Inr (OpenedFiles m2 ! h)" using h(1) by (simp add: keeps_def fat_ok_def)
  have m3: "keeps K m0 ?m3" by (rule keeps_set [OF m2 h(3) slot]) (use frame(1) fd in simp_all)
  have m4: "keeps K m0 (set_file_data (SlotFile h) (fd \<lparr> Buffer := bytes, Opened := True \<rparr>) m2)"
    by (rule keeps_set [OF m2 h(3) slot]) (use frame(1) fd in simp_all)
  show ?thesis
  proof (cases "r = 0")
    case True
    then have "f = SlotFile h" "m' = set_file_data (SlotFile h) (fd \<lparr> Buffer := bytes, Opened := True \<rparr>) m2"
      using assms(3) Some read by (auto simp: FAT_OpenEntry_def Let_def fd_def)
    moreover have "h < length (OpenedFiles m2)" using m2 h(1) by (simp add: keeps_def fat_ok_def)
    ultimately show ?thesis using m4 h by (simp add: opened_at_def)
  next
    case False
    then have "bindE (boot_log LOG_ERROR fatlogid ''Open entry failed. Cluster=%u LBA=%u''
        [Bits (ucast ?cluster), Bits (ucast (FAT_ClusterToLba ?m3 ?cluster))] ?m3) (\<lambda>m.
          bindE (print_name (Name entry) (console m)) (\<lambda>c.
            Inr (NullFile, m \<lparr> console := putc Boot32 (ch CHR ''\<newline>'') c \<rparr>))) = Inr (f, m')"
      using assms(3) Some read by (simp add: FAT_OpenEntry_def Let_def fd_def)
    then obtain m5 c where "boot_log LOG_ERROR fatlogid ''Open entry failed. Cluster=%u LBA=%u''
        [Bits (ucast ?cluster), Bits (ucast (FAT_ClusterToLba ?m3 ?cluster))] ?m3 = Inr m5"
      "f = NullFile" "m' = m5 \<lparr> console := c \<rparr>"
      by (auto simp: bindE_eq_Inr)
    then show ?thesis using handles.logging [OF m3] by (auto simp: opened_at_def)
  qed
qed

text \<open>While a directory is searched, its handle stays what it is.\<close>

definition reading ::
  "nat set \<Rightarrow> ('w, 'e) fat_machine_scheme \<Rightarrow> file_ptr \<Rightarrow> i32 \<Rightarrow> bool \<Rightarrow> ('w, 'e) fat_machine_scheme \<Rightarrow> bool" where
  "reading K m0 f h b m \<longleftrightarrow> keeps K m0 m \<and>
     (\<exists>fd. file_data f m = Inr fd \<and> Handle (Public fd) = h \<and> Opened fd = b)"

lemma file_data_set_other: "file_data f (set_file_data loc fd m) = (if f = loc then bindE (file_data f m) (\<lambda>_. Inr fd) else file_data f m)"
  by (cases f; cases loc) auto

interpretation reading: file_invariant "reading K m0 f h b" "outside K" for K m0 f h b
proof
  fix m loc and fd fd' :: FAT_FileData
  assume m: "reading K m0 f h b m" "outside K loc" and fd: "file_data loc m = Inr fd"
    and same: "Handle (Public fd') = Handle (Public fd)" "Opened fd' = Opened fd" "length (Buffer fd') = length (Buffer fd)"
  have "keeps K m0 (set_file_data loc fd' m)"
    by (rule handles.contents [OF _ m(2) fd same]) (use m(1) in \<open>simp add: reading_def\<close>)
  then show "reading K m0 f h b (set_file_data loc fd' m)"
    using m(1) fd same by (auto simp: reading_def file_data_set_other)
qed (simp_all add: reading_def)

text \<open>A file that \<^verbatim>\<open>FAT_Open\<close> may be searching.\<close>

definition current_ok :: "nat set \<Rightarrow> ('w, 'e) fat_machine_scheme \<Rightarrow> file_ptr \<Rightarrow> bool" where
  "current_ok K m f \<longleftrightarrow> f = RootFile \<or> opened_at K m f"

lemma current_handle:
  assumes "keeps K m0 m" and "current_ok K m f" and "f \<noteq> NullFile"
  obtains fd where "file_data f m = Inr fd" "target fd = f" "outside K f"
proof -
  from assms(2,3) consider "f = RootFile"
    | i where "i < MAX_FILE_HANDLES" "i \<notin> K" "f = SlotFile i" "Opened (OpenedFiles m ! i)"
    by (auto simp: current_ok_def opened_at_def)
  then show thesis
  proof cases
    case 1
    then show ?thesis using that [of "RootDirectory m"] assms(1)
      by (simp add: keeps_def fat_ok_def target_def outside_def)
  next
    case 2
    have "(of_nat i :: i32) \<noteq> ROOT_DIRECTORY_HANDLE"
    proof
      assume "(of_nat i :: i32) = ROOT_DIRECTORY_HANDLE"
      then have "unat (of_nat i :: i32) = unat (- 1 :: i32)" by (simp add: ROOT_DIRECTORY_HANDLE_def)
      then show False using 2(1) by (simp add: MAX_FILE_HANDLES_def unsigned_minus_1_eq_mask mask_eq_exp_minus_1)
    qed
    moreover have "unat (of_nat i :: i32) = i" using 2(1) by (simp add: MAX_FILE_HANDLES_def)
    ultimately show ?thesis using that [of "OpenedFiles m ! i"] assms(1) 2
      by (auto simp: keeps_def fat_ok_def target_def outside_def)
  qed
qed

lemma FAT_Close_keeps:
  assumes "keeps K m0 m" and "file_data f m = Inr fd" and "target fd = f" and "outside K f"
    and "FAT_Close f m = Inr m'"
  shows "keeps K m0 m'"
proof (cases "Handle (Public fd) = ROOT_DIRECTORY_HANDLE")
  case True
  then have f: "f = RootFile" "fd = RootDirectory m" using assms(2,3) by (auto simp: target_def)
  let ?fd = "fd \<lparr> Public := Public fd \<lparr> Position := 0 \<rparr>, CurrentCluster := FirstCluster fd \<rparr>"
  have "m' = set_file_data f ?fd m" using assms(5) True f by (simp add: FAT_Close_def)
  then show ?thesis
    using keeps_set [OF assms(1,4,2), of ?fd] f assms(1) by (simp add: keeps_def fat_ok_def)
next
  case False
  then have f: "f = SlotFile (unat (Handle (Public fd)))" using assms(3) by (simp add: target_def)
  then have m': "m' = set_file_data f (fd \<lparr> Opened := False \<rparr>) m"
    using assms(2,5) False by (auto simp: FAT_Close_def bindE_eq_Inr)
  have "length (Buffer fd) = 512"
    using assms(1,2) by (cases f) (auto simp: keeps_def fat_ok_def split: if_splits)
  then show ?thesis
    unfolding m' by (intro keeps_set [OF assms(1,4,2)]) (use f in simp_all)
qed

lemma open_path_keeps:
  assumes "\<forall>i \<in> K. i < MAX_FILE_HANDLES \<and> Opened (OpenedFiles m0 ! i)"
    and "keeps K m0 m" and "current_ok K m current"
    and "open_path bios disk path name current m = Some (Inr (f, m'))"
  shows "keeps K m0 m' \<and> current_ok K m' f"
  using assms(2-4)
proof (induction bios disk path name current m rule: open_path.induct)
  case (1 bios disk path name current m)
  show ?case
  proof (cases "path = []")
    case True
    then show ?thesis using "1.prems" by (simp add: open_path.simps [of bios disk "[]"])
  next
    case False
    from "1.prems"(3) False obtain name' path' isLast where
      next_name: "next_name path name = Inr (name', path', isLast)"
      by (auto simp: open_path.simps [of bios disk path] split: sum.splits)
    from "1.prems"(3) False next_name obtain found m1 where
      found: "FAT_FindFile bios disk current name' m = Some (Inr (found, m1))"
      by (auto simp: open_path.simps [of bios disk path] split: option.splits sum.splits)
    from "1.prems"(3) False next_name found obtain m2 where close: "FAT_Close current m1 = Inr m2"
      by (auto simp: open_path.simps [of bios disk path] split: sum.splits)
    have "current \<noteq> NullFile" using close by (auto simp: FAT_Close_def)
    with "1.prems"(1,2) obtain fd where fd: "file_data current m = Inr fd" "target fd = current" "outside K current"
      by (rule current_handle)
    have r0: "reading K m0 current (Handle (Public fd)) (Opened fd) m"
      using "1.prems"(1) fd by (simp add: reading_def)
    have "outside K (target fd')"
      if "reading K m0 current (Handle (Public fd)) (Opened fd) m" "file_data current m = Inr fd'" for m fd'
      using that fd by (auto simp: reading_def target_def)
    then have r1: "reading K m0 current (Handle (Public fd)) (Opened fd) m1"
      using r0 found by (rule reading.FAT_FindFile)
    then obtain fd1 where fd1: "keeps K m0 m1" "file_data current m1 = Inr fd1" "target fd1 = current"
      using fd(2) by (auto simp: reading_def target_def)
    have m2: "keeps K m0 m2" by (rule FAT_Close_keeps [OF fd1 fd(3) close])
    have logged: ?thesis if "bindE (boot_log level fatlogid fmt args m2) (\<lambda>m. Inr (NullFile, m)) = Inr (f, m')" for level fmt args
      using that handles.logging [OF m2] by (auto simp: bindE_eq_Inr current_ok_def opened_at_def)
    show ?thesis
    proof (cases found)
      case None
      then show ?thesis
        using "1.prems"(3) False next_name found close logged by (simp add: open_path.simps [of bios disk path])
    next
      case (Some entry)
      show ?thesis
      proof (cases "\<not> isLast \<and> Attributes entry AND FAT_ATTRIBUTE_DIRECTORY = 0")
        case True
        then show ?thesis
          using "1.prems"(3) False next_name found close Some logged by (simp add: open_path.simps [of bios disk path])
      next
        case dir: False
        from "1.prems"(3) False next_name found close Some dir obtain m3 next_f m4 where
          m3: "boot_log LOG_NORMAL fatlogid ''Opening %s'' [Str name'] m2 = Inr m3"
          and entry: "FAT_OpenEntry bios disk entry m3 = Inr (next_f, m4)"
          and rest: "open_path bios disk path' name' next_f m4 = Some (Inr (f, m'))"
          by (auto simp: open_path.simps [of bios disk path] bindE_eq_Inr split: sum.splits)
        have k3: "keeps K m0 m3" by (rule handles.logging [OF m2 m3])
        then have "\<forall>i \<in> K. Opened (OpenedFiles m3 ! i)" using assms(1) by (simp add: keeps_def)
        from FAT_OpenEntry_keeps [OF k3 this entry]
        have k4: "keeps K m0 m4" "current_ok K m4 next_f" by (simp_all add: current_ok_def)
        have "bindE (boot_log LOG_NORMAL fatlogid ''Opening %s'' [Str name'] m2) (\<lambda>m. FAT_OpenEntry bios disk entry m) =
            Inr (next_f, m4)"
          using m3 entry by simp
        from "1.IH" [OF False next_name refl refl found refl refl close Some dir this refl k4 rest]
        show ?thesis .
      qed
    qed
  qed
qed

text \<open>
  C8: Whatever the BIOS returns and the disk holds, \<^verbatim>\<open>FAT_Open\<close> on handles in order leaves them in order; the
  files that were open before are untouched; and the pointer it returns is \<^verbatim>\<open>NULL\<close>, the root directory's or
  that of an open handle that was free before.
\<close>

theorem FAT_Open_keeps_files:
  assumes "fat_ok m" and "FAT_Open bios disk path junk m = Some (Inr (f, m'))"
  shows "fat_ok m' \<and>
    (f = NullFile \<or> f = RootFile \<or> (\<exists>i < MAX_FILE_HANDLES. f = SlotFile i \<and> Opened (OpenedFiles m' ! i))) \<and>
    {i. i < MAX_FILE_HANDLES \<and> Opened (OpenedFiles m ! i)} \<subseteq>
      {i. OpenedFiles m' ! i = OpenedFiles m ! i \<and> f \<noteq> SlotFile i}"
proof -
  let ?K = "{i. i < MAX_FILE_HANDLES \<and> Opened (OpenedFiles m ! i)}"
  have "keeps ?K m m' \<and> current_ok ?K m' f"
    by (rule open_path_keeps [of ?K m m RootFile])
      (use assms in \<open>simp_all add: keeps_def current_ok_def FAT_Open_def Let_def\<close>)
  then show ?thesis by (auto simp: keeps_def current_ok_def opened_at_def)
qed

text \<open>
  Whatever the BIOS returns, reading from the root directory or from an open file leaves the handles in
  order and every other file as it was.
\<close>

theorem FAT_Read_keeps_files:
  assumes "fat_ok m" and "f = RootFile \<or> (\<exists>i < MAX_FILE_HANDLES. f = SlotFile i \<and> Opened (OpenedFiles m ! i))"
    and "FAT_Read bios disk f n m = Inr (bytes, m')"
  shows "fat_ok m' \<and> {i. f \<noteq> SlotFile i} \<subseteq> {i. OpenedFiles m' ! i = OpenedFiles m ! i}"
proof -
  let ?K = "{i. f \<noteq> SlotFile i}"
  have m: "keeps ?K m m" using assms(1) by (simp add: keeps_def)
  moreover have "current_ok ?K m f" using assms(2) by (auto simp: current_ok_def opened_at_def)
  moreover have "f \<noteq> NullFile" using assms(2) by auto
  ultimately obtain fd where fd: "file_data f m = Inr fd" "target fd = f" "outside ?K f" by (rule current_handle)
  have "keeps ?K m m'" by (rule handles.FAT_Read [OF m fd(1) _ assms(3)]) (simp only: fd)
  then show ?thesis by (auto simp: keeps_def)
qed

end
