(* ===== verification/Fat_Open.thy ===== *)
theory Fat_Open
  imports Fat_Handles Fat_Names Fat_Read
begin

text \<open>
  Mounting a volume and opening a file of its root directory, on a disk without errors: what
  \<^verbatim>\<open>FAT_Initialize\<close>, \<^verbatim>\<open>FAT_FindFile\<close>, \<^verbatim>\<open>FAT_OpenEntry\<close> and \<^verbatim>\<open>FAT_Open\<close> do with the contents of the disk.
\<close>

section \<open>Messages\<close>

lemma length_fatlogid [simp]: "length fatlogid = 8"
  by (simp add: fatlogid_def)

lemma log_fat_names [log_facts]:
  "logged m (boot_log level fatlogid ''Opening %s'' [Str cs] m)"
  "logged m (boot_log level fatlogid ''file \"%s\" not found'' [Str cs] m)"
  "logged m (boot_log level fatlogid ''%s is not a directory'' [Str cs] m)"
  by (rule boot_log_logged; simp add: log_format.simps(2))+

section \<open>Volumes\<close>

text \<open>The layout a boot sector describes, in sectors of the disk.\<close>

definition table_lba :: "u8 list \<Rightarrow> nat" where "table_lba b = unat (le16_at b 14)"
definition table_sectors :: "u8 list \<Rightarrow> nat" where "table_sectors b = unat (le16_at b 22)"
definition root_lba :: "u8 list \<Rightarrow> nat" where "root_lba b = table_lba b + table_sectors b * unat (b ! 16)"
definition root_entries :: "u8 list \<Rightarrow> nat" where "root_entries b = unat (le16_at b 17)"
definition data_lba :: "u8 list \<Rightarrow> nat" where "data_lba b = root_lba b + (32 * root_entries b + 511) div 512"

definition volume_ok :: "DISK \<Rightarrow> u8 list \<Rightarrow> bool" where
  "volume_ok disk b \<longleftrightarrow> b ! 38 = 0x29 \<and> le16_at b 11 = 512 \<and> table_sectors b \<le> 115 \<and> root_entries b \<noteq> 0 \<and>
     data_lba b < disk_size disk"

text \<open>The memory of \<^verbatim>\<open>FAT_Data\<close> and the table behind it, before the volume is mounted.\<close>

definition storage_ok :: "('w, 'e) fat_machine_scheme \<Rightarrow> bool" where
  "storage_ok m \<longleftrightarrow> length (BootSectorBytes m) = 512 \<and> length (Buffer (RootDirectory m)) = 512 \<and>
     length (OpenedFiles m) = MAX_FILE_HANDLES \<and> (\<forall>fd \<in> set (OpenedFiles m). length (Buffer fd) = 512) \<and>
     length (fat m) = unat (MEMORY_FAT_SIZE - sizeof_FAT_Data)"

text \<open>The root directory as a file: the sector of entry \<open>k\<close> is in its buffer.\<close>

definition root_file :: "(nat \<Rightarrow> u8 list) \<Rightarrow> nat \<Rightarrow> FAT_FileData" where
  "root_file img k = (let b = img 0 in \<lparr> Buffer = img (root_lba b + k div 16),
     Public = \<lparr> Handle = ROOT_DIRECTORY_HANDLE, IsDirectory = True, Position = of_nat (32 * k),
                Size = of_nat (32 * root_entries b) \<rparr>,
     Opened = True, FirstCluster = of_nat (root_lba b), CurrentCluster = of_nat (root_lba b + k div 16),
     CurrentSectorInCluster = 0 \<rparr>)"

definition mounted :: "(nat \<Rightarrow> u8 list) \<Rightarrow> ('w, 'e) fat_machine_scheme \<Rightarrow> ('w, 'e) fat_machine_scheme" where
  "mounted img m = (let b = img 0 in m \<lparr> BootSectorBytes := b,
     fat := sector_data img (table_lba b) (table_sectors b) @ drop (512 * table_sectors b) (fat m),
     RootDirectory := root_file img 0, dataSectionLba := of_nat (data_lba b),
     OpenedFiles := map (\<lambda>fd. fd \<lparr> Opened := False \<rparr>) (OpenedFiles m) \<rparr>)"

lemma volume_bounds:
  assumes "volume_ok disk b" and "geometry_ok disk"
  shows "root_lba b \<le> data_lba b" "data_lba b < disk_size disk" "disk_size disk < 2 ^ 24" "root_entries b < 2 ^ 16"
    "table_lba b \<le> root_lba b"
proof -
  show "root_lba b \<le> data_lba b" by (simp add: data_lba_def)
  show "data_lba b < disk_size disk" using assms(1) by (simp add: volume_ok_def)
  show "table_lba b \<le> root_lba b" by (simp add: root_lba_def)
  show "root_entries b < 2 ^ 16" using unsigned_less [of "le16_at b 17", where ?'a = nat] by (simp add: root_entries_def)
  have "disk_size disk \<le> 1024 * 256 * 63"
    unfolding disk_size_def using assms(2) by (intro mult_le_mono) (simp_all add: geometry_ok_def)
  then show "disk_size disk < 2 ^ 24" by simp
qed

lemma sizeof_FAT_Data_value: "sizeof_FAT_Data = 6496"
  by (simp add: sizeof_FAT_Data_def sizeof_FileData_def)

lemma rootDirLba_eq:
  "ucast (le16_at b 14) + ucast (le16_at b 22) * ucast (b ! 16) = (of_nat (root_lba b) :: u32)"
  by (simp add: root_lba_def table_lba_def table_sectors_def)

lemma open_root_ok:
  fixes m :: "('w, 'e) fat_machine_scheme"
  assumes "reads_ok bios disk img" and "volume_ok disk (img 0)" and "BootSectorBytes m = img 0"
    and "length (Buffer (RootDirectory m)) = 512"
  shows "\<exists>c w. open_root bios disk m = Inr (0, m \<lparr> RootDirectory := root_file img 0,
    dataSectionLba := of_nat (data_lba (img 0)),
    OpenedFiles := map (\<lambda>fd. fd \<lparr> Opened := False \<rparr>) (OpenedFiles m) \<rparr> \<lparr> console := c, world := w \<rparr>)"
proof -
  let ?b = "img 0"
  note bios = assms(1) [unfolded reads_ok_def]
  note bounds = volume_bounds [OF assms(2) conjunct1 [OF conjunct2 [OF bios]]]
  have lba: "ucast (ReservedSectors m) + ucast (SectorsPerFat m) * ucast (FatCount m) = (of_nat (root_lba ?b) :: u32)"
    by (simp only: ReservedSectors_def SectorsPerFat_def FatCount_def assms(3) rootDirLba_eq)
  have root_size: "sizeof_DirectoryEntry * ucast (DirEntryCount m) = of_nat (32 * root_entries ?b)"
    by (simp add: sizeof_DirectoryEntry_def DirEntryCount_def assms(3) root_entries_def)
  have bps: "BytesPerSector m' = 512" if "BootSectorBytes m' = ?b" for m' :: "('w, 'e) fat_machine_scheme"
    using assms(2) that by (simp add: BytesPerSector_def volume_ok_def)
  have u: "unat (of_nat (32 * root_entries ?b) + 512 - 1 :: u32) = 32 * root_entries ?b + 511"
  proof -
    have "of_nat (32 * root_entries ?b) + 512 - 1 = (of_nat (32 * root_entries ?b + 511) :: u32)" by simp
    also have "unat \<dots> = 32 * root_entries ?b + 511" by (rule unat_of_nat_small) (use bounds(4) in simp)
    finally show ?thesis .
  qed
  have sectors: "(of_nat (32 * root_entries ?b) + 512 - 1) div 512 = (of_nat ((32 * root_entries ?b + 511) div 512) :: u32)"
    unfolding word_unat_eq_iff unat_div u
    by (subst unat_of_nat_small) (use bounds(4) in simp_all)
  define root where "root = RootDirectory m \<lparr>
      Public := \<lparr> Handle = ROOT_DIRECTORY_HANDLE, IsDirectory = True, Position = 0,
                  Size = of_nat (32 * root_entries ?b) \<rparr>,
      Opened := True, FirstCluster := of_nat (root_lba ?b), CurrentCluster := of_nat (root_lba ?b),
      CurrentSectorInCluster := 0 \<rparr>"
  let ?m1 = "m \<lparr> RootDirectory := root \<rparr>"
  have "unat (of_nat (root_lba ?b) :: u32) = root_lba ?b" using bounds by simp
  moreover have "buffer_address RootFile < 0x100000" by (simp add: MEMORY_FAT_ADDR_def)
  moreover have "length (Buffer root) = 512" by (simp add: root_def assms(4))
  moreover have "sector_data img (root_lba ?b) 1 = img (root_lba ?b)" by (simp add: sector_data_def)
  ultimately obtain c w where read: "DISK_ReadSectors bios disk (of_nat (root_lba ?b)) 1 (buffer_address RootFile) (Buffer root) ?m1 =
      Inr (0, img (root_lba ?b), ?m1 \<lparr> console := c, world := w \<rparr>)"
    using DISK_ReadSectors_ok [OF assms(1), of "of_nat (root_lba ?b)" "buffer_address RootFile" 1 "Buffer root" ?m1] bounds
    by (auto simp del: buffer_address.simps)
  have "root \<lparr> Buffer := img (root_lba ?b) \<rparr> = root_file img 0"
    by (simp add: root_def root_file_def Let_def)
  moreover have "of_nat (root_lba ?b) + of_nat ((32 * root_entries ?b + 511) div 512) = (of_nat (data_lba ?b) :: u32)"
    by (simp add: data_lba_def)
  ultimately show ?thesis
    unfolding open_root_def Let_def lba root_size root_def [symmetric] read bindE_simps prod.case
    by (intro exI [of _ c] exI [of _ w]) (simp add: bps assms(3) sectors [simplified])
qed

lemma FAT_Initialize_ok:
  fixes m :: "('w, 'e) fat_machine_scheme"
  assumes "reads_ok bios disk img" and "volume_ok disk (img 0)" and "storage_ok m"
  shows "\<exists>c w. FAT_Initialize bios disk m = Inr (0, mounted img m \<lparr> console := c, world := w \<rparr>)"
proof -
  let ?b = "img 0" and ?n = "table_sectors (img 0)"
  note bios = assms(1) [unfolded reads_ok_def]
  note bounds = volume_bounds [OF assms(2) conjunct1 [OF conjunct2 [OF bios]]]
  have sectors: "sector_data img 0 1 = ?b" "length ?b = 512"
    using bios by (simp_all add: sector_data_def reads_disk_def)
  have n: "?n \<le> 115" "unat (ucast (le16_at ?b 22) :: u8) = ?n"
    using assms(2) by (simp_all add: volume_ok_def table_sectors_def unsigned_ucast_eq take_bit_nat_eq_self)
  obtain c1 w1 where boot: "DISK_ReadSectors bios disk 0 1 MEMORY_FAT_ADDR (BootSectorBytes m) m =
      Inr (0, ?b, m \<lparr> console := c1, world := w1 \<rparr>)"
    using DISK_ReadSectors_ok [OF assms(1), of 0 MEMORY_FAT_ADDR 1 "BootSectorBytes m" m] assms(3) bounds sectors
    by (auto simp: MEMORY_FAT_ADDR_def storage_ok_def)
  let ?m1 = "m \<lparr> console := c1, world := w1 \<rparr> \<lparr> BootSectorBytes := ?b \<rparr>"
  have fields: "Signature ?m1 = 0x29" "BytesPerSector ?m1 = 512" "SectorsPerFat ?m1 = le16_at ?b 22"
    "ReservedSectors ?m1 = le16_at ?b 14"
    using assms(2) by (simp_all add: Signature_def BytesPerSector_def SectorsPerFat_def ReservedSectors_def volume_ok_def)
  have size: "sizeof_FAT_Data + 512 * ucast (le16_at ?b 22) = (of_nat (6496 + 512 * ?n) :: u32)"
    by (simp add: sizeof_FAT_Data_value table_sectors_def)
  have "unat (of_nat (6496 + 512 * ?n) :: u32) = 6496 + 512 * ?n"
    by (rule unat_of_nat_small) (use n in simp)
  then have fits: "\<not> MEMORY_FAT_SIZE \<le> of_nat (6496 + 512 * ?n)"
    unfolding word_le_nat_alt using n by (simp add: MEMORY_FAT_SIZE_def del: of_nat_add of_nat_mult)
  have "unat (ucast (le16_at ?b 14) :: u32) = table_lba ?b" by (simp add: table_lba_def)
  moreover have "MEMORY_FAT_ADDR + sizeof_FAT_Data < 0x100000" by (simp add: MEMORY_FAT_ADDR_def sizeof_FAT_Data_value)
  moreover have "512 * ?n \<le> length (fat m)"
    using assms(3) n by (simp add: storage_ok_def MEMORY_FAT_SIZE_def sizeof_FAT_Data_value)
  ultimately obtain c2 w2 where table: "DISK_ReadSectors bios disk (ucast (le16_at ?b 14)) (ucast (le16_at ?b 22))
      (MEMORY_FAT_ADDR + sizeof_FAT_Data) (fat m) ?m1 =
      Inr (0, sector_data img (table_lba ?b) ?n @ drop (512 * ?n) (fat m), ?m1 \<lparr> console := c2, world := w2 \<rparr>)"
    using DISK_ReadSectors_ok [OF assms(1), of "ucast (le16_at ?b 14)" "MEMORY_FAT_ADDR + sizeof_FAT_Data"
        "ucast (le16_at ?b 22)" "fat m" ?m1] bounds n
    by auto
  let ?m2 = "?m1 \<lparr> console := c2, world := w2 \<rparr>
    \<lparr> fat := sector_data img (table_lba ?b) ?n @ drop (512 * ?n) (fat m) \<rparr>"
  obtain c3 w3 where root: "open_root bios disk ?m2 = Inr (0, ?m2 \<lparr> RootDirectory := root_file img 0,
    dataSectionLba := of_nat (data_lba (img 0)),
    OpenedFiles := map (\<lambda>fd. fd \<lparr> Opened := False \<rparr>) (OpenedFiles ?m2) \<rparr> \<lparr> console := c3, world := w3 \<rparr>)"
    using open_root_ok [OF assms(1,2), of ?m2] assms(3) by (auto simp: storage_ok_def)
  have "FAT_Initialize bios disk m = open_root bios disk ?m2"
    using boot fields table fits by (simp add: FAT_Initialize_def Let_def size del: of_nat_add of_nat_mult)
  with root show ?thesis
    by (intro exI [of _ c3] exI [of _ w3]) (simp add: mounted_def Let_def)
qed

section \<open>The entries of the root directory\<close>

definition root_entry :: "(nat \<Rightarrow> u8 list) \<Rightarrow> nat \<Rightarrow> u8 list" where
  "root_entry img k = take 32 (drop (32 * (k mod 16)) (img (root_lba (img 0) + k div 16)))"

lemma root_sector_step: "(32 * (k mod 16) + 32) div 512 + k div 16 = Suc k div 16" for k :: nat
proof -
  have "(32 * (k mod 16) + 32) div 512 = (32 * (k mod 16 + 1)) div (32 * 16)" by simp
  also have "\<dots> = (k mod 16 + 1) div 16" by (rule div_mult_mult1) simp
  finally have "(32 * (k mod 16) + 32) div 512 = (k mod 16 + 1) div 16" .
  moreover have "Suc k = (k mod 16 + 1) + k div 16 * 16" by simp
  then have "Suc k div 16 = k div 16 + (k mod 16 + 1) div 16" by (metis div_mult_self1 zero_neq_numeral)
  ultimately show ?thesis by simp
qed

lemma read_root_entry:
  fixes m :: "('w, 'e) fat_machine_scheme"
  assumes "reads_ok bios disk img" and "volume_ok disk (img 0)" and "RootDirectory m = root_file img k"
    and "k < root_entries (img 0)"
  shows "\<exists>c w. FAT_ReadEntry bios disk RootFile m =
    Inr (True, root_entry img k, m \<lparr> RootDirectory := root_file img (Suc k) \<rparr> \<lparr> console := c, world := w \<rparr>)"
proof -
  let ?b = "img 0" and ?d = "(32 * (k mod 16) + 32) div 512"
  note bios = assms(1) [unfolded reads_ok_def]
  note bounds = volume_bounds [OF assms(2) conjunct1 [OF conjunct2 [OF bios]]]
  define sec where "sec j = (of_nat (root_lba ?b + k div 16 + j) :: u32, 0 :: u32)" for j
  let ?fd = "root_file img k"
  have len: "length (img j) = 512" for j using bios by (simp add: reads_disk_def)
  have use: "in_use RootFile ?fd m" by (simp add: in_use_def assms(3)) (simp add: root_file_def Let_def len)
  have small: "32 * k < 2 ^ 31" "32 * root_entries ?b < 2 ^ 31" "32 * k \<le> 32 * root_entries ?b"
    using assms(4) bounds(4) by simp_all
  have u: "unat (of_nat (32 * k) :: u32) = 32 * k" "unat (of_nat (32 * root_entries ?b) :: u32) = 32 * root_entries ?b"
    by (rule unat_of_nat_small; use small in simp)+
  have pub: "Position (Public ?fd) = of_nat (32 * k)" "Size (Public ?fd) = of_nat (32 * root_entries ?b)"
    "IsDirectory (Public ?fd)" by (simp_all only: root_file_def Let_def FAT_FileData.simps FAT_File.simps)
  have pos: "position_ok (Public ?fd)"
    unfolding position_ok_def pub word_le_nat_alt u using small assms(4) u(2) by auto
  have wanted: "wanted (Public ?fd) sizeof_DirectoryEntry = 32"
    unfolding wanted_def pub u using assms(4) by (simp add: sizeof_DirectoryEntry_def)
  have p: "unat (Position (Public ?fd)) mod 512 = 32 * (k mod 16)"
    unfolding pub u using mult_mod_right [of 32 k 16] by simp
  have "k div 16 + ?d \<le> (32 * root_entries ?b + 511) div 512"
  proof -
    have "k div 16 + ?d = Suc k div 16" using root_sector_step [of k] by simp
    also have "\<dots> \<le> root_entries ?b div 16" using assms(4) by (intro div_le_mono) simp
    also have "\<dots> = (32 * root_entries ?b) div 512" using div_mult_mult1 [of 32 "root_entries ?b" 16] by simp
    also have "\<dots> \<le> (32 * root_entries ?b + 511) div 512" by (rule div_le_mono) simp
    finally show ?thesis .
  qed
  then have end_lba: "root_lba ?b + k div 16 + ?d < disk_size disk"
    using bounds(2) by (simp add: data_lba_def)
  have lba: "unat (loc_lba RootFile m (sec j)) = root_lba ?b + k div 16 + j" if "j \<le> ?d" for j
    unfolding loc_lba_def sec_def using that end_lba bounds(3) by (simp del: of_nat_add)
  have chain: "chain disk RootFile m sec ?d"
    unfolding chain_def
  proof (intro allI impI conjI)
    fix j assume "j < ?d"
    then show "unat (loc_lba RootFile m (sec (Suc j))) < disk_size disk" using lba [of "Suc j"] end_lba by simp
  qed (simp_all add: next_loc_def sec_def)
  have at: "sector_at img RootFile m (sec j) = img (root_lba ?b + k div 16 + j)" if "j \<le> ?d" for j
    by (simp add: sector_at_def lba [OF that])
  obtain c w where "FAT_Read bios disk RootFile sizeof_DirectoryEntry m =
      Inr (take 32 (drop (32 * (k mod 16)) (file_bytes img RootFile m sec (Suc ?d))),
         set_file_data RootFile (at_loc (sec ?d) (sector_at img RootFile m (sec ?d)) (moved ?fd (of_nat 32))) m
           \<lparr> console := c, world := w \<rparr>)"
    using FAT_Read_reads [OF assms(1) use pos, of sizeof_DirectoryEntry sec] chain at [of 0]
    unfolding wanted p by (auto simp: sizeof_DirectoryEntry_def sec_def root_file_def Let_def)
  moreover have "take 32 (drop (32 * (k mod 16)) (file_bytes img RootFile m sec (Suc ?d))) = root_entry img k"
    unfolding file_bytes_Suc root_entry_def using at [of 0] len
    by (subst take_drop_within) (auto simp: less_Suc_eq_le)
  moreover have "at_loc (sec ?d) (sector_at img RootFile m (sec ?d)) (moved ?fd (of_nat 32)) = root_file img (Suc k)"
  proof -
    have next_lba: "root_lba ?b + k div 16 + ?d = root_lba ?b + Suc k div 16" using root_sector_step [of k] by simp
    have there: "sector_at img RootFile m (sec ?d) = img (root_lba ?b + Suc k div 16)"
      "sec ?d = (of_nat (root_lba ?b + Suc k div 16), 0)"
      using at [of ?d] unfolding next_lba sec_def by simp_all
    show ?thesis
      unfolding there(1) unfolding there(2) at_loc_def moved_def by (simp add: root_file_def Let_def add.commute)
  qed
  moreover have "length (root_entry img k) = 32"
    by (simp add: root_entry_def len)
  ultimately show ?thesis
    by (intro exI [of _ c] exI [of _ w]) (simp add: FAT_ReadEntry_def sizeof_DirectoryEntry_def)
qed

section \<open>Searching a directory\<close>

text \<open>
  What the search in \<^verbatim>\<open>FAT_FindFile\<close> needs of a directory: \<open>standing k\<close> is the state in which its first \<open>k\<close>
  entries have been read, and reading goes on with the next one.  The root directory and the directories below
  it are both of this kind.
\<close>

definition first_named :: "(nat \<Rightarrow> u8 list) \<Rightarrow> u8 list \<Rightarrow> nat \<Rightarrow> nat \<Rightarrow> nat option" where
  "first_named entry fatName i n = List.find (\<lambda>k. take 11 (entry k) = take 11 fatName) [i..<n]"

lemma compare_name:
  assumes "11 \<le> length fatName" and "length bytes = 32"
  shows "bytes_cmp (take 11 fatName) (Name (directory_entry bytes)) = 0 \<longleftrightarrow> take 11 bytes = take 11 fatName"
proof -
  have "bytes_cmp (take 11 fatName) (take 11 bytes) = 0 \<longleftrightarrow> take 11 fatName = take 11 bytes"
    by (rule bytes_cmp_eq_0) (use assms in simp)
  then show ?thesis by (auto simp: directory_entry_def)
qed

locale directory =
  fixes bios :: "'w bios"
    and disk :: DISK
    and loc :: file_ptr
    and standing :: "nat \<Rightarrow> ('w, 'e) fat_machine_scheme \<Rightarrow> bool"
    and entry :: "nat \<Rightarrow> u8 list"
    and entries :: nat
  assumes read_entry: "standing k m \<Longrightarrow> k < entries \<Longrightarrow>
      \<exists>m'. FAT_ReadEntry bios disk loc m = Inr (True, entry k, m') \<and> standing (Suc k) m'"
    and length_entry: "standing k m \<Longrightarrow> k < entries \<Longrightarrow> length (entry k) = 32"
begin

text \<open>The search stops at the first entry with the name or comes to the end of the directory.\<close>

lemma search:
  assumes "standing i m" and "i \<le> entries" and "11 \<le> length fatName"
  shows "case first_named entry fatName i entries of
      None \<Rightarrow> \<exists>m'. find_entry bios disk loc fatName m = find_entry bios disk loc fatName m' \<and> standing entries m'
    | Some k \<Rightarrow> \<exists>m'. find_entry bios disk loc fatName m = Some (Inr (Some (directory_entry (entry k)), m')) \<and>
        standing (Suc k) m'"
  using assms(1,2)
proof (induction "entries - i" arbitrary: i m)
  case 0
  then show ?case by (auto simp: first_named_def)
next
  case (Suc n)
  let ?same = "take 11 (entry i) = take 11 fatName"
  have i: "i < entries" "n = entries - Suc i" "Suc i \<le> entries" using Suc.hyps(2) by simp_all
  obtain m' where read: "FAT_ReadEntry bios disk loc m = Inr (True, entry i, m')" and m': "standing (Suc i) m'"
    using read_entry [OF Suc.prems(1) i(1)] by (elim exE conjE)
  note cmp = compare_name [OF assms(3) length_entry [OF Suc.prems(1) i(1)]]
  have "find_entry bios disk loc fatName m =
      (if ?same then Some (Inr (Some (directory_entry (entry i)), m')) else find_entry bios disk loc fatName m')"
    by (subst find_entry.simps) (simp add: read cmp Let_def)
  moreover have "first_named entry fatName i entries = (if ?same then Some i else first_named entry fatName (Suc i) entries)"
    using i(1) by (simp add: first_named_def upt_conv_Cons del: upt_Suc)
  ultimately show ?case
    using Suc.hyps(1) [OF i(2) m' i(3)] m' by (auto split: option.splits)
qed

end

text \<open>The root directory is one, on a disk without errors.\<close>

definition root_standing ::
  "'w bios \<Rightarrow> DISK \<Rightarrow> (nat \<Rightarrow> u8 list) \<Rightarrow> ('w, 'e) fat_machine_scheme \<Rightarrow> nat \<Rightarrow> ('w, 'e) fat_machine_scheme \<Rightarrow> bool" where
  "root_standing bios disk img m0 k m \<longleftrightarrow> reads_ok bios disk img \<and> volume_ok disk (img 0) \<and>
     (\<exists>c w. m = m0 \<lparr> RootDirectory := root_file img k \<rparr> \<lparr> console := c, world := w \<rparr>)"

lemma root_standing_0:
  assumes "reads_ok bios disk img" and "volume_ok disk (img 0)" and "RootDirectory m = root_file img 0"
  shows "root_standing bios disk img m 0 m"
proof -
  have "m = m \<lparr> RootDirectory := root_file img 0 \<rparr> \<lparr> console := console m, world := world m \<rparr>"
    using assms(3) by (cases m) simp
  then show ?thesis using assms(1,2) unfolding root_standing_def by blast
qed

interpretation root: directory bios disk RootFile "root_standing bios disk img m0" "root_entry img" "root_entries (img 0)"
  for bios disk img m0
proof
  fix k and m :: "('a, 'b) fat_machine_scheme"
  assume m: "root_standing bios disk img m0 k m" and k: "k < root_entries (img 0)"
  then have hyps: "reads_ok bios disk img" "volume_ok disk (img 0)" by (simp_all add: root_standing_def)
  have root: "RootDirectory m = root_file img k" using m by (auto simp: root_standing_def)
  obtain c w where "FAT_ReadEntry bios disk RootFile m =
      Inr (True, root_entry img k, m \<lparr> RootDirectory := root_file img (Suc k) \<rparr> \<lparr> console := c, world := w \<rparr>)"
    using read_root_entry [OF hyps root k] by (elim exE)
  moreover have "root_standing bios disk img m0 (Suc k) (m \<lparr> RootDirectory := root_file img (Suc k) \<rparr> \<lparr> console := c, world := w \<rparr>)"
    using m unfolding root_standing_def by (elim exE conjE) (intro conjI exI [of _ c] exI [of _ w], simp_all)
  ultimately show "\<exists>m'. FAT_ReadEntry bios disk RootFile m = Inr (True, root_entry img k, m') \<and>
      root_standing bios disk img m0 (Suc k) m'" by blast
  show "length (root_entry img k) = 32"
    using hyps(1) by (simp add: root_entry_def reads_ok_def reads_disk_def)
qed

text \<open>The search of the root directory: \<open>found_at\<close> is the first entry with a name.\<close>

definition named :: "(nat \<Rightarrow> u8 list) \<Rightarrow> u8 list \<Rightarrow> nat \<Rightarrow> bool" where
  "named img fatName k \<longleftrightarrow> take 11 (root_entry img k) = take 11 fatName"

definition found_at :: "(nat \<Rightarrow> u8 list) \<Rightarrow> u8 list \<Rightarrow> nat \<Rightarrow> bool" where
  "found_at img fatName k \<longleftrightarrow> k < root_entries (img 0) \<and> named img fatName k \<and> (\<forall>j < k. \<not> named img fatName j)"

lemma found_at_first: "found_at img fatName k \<Longrightarrow> first_named (root_entry img) fatName 0 (root_entries (img 0)) = Some k"
  by (auto simp: found_at_def named_def first_named_def find_Some_iff)

lemma find_entry_finds:
  fixes m :: "('w, 'e) fat_machine_scheme"
  assumes "reads_ok bios disk img" and "volume_ok disk (img 0)" and "11 \<le> length fatName"
    and "found_at img fatName k" and "RootDirectory m = root_file img 0"
  shows "\<exists>c w. find_entry bios disk RootFile fatName m = Some (Inr (Some (directory_entry (root_entry img k)),
      m \<lparr> RootDirectory := root_file img (Suc k) \<rparr> \<lparr> console := c, world := w \<rparr>))"
  using root.search [OF root_standing_0 [OF assms(1,2,5)] _ assms(3)] found_at_first [OF assms(4)]
  by (auto simp: root_standing_def)

lemma root_end:
  fixes m :: "('w, 'e) fat_machine_scheme"
  assumes "reads_ok bios disk img" and "volume_ok disk (img 0)" and "RootDirectory m = root_file img (root_entries (img 0))"
  shows "FAT_ReadEntry bios disk RootFile m = Inr (False, [], m)"
proof -
  let ?E = "root_entries (img 0)"
  have bios: "geometry_ok disk" "length (img j) = 512" for j using assms(1) by (simp_all add: reads_ok_def reads_disk_def)
  have use: "in_use RootFile (root_file img ?E) m" by (simp add: in_use_def assms(3)) (simp add: root_file_def Let_def bios)
  have "?E \<noteq> 0" "32 * ?E < 2 ^ 31"
    using assms(2) volume_bounds(4) [OF assms(2) bios(1)] by (simp_all add: volume_ok_def)
  moreover from this have "unat (of_nat (32 * ?E) :: u32) = 32 * ?E" by (intro unat_of_nat_small) simp
  moreover have pub: "Position (Public (root_file img ?E)) = of_nat (32 * ?E)" "Size (Public (root_file img ?E)) = of_nat (32 * ?E)"
    by (simp_all only: root_file_def Let_def FAT_FileData.simps FAT_File.simps)
  ultimately have "position_ok (Public (root_file img ?E))"
    unfolding position_ok_def pub by auto
  moreover have "wanted (Public (root_file img ?E)) sizeof_DirectoryEntry = 0"
    unfolding wanted_def pub by simp
  ultimately have "FAT_Read bios disk RootFile sizeof_DirectoryEntry m = Inr ([], m)"
    using FAT_Read_loop [OF use, of sizeof_DirectoryEntry bios disk]
    by (simp add: sizeof_DirectoryEntry_def read_loop_0)
  then show ?thesis by (simp add: FAT_ReadEntry_def sizeof_DirectoryEntry_def)
qed

lemma find_entry_fails:
  fixes m :: "('w, 'e) fat_machine_scheme"
  assumes "reads_ok bios disk img" and "volume_ok disk (img 0)" and "11 \<le> length fatName"
    and "\<And>k. k < root_entries (img 0) \<Longrightarrow> \<not> named img fatName k" and "RootDirectory m = root_file img 0"
  shows "\<exists>c w. find_entry bios disk RootFile fatName m = Some (Inr (None,
      m \<lparr> RootDirectory := root_file img (root_entries (img 0)) \<rparr> \<lparr> console := c, world := w \<rparr>))"
proof -
  have "first_named (root_entry img) fatName 0 (root_entries (img 0)) = None"
    using assms(4) by (simp add: first_named_def find_None_iff named_def)
  then obtain m' where m': "find_entry bios disk RootFile fatName m = find_entry bios disk RootFile fatName m'"
      "root_standing bios disk img m (root_entries (img 0)) m'"
    using root.search [OF root_standing_0 [OF assms(1,2,5)] _ assms(3)] by auto
  then have root: "RootDirectory m' = root_file img (root_entries (img 0))" by (auto simp: root_standing_def)
  have "find_entry bios disk RootFile fatName m' = Some (Inr (None, m'))"
    by (subst find_entry.simps) (simp add: root_end [OF assms(1,2) root])
  then show ?thesis using m' by (auto simp: root_standing_def)
qed

section \<open>Opening an entry\<close>

definition entry_cluster :: "FAT_DirectoryEntry \<Rightarrow> u32" where
  "entry_cluster entry = ucast (FirstClusterLow entry) + push_bit 16 (ucast (FirstClusterHigh entry))"

definition opened_file ::
  "(nat \<Rightarrow> u8 list) \<Rightarrow> ('w, 'e) fat_machine_scheme \<Rightarrow> nat \<Rightarrow> FAT_DirectoryEntry \<Rightarrow> FAT_FileData" where
  "opened_file img m h entry = \<lparr> Buffer = img (unat (FAT_ClusterToLba m (entry_cluster entry))),
     Public = \<lparr> Handle = of_nat h, IsDirectory = (Attributes entry AND FAT_ATTRIBUTE_DIRECTORY \<noteq> 0),
                Position = 0, Size = EntrySize entry \<rparr>,
     Opened = True, FirstCluster = entry_cluster entry, CurrentCluster = entry_cluster entry,
     CurrentSectorInCluster = 0 \<rparr>"

lemma FAT_OpenEntry_ok:
  fixes m :: "('w, 'e) fat_machine_scheme"
  assumes "reads_ok bios disk img" and "free_handle (OpenedFiles m) 0 = Some h"
    and "length (OpenedFiles m) = MAX_FILE_HANDLES" and "\<forall>fd \<in> set (OpenedFiles m). length (Buffer fd) = 512"
    and "unat (FAT_ClusterToLba m (entry_cluster entry)) < disk_size disk"
  shows "\<exists>c w. FAT_OpenEntry bios disk entry m = Inr (SlotFile h,
    m \<lparr> OpenedFiles := (OpenedFiles m)[h := opened_file img m h entry] \<rparr> \<lparr> console := c, world := w \<rparr>)"
proof -
  have h: "h < 10" using free_handle_Some [OF assms(2)] assms(3) by (simp add: MAX_FILE_HANDLES_def)
  then have slot: "h < length (OpenedFiles m)" using assms(3) by (simp add: MAX_FILE_HANDLES_def)
  let ?cl = "entry_cluster entry"
  define fd where "fd = (OpenedFiles m ! h) \<lparr>
      Public := \<lparr> Handle = of_nat h, IsDirectory = (Attributes entry AND FAT_ATTRIBUTE_DIRECTORY \<noteq> 0),
                  Position = 0, Size = EntrySize entry \<rparr>,
      FirstCluster := ?cl, CurrentCluster := ?cl, CurrentSectorInCluster := 0 \<rparr>"
  let ?m1 = "set_file_data (SlotFile h) fd m"
  have fd: "length (Buffer fd) = 512" using assms(4) slot by (simp add: fd_def)
  then have use: "in_use (SlotFile h) fd ?m1" using slot h by (simp add: in_use_def fd_def)
  have lba: "FAT_ClusterToLba ?m1 ?cl = FAT_ClusterToLba m ?cl" by (rule cluster_cong(1)) simp_all
  let ?sector = "img (unat (FAT_ClusterToLba m ?cl))"
  have "sector_data img (unat (FAT_ClusterToLba m ?cl)) 1 = ?sector" by (simp add: sector_data_def)
  then obtain c w where read: "DISK_ReadSectors bios disk (FAT_ClusterToLba ?m1 ?cl) 1 (buffer_address (SlotFile h)) (Buffer fd) ?m1 =
      Inr (0, ?sector, ?m1 \<lparr> console := c, world := w \<rparr>)"
    using DISK_ReadSectors_ok [OF assms(1,5) in_use_address [OF use], of 1 "Buffer fd" ?m1] fd
    unfolding lba by auto
  have same: "fd \<lparr> Buffer := ?sector, Opened := True \<rparr> = opened_file img m h entry"
    by (simp add: fd_def opened_file_def)
  have "FAT_OpenEntry bios disk entry m =
      Inr (SlotFile h, set_file_data (SlotFile h) (fd \<lparr> Buffer := ?sector, Opened := True \<rparr>)
        (set_file_data (SlotFile h) (fd \<lparr> Buffer := ?sector \<rparr>) (?m1 \<lparr> console := c, world := w \<rparr>)))"
    unfolding FAT_OpenEntry_def assms(2) option.case Let_def entry_cluster_def [symmetric] fd_def [symmetric]
      read bindE_simps prod.case by simp
  then show ?thesis
    unfolding same by (intro exI [of _ c] exI [of _ w]) simp
qed

section \<open>Opening a file of the root directory\<close>

definition closed_root :: "(nat \<Rightarrow> u8 list) \<Rightarrow> nat \<Rightarrow> FAT_FileData" where
  "closed_root img k = (let fd = root_file img k in
     fd \<lparr> Public := Public fd \<lparr> Position := 0 \<rparr>, CurrentCluster := FirstCluster fd \<rparr>)"

lemma FAT_Close_root:
  "RootDirectory m = root_file img k \<Longrightarrow> FAT_Close RootFile m = Inr (m \<lparr> RootDirectory := closed_root img k \<rparr>)"
  by (simp add: FAT_Close_def closed_root_def Let_def) (simp add: root_file_def Let_def)

lemma FAT_FindFile_root:
  assumes "fat_name name = Inr fatName"
  shows "FAT_FindFile bios disk f name m = find_entry bios disk f fatName m"
  by (simp add: FAT_FindFile_def assms)

lemma name_of_component:
  assumes "component path (base @ ch CHR ''.'' # ext) [] True"
    and "ch CHR ''.'' \<notin> set base" and "length base \<noteq> 11" and "3 \<le> length ext"
    and "length base + length ext + 2 < length name"
  obtains name' where "next_name path name = Inr (name', [], True)" "fat_name name' = Inr (name83 base ext)"
proof -
  have name: "next_name path name = Inr ((base @ ch CHR ''.'' # ext) @ name ! length (base @ ch CHR ''.'' # ext) # 0 #
      drop (length (base @ ch CHR ''.'' # ext) + 2) name, [], True)"
    by (rule next_name_component [OF assms(1)]) (use assms(5) in simp)
  with looked_up [OF assms] show thesis by (intro that) simp_all
qed

lemma open_root_step:
  fixes m :: "('w, 'e) fat_machine_scheme"
  assumes "reads_ok bios disk img" and "volume_ok disk (img 0)" and "RootDirectory m = root_file img 0"
    and "next_name path name = Inr (name', path', isLast)" and "fat_name name' = Inr fatName"
    and "path \<noteq> []" and "11 \<le> length fatName" and "found_at img fatName k"
    and "free_handle (OpenedFiles m) 0 = Some h"
    and "length (OpenedFiles m) = MAX_FILE_HANDLES" and "\<forall>fd \<in> set (OpenedFiles m). length (Buffer fd) = 512"
  defines "entry \<equiv> directory_entry (root_entry img k)"
  assumes "isLast \<or> Attributes entry AND FAT_ATTRIBUTE_DIRECTORY \<noteq> 0"
    and "unat (FAT_ClusterToLba m (entry_cluster entry)) < disk_size disk"
  shows "\<exists>c w. open_path bios disk path name RootFile m = open_path bios disk path' name' (SlotFile h)
    (m \<lparr> RootDirectory := closed_root img (Suc k), OpenedFiles := (OpenedFiles m)[h := opened_file img m h entry] \<rparr>
      \<lparr> console := c, world := w \<rparr>)"
proof -
  obtain c1 w1 where "find_entry bios disk RootFile fatName m = Some (Inr (Some entry,
      m \<lparr> RootDirectory := root_file img (Suc k) \<rparr> \<lparr> console := c1, world := w1 \<rparr>))"
    using find_entry_finds [OF assms(1,2,7,8,3)] unfolding entry_def by blast
  then have find: "FAT_FindFile bios disk RootFile name' m = Some (Inr (Some entry,
      m \<lparr> RootDirectory := root_file img (Suc k) \<rparr> \<lparr> console := c1, world := w1 \<rparr>))"
    by (simp add: FAT_FindFile_root [OF assms(5)])
  let ?m1 = "m \<lparr> RootDirectory := root_file img (Suc k) \<rparr> \<lparr> console := c1, world := w1 \<rparr>"
  let ?m2 = "?m1 \<lparr> RootDirectory := closed_root img (Suc k) \<rparr>"
  have close: "FAT_Close RootFile ?m1 = Inr ?m2" by (rule FAT_Close_root) simp
  obtain c2 where log: "boot_log LOG_NORMAL fatlogid ''Opening %s'' [Str name'] ?m2 = Inr (?m2 \<lparr> console := c2 \<rparr>)"
    using log_fat_names(1) by (rule logged_obtain)
  let ?m3 = "?m2 \<lparr> console := c2 \<rparr>"
  have lba: "FAT_ClusterToLba ?m3 c = FAT_ClusterToLba m c" for c by (rule cluster_cong(1)) simp_all
  have "unat (FAT_ClusterToLba ?m3 (entry_cluster entry)) < disk_size disk" unfolding lba by (rule assms(14))
  then obtain c3 w3 where opened: "FAT_OpenEntry bios disk entry ?m3 = Inr (SlotFile h,
      ?m3 \<lparr> OpenedFiles := (OpenedFiles ?m3)[h := opened_file img ?m3 h entry] \<rparr> \<lparr> console := c3, world := w3 \<rparr>)"
    using FAT_OpenEntry_ok [OF assms(1), of ?m3 h entry] assms(9-11) by auto
  have "opened_file img ?m3 h entry = opened_file img m h entry" by (simp only: opened_file_def lba)
  then have "open_path bios disk path name RootFile m = open_path bios disk path' name' (SlotFile h)
      (?m3 \<lparr> OpenedFiles := (OpenedFiles m)[h := opened_file img m h entry] \<rparr> \<lparr> console := c3, world := w3 \<rparr>)"
    using find close log opened assms(4,6,13)
    by (auto simp: open_path.simps [of bios disk path])
  then show ?thesis by (intro exI [of _ c3] exI [of _ w3]) simp
qed

lemma open_root_found:
  fixes m :: "('w, 'e) fat_machine_scheme"
  assumes "reads_ok bios disk img" and "volume_ok disk (img 0)" and "RootDirectory m = root_file img 0"
    and "next_name path name = Inr (name', [], True)" and "fat_name name' = Inr fatName"
    and "path \<noteq> []" and "11 \<le> length fatName" and "found_at img fatName k"
    and "free_handle (OpenedFiles m) 0 = Some h"
    and "length (OpenedFiles m) = MAX_FILE_HANDLES" and "\<forall>fd \<in> set (OpenedFiles m). length (Buffer fd) = 512"
  defines "entry \<equiv> directory_entry (root_entry img k)"
  assumes "unat (FAT_ClusterToLba m (entry_cluster entry)) < disk_size disk"
  shows "\<exists>c w. open_path bios disk path name RootFile m = Some (Inr (SlotFile h,
    m \<lparr> RootDirectory := closed_root img (Suc k), OpenedFiles := (OpenedFiles m)[h := opened_file img m h entry] \<rparr>
      \<lparr> console := c, world := w \<rparr>))"
  using open_root_step [OF assms(1-11) _ assms(13) [unfolded entry_def]]
  by (auto simp: open_path.simps [of bios disk "[]"] entry_def)

lemma open_root_missing:
  fixes m :: "('w, 'e) fat_machine_scheme"
  assumes "reads_ok bios disk img" and "volume_ok disk (img 0)" and "RootDirectory m = root_file img 0"
    and "next_name path name = Inr (name', [], True)" and "fat_name name' = Inr fatName"
    and "path \<noteq> []" and "11 \<le> length fatName" and "\<And>k. k < root_entries (img 0) \<Longrightarrow> \<not> named img fatName k"
  shows "\<exists>c w. open_path bios disk path name RootFile m = Some (Inr (NullFile,
    m \<lparr> RootDirectory := closed_root img (root_entries (img 0)) \<rparr> \<lparr> console := c, world := w \<rparr>))"
proof -
  obtain c1 w1 where "find_entry bios disk RootFile fatName m = Some (Inr (None,
      m \<lparr> RootDirectory := root_file img (root_entries (img 0)) \<rparr> \<lparr> console := c1, world := w1 \<rparr>))"
    using find_entry_fails [OF assms(1,2,7,8,3)] by blast
  then have find: "FAT_FindFile bios disk RootFile name' m = Some (Inr (None,
      m \<lparr> RootDirectory := root_file img (root_entries (img 0)) \<rparr> \<lparr> console := c1, world := w1 \<rparr>))"
    by (simp add: FAT_FindFile_root [OF assms(5)])
  let ?m1 = "m \<lparr> RootDirectory := root_file img (root_entries (img 0)) \<rparr> \<lparr> console := c1, world := w1 \<rparr>"
  let ?m2 = "?m1 \<lparr> RootDirectory := closed_root img (root_entries (img 0)) \<rparr>"
  have close: "FAT_Close RootFile ?m1 = Inr ?m2" by (rule FAT_Close_root) simp
  obtain c2 where log: "boot_log LOG_ERROR fatlogid ''file \"%s\" not found'' [Str name'] ?m2 = Inr (?m2 \<lparr> console := c2 \<rparr>)"
    using log_fat_names(2) by (rule logged_obtain)
  have "open_path bios disk path name RootFile m = Some (Inr (NullFile, ?m2 \<lparr> console := c2 \<rparr>))"
    using find close log assms(4,6) by (simp add: open_path.simps [of bios disk path])
  then show ?thesis by (intro exI [of _ c2] exI [of _ w1]) simp
qed

lemma length_name83: "length (name83 base ext) = 12"
  by (simp add: name83_def)

lemma FAT_Open_slash:
  "FAT_Open bios disk (ch CHR ''/'' # path) junk m = open_path bios disk path (take 256 junk) RootFile m"
  by (simp add: FAT_Open_def MAX_PATH_SIZE_def)

lemma FAT_Open_found:
  fixes m :: "('w, 'e) fat_machine_scheme"
  assumes "reads_ok bios disk img" and "volume_ok disk (img 0)" and "RootDirectory m = root_file img 0"
    and "component path (base @ ch CHR ''.'' # ext) [] True"
    and "ch CHR ''.'' \<notin> set base" and "length base \<noteq> 11" and "3 \<le> length ext"
    and "length base + length ext + 2 < 256" and "256 \<le> length junk"
    and "found_at img (name83 base ext) k" and "free_handle (OpenedFiles m) 0 = Some h"
    and "length (OpenedFiles m) = MAX_FILE_HANDLES" and "\<forall>fd \<in> set (OpenedFiles m). length (Buffer fd) = 512"
    and "entry = directory_entry (root_entry img k)"
    and "unat (FAT_ClusterToLba m (entry_cluster entry)) < disk_size disk"
  shows "\<exists>c w. FAT_Open bios disk (ch CHR ''/'' # path) junk m = Some (Inr (SlotFile h,
    m \<lparr> RootDirectory := closed_root img (Suc k), OpenedFiles := (OpenedFiles m)[h := opened_file img m h entry] \<rparr>
      \<lparr> console := c, world := w \<rparr>))"
proof -
  have "length base + length ext + 2 < length (take 256 junk)" using assms(8,9) by simp
  then obtain name' where "next_name path (take 256 junk) = Inr (name', [], True)" "fat_name name' = Inr (name83 base ext)"
    by (rule name_of_component [OF assms(4-7)])
  moreover have "path \<noteq> []" using assms(4) by (auto simp: component_def)
  ultimately show ?thesis
    unfolding FAT_Open_slash assms(14)
    using open_root_found [OF assms(1-3), of path "take 256 junk" name' "name83 base ext" k h] assms(10-15) length_name83
    by simp
qed

text \<open>
  C10: On a disk without errors, \<^verbatim>\<open>FAT_Open\<close> finds the file of a path such as \<^verbatim>\<open>/kernel.bin\<close> whose name is that of
  some entry of the root directory: it takes the first such entry, opens it under the first free
  handle, at position 0 of the entry's first cluster with that cluster's first sector in the buffer,
  and changes no other file but the root directory's position.
\<close>

theorem FAT_Open_finds:
  fixes m :: "('w, 'e) fat_machine_scheme"
  assumes "reads_ok bios disk img" and "volume_ok disk (img 0)" and "RootDirectory m = root_file img 0"
    and "component path (base @ ch CHR ''.'' # ext) [] True"
    and "ch CHR ''.'' \<notin> set base" and "length base \<noteq> 11" and "3 \<le> length ext"
    and "length base + length ext + 2 < 256" and "256 \<le> length junk"
    and "found_at img (name83 base ext) k" and "free_handle (OpenedFiles m) 0 = Some h"
    and "length (OpenedFiles m) = MAX_FILE_HANDLES" and "\<forall>fd \<in> set (OpenedFiles m). length (Buffer fd) = 512"
    and "entry = directory_entry (root_entry img k)"
    and "unat (FAT_ClusterToLba m (entry_cluster entry)) < disk_size disk"
  shows "\<exists>c w. FAT_Open bios disk (ch CHR ''/'' # path) junk m = Some (Inr (SlotFile h,
    m \<lparr> RootDirectory := closed_root img (Suc k), OpenedFiles := (OpenedFiles m)[h := opened_file img m h entry] \<rparr>
      \<lparr> console := c, world := w \<rparr>))"
  by (rule FAT_Open_found [OF assms])

lemma FAT_Open_not_found:
  fixes m :: "('w, 'e) fat_machine_scheme"
  assumes "reads_ok bios disk img" and "volume_ok disk (img 0)" and "RootDirectory m = root_file img 0"
    and "component path (base @ ch CHR ''.'' # ext) [] True"
    and "ch CHR ''.'' \<notin> set base" and "length base \<noteq> 11" and "3 \<le> length ext"
    and "length base + length ext + 2 < 256" and "256 \<le> length junk"
    and "\<And>k. k < root_entries (img 0) \<Longrightarrow> \<not> named img (name83 base ext) k"
  shows "\<exists>c w. FAT_Open bios disk (ch CHR ''/'' # path) junk m = Some (Inr (NullFile,
    m \<lparr> RootDirectory := closed_root img (root_entries (img 0)) \<rparr> \<lparr> console := c, world := w \<rparr>))"
proof -
  have "length base + length ext + 2 < length (take 256 junk)" using assms(8,9) by simp
  then obtain name' where "next_name path (take 256 junk) = Inr (name', [], True)" "fat_name name' = Inr (name83 base ext)"
    by (rule name_of_component [OF assms(4-7)])
  moreover have "path \<noteq> []" using assms(4) by (auto simp: component_def)
  ultimately show ?thesis
    unfolding FAT_Open_slash
    using open_root_missing [OF assms(1-3), of path "take 256 junk" name' "name83 base ext"] assms(10) length_name83
    by simp
qed

text \<open>
  When no entry of the root directory has the name, \<^verbatim>\<open>FAT_Open\<close> returns \<^verbatim>\<open>NULL\<close>: the search ends at the
  last entry, and no handle is taken.
\<close>

theorem FAT_Open_missing:
  fixes m :: "('w, 'e) fat_machine_scheme"
  assumes "reads_ok bios disk img" and "volume_ok disk (img 0)" and "RootDirectory m = root_file img 0"
    and "component path (base @ ch CHR ''.'' # ext) [] True"
    and "ch CHR ''.'' \<notin> set base" and "length base \<noteq> 11" and "3 \<le> length ext"
    and "length base + length ext + 2 < 256" and "256 \<le> length junk"
    and "\<And>k. k < root_entries (img 0) \<Longrightarrow> \<not> named img (name83 base ext) k"
  shows "\<exists>c w. FAT_Open bios disk (ch CHR ''/'' # path) junk m = Some (Inr (NullFile,
    m \<lparr> RootDirectory := closed_root img (root_entries (img 0)) \<rparr> \<lparr> console := c, world := w \<rparr>))"
  by (rule FAT_Open_not_found [OF assms])

text \<open>
  C20: On a disk without errors with a volume the boot sector describes within the disk and within the
  memory set aside, \<^verbatim>\<open>FAT_Initialize\<close> succeeds: the allocation table is in memory, the root directory is
  open at its first sector, the data area begins behind it and no handle is in use.
\<close>

theorem FAT_Initialize_mounts:
  fixes m :: "('w, 'e) fat_machine_scheme"
  assumes "reads_ok bios disk img" and "volume_ok disk (img 0)" and "storage_ok m"
  shows "\<exists>c w. FAT_Initialize bios disk m = Inr (0, mounted img m \<lparr> console := c, world := w \<rparr>)"
  by (rule FAT_Initialize_ok [OF assms])

section \<open>A volume with a kernel\<close>

text \<open>
  One sector per cluster; the file \<^verbatim>\<open>KERNEL.BIN\<close> is the second entry of the root directory and lies in the
  clusters 2, 3 and 4.
\<close>

definition boot_sector :: "u8 list" where
  "boot_sector = (replicate 512 0)[12 := 2, 13 := 1, 14 := 2, 16 := 2, 17 := 16, 22 := 1, 38 := 0x29]"

definition raw_entry :: "string \<Rightarrow> u8 \<Rightarrow> u16 \<Rightarrow> u8 list" where
  "raw_entry name cl sz = bytes_of name @ replicate 15 0 @ [cl, 0, ucast sz, ucast (drop_bit 8 sz), 0, 0]"

definition kernel_volume :: "nat \<Rightarrow> u8 list" where
  "kernel_volume n =
     (if n = 0 then boot_sector
      else if n = 2 then pack12 [0xFF0, 0xFFF, 3, 4, 0xFFF] @ replicate 504 0
      else if n = 4 then raw_entry ''README  TXT'' 9 100 @ raw_entry ''KERNEL  BIN'' 2 1200 @ replicate 448 0
      else replicate 512 (of_nat n))"

lemma length_kernel_volume: "length (kernel_volume n) = 512"
  by (simp add: kernel_volume_def boot_sector_def raw_entry_def)

lemma boot_sector_layout:
  "table_lba boot_sector = 2" "table_sectors boot_sector = 1" "root_lba boot_sector = 4"
  "root_entries boot_sector = 16" "data_lba boot_sector = 5"
  by (simp_all add: data_lba_def root_lba_def table_lba_def table_sectors_def root_entries_def le16_at_def
      boot_sector_def le16_def)

lemma kernel_volume_ok: "volume_ok floppy (kernel_volume 0)"
  by (simp add: volume_ok_def kernel_volume_def boot_sector_layout)
    (simp add: boot_sector_def le16_at_def le16_def disk_size_def floppy_def)

lemma kernel_reads_ok: "reads_ok (rom_bios floppy kernel_volume) floppy kernel_volume"
  by (rule rom_reads_ok) (simp_all add: length_kernel_volume geometry_ok_def floppy_def)

definition empty_fat_machine :: "'w \<Rightarrow> 'w fat_machine" where
  "empty_fat_machine = blank_fat_machine (replicate 512 0) (replicate 59040 0)"

lemma empty_storage_ok: "storage_ok (empty_fat_machine w)"
  by (simp add: storage_ok_def empty_fat_machine_def blank_fat_machine_def blank_file_def MAX_FILE_HANDLES_def
      MEMORY_FAT_SIZE_def sizeof_FAT_Data_value)

theorem FAT_Initialize_mounts_witness:
  "\<exists>c w. FAT_Initialize (rom_bios floppy kernel_volume) floppy (empty_fat_machine (0 :: nat)) =
     Inr (0, mounted kernel_volume (empty_fat_machine (0 :: nat)) \<lparr> console := c, world := w \<rparr>)"
  by (rule FAT_Initialize_mounts [OF kernel_reads_ok kernel_volume_ok empty_storage_ok])

lemma length_raw_entry: "length name = 11 \<Longrightarrow> length (raw_entry name cl sz) = 32"
  by (simp add: raw_entry_def)

lemma kernel_entries:
  "root_entry kernel_volume 0 = raw_entry ''README  TXT'' 9 100"
  "root_entry kernel_volume 1 = raw_entry ''KERNEL  BIN'' 2 1200"
proof -
  have "root_lba (kernel_volume 0) = 4" by (simp add: kernel_volume_def boot_sector_layout)
  moreover have "kernel_volume 4 = raw_entry ''README  TXT'' 9 100 @ raw_entry ''KERNEL  BIN'' 2 1200 @ replicate 448 0"
    by (simp add: kernel_volume_def)
  ultimately show "root_entry kernel_volume 0 = raw_entry ''README  TXT'' 9 100"
    "root_entry kernel_volume 1 = raw_entry ''KERNEL  BIN'' 2 1200"
    by (simp_all add: root_entry_def length_raw_entry)
qed

definition kernel_name :: "u8 list" where "kernel_name = name83 (bytes_of ''kernel'') (bytes_of ''bin'')"

lemma kernel_name_eq: "kernel_name = bytes_of ''KERNEL  BIN'' @ [0]"
  by (simp add: kernel_name_def name83_def pad_def toupper_def islower_def numeral_eq_Suc)

lemma take_raw_entry: "length name = 11 \<Longrightarrow> take 11 (raw_entry name cl sz) = bytes_of name"
  by (simp add: raw_entry_def)

lemma kernel_found: "found_at kernel_volume kernel_name 1"
proof -
  have "root_entries (kernel_volume 0) = 16" by (simp add: kernel_volume_def boot_sector_layout)
  moreover have "named kernel_volume kernel_name 1" "\<not> named kernel_volume kernel_name 0"
    unfolding named_def kernel_entries kernel_name_eq by (simp_all add: take_raw_entry)
  ultimately show ?thesis by (auto simp: found_at_def less_Suc_eq)
qed

definition kernel_entry :: FAT_DirectoryEntry where
  "kernel_entry = directory_entry (raw_entry ''KERNEL  BIN'' 2 1200)"

lemma kernel_entry_fields:
  "entry_cluster kernel_entry = 2" "EntrySize kernel_entry = 1200" "Attributes kernel_entry = 0"
  by (simp_all add: kernel_entry_def directory_entry_def raw_entry_def entry_cluster_def le16_at_def le16_def le32_def
      nth_append)

definition mounted_kernel :: "'w \<Rightarrow> 'w fat_machine" where
  "mounted_kernel w = mounted kernel_volume (empty_fat_machine w)"

lemma mounted_files:
  assumes "storage_ok m"
  shows "RootDirectory (mounted img m) = root_file img 0" "free_handle (OpenedFiles (mounted img m)) 0 = Some 0"
    "length (OpenedFiles (mounted img m)) = MAX_FILE_HANDLES"
    "\<forall>fd \<in> set (OpenedFiles (mounted img m)). length (Buffer fd) = 512"
proof -
  have "OpenedFiles m \<noteq> []" using assms by (auto simp: storage_ok_def MAX_FILE_HANDLES_def)
  then show "free_handle (OpenedFiles (mounted img m)) 0 = Some 0"
    by (cases "OpenedFiles m") (simp_all add: mounted_def Let_def)
qed (use assms in \<open>simp_all add: mounted_def Let_def storage_ok_def\<close>)

lemma mounted_lba: "FAT_ClusterToLba (mounted img m) c = of_nat (data_lba (img 0)) + (c - 2) * ucast (img 0 ! 13)"
  by (simp add: FAT_ClusterToLba_def mounted_def Let_def SectorsPerCluster_def)

lemma mounted_kernel_lba: "FAT_ClusterToLba (mounted_kernel w) c = 5 + (c - 2)"
  by (simp add: mounted_kernel_def mounted_lba) (simp add: kernel_volume_def boot_sector_layout, simp add: boot_sector_def)

lemma kernel_component: "component (bytes_of ''kernel.bin'') (bytes_of ''kernel'' @ ch CHR ''.'' # bytes_of ''bin'') [] True"
  by (simp add: component_def)

theorem FAT_Open_finds_witness:
  "\<exists>c w. FAT_Open (rom_bios floppy kernel_volume) floppy (ch CHR ''/'' # bytes_of ''kernel.bin'') (replicate 256 0x78) (mounted_kernel (0 :: nat)) =
     Some (Inr (SlotFile 0, mounted_kernel (0 :: nat) \<lparr> RootDirectory := closed_root kernel_volume (Suc 1),
       OpenedFiles := (OpenedFiles (mounted_kernel (0 :: nat)))[0 := opened_file kernel_volume (mounted_kernel (0 :: nat)) 0 kernel_entry] \<rparr>
       \<lparr> console := c, world := w \<rparr>))"
proof (rule FAT_Open_finds [OF kernel_reads_ok kernel_volume_ok _ kernel_component])
  show "found_at kernel_volume (name83 (bytes_of ''kernel'') (bytes_of ''bin'')) 1"
    using kernel_found by (simp add: kernel_name_def)
  show "kernel_entry = directory_entry (root_entry kernel_volume 1)"
    unfolding kernel_entry_def kernel_entries ..
  show "unat (FAT_ClusterToLba (mounted_kernel (0 :: nat)) (entry_cluster kernel_entry)) < disk_size floppy"
    by (simp add: mounted_kernel_lba kernel_entry_fields disk_size_def floppy_def)
qed (simp_all add: mounted_kernel_def mounted_files [OF empty_storage_ok])

text \<open>The same volume with an empty root directory.\<close>

definition empty_volume :: "nat \<Rightarrow> u8 list" where
  "empty_volume = kernel_volume (4 := replicate 512 0)"

lemma empty_volume_ok: "volume_ok floppy (empty_volume 0)"
  using kernel_volume_ok by (simp add: empty_volume_def)

lemma empty_reads_ok: "reads_ok (rom_bios floppy empty_volume) floppy empty_volume"
  by (rule rom_reads_ok) (simp_all add: empty_volume_def length_kernel_volume geometry_ok_def floppy_def)

lemma empty_volume_names: "k < root_entries (empty_volume 0) \<Longrightarrow> \<not> named empty_volume kernel_name k"
proof
  assume k: "k < root_entries (empty_volume 0)" and "named empty_volume kernel_name k"
  have b: "root_entries (empty_volume 0) = 16" "root_lba (empty_volume 0) = 4"
    by (simp_all add: empty_volume_def kernel_volume_def boot_sector_layout)
  then have "k div 16 = 0" using k by simp
  then have "set (take 11 (root_entry empty_volume k)) \<subseteq> {0}"
    unfolding root_entry_def b by (auto simp: empty_volume_def dest!: in_set_takeD in_set_dropD)
  moreover have "0x4B \<in> set (take 11 kernel_name)" by (simp add: kernel_name_eq)
  ultimately show False using \<open>named empty_volume kernel_name k\<close> by (auto simp: named_def)
qed

theorem FAT_Open_missing_witness:
  "\<exists>c w. FAT_Open (rom_bios floppy empty_volume) floppy (ch CHR ''/'' # bytes_of ''kernel.bin'') (replicate 256 0x78)
      (mounted empty_volume (empty_fat_machine (0 :: nat))) =
     Some (Inr (NullFile, mounted empty_volume (empty_fat_machine (0 :: nat))
       \<lparr> RootDirectory := closed_root empty_volume (root_entries (empty_volume 0)) \<rparr> \<lparr> console := c, world := w \<rparr>))"
proof (rule FAT_Open_missing [OF empty_reads_ok empty_volume_ok _ kernel_component])
  show "\<not> named empty_volume (name83 (bytes_of ''kernel'') (bytes_of ''bin'')) k" if "k < root_entries (empty_volume 0)" for k
    using empty_volume_names [OF that] by (simp add: kernel_name_def)
qed (simp_all add: mounted_files [OF empty_storage_ok])

text \<open>Handles in order.\<close>

lemma mounted_fat_ok:
  assumes "storage_ok m" and "\<And>n. length (img n) = 512"
  shows "fat_ok (mounted img m)"
proof -
  have "length (Buffer (root_file img 0)) = 512" "Handle (Public (root_file img 0)) = ROOT_DIRECTORY_HANDLE"
    by (simp_all add: root_file_def Let_def assms(2))
  then show ?thesis using assms(1) by (simp add: fat_ok_def mounted_def Let_def storage_ok_def)
qed

theorem FAT_Open_keeps_files_witness:
  "\<exists>f m'. FAT_Open (rom_bios floppy kernel_volume) floppy (ch CHR ''/'' # bytes_of ''kernel.bin'') (replicate 256 0x78)
      (mounted_kernel (0 :: nat)) = Some (Inr (f, m')) \<and> fat_ok m' \<and>
    (f = NullFile \<or> f = RootFile \<or> (\<exists>i < MAX_FILE_HANDLES. f = SlotFile i \<and> Opened (OpenedFiles m' ! i))) \<and>
    {i. i < MAX_FILE_HANDLES \<and> Opened (OpenedFiles (mounted_kernel (0 :: nat)) ! i)} \<subseteq>
      {i. OpenedFiles m' ! i = OpenedFiles (mounted_kernel (0 :: nat)) ! i \<and> f \<noteq> SlotFile i}"
proof -
  have "fat_ok (mounted_kernel (0 :: nat))" by (simp add: mounted_kernel_def mounted_fat_ok empty_storage_ok length_kernel_volume)
  moreover obtain f m' where "FAT_Open (rom_bios floppy kernel_volume) floppy (ch CHR ''/'' # bytes_of ''kernel.bin'')
      (replicate 256 0x78) (mounted_kernel (0 :: nat)) = Some (Inr (f, m'))"
  proof -
    have "entry_cluster (directory_entry (root_entry kernel_volume 1)) = 2"
      unfolding kernel_entries kernel_entry_def [symmetric] by (rule kernel_entry_fields)
    then show thesis
      using FAT_Open_found [OF kernel_reads_ok kernel_volume_ok _ kernel_component, where m = "mounted_kernel (0 :: nat)" and k = 1 and h = 0
          and junk = "replicate 256 0x78"] kernel_found that
      by (auto simp: mounted_kernel_def mounted_files [OF empty_storage_ok] kernel_name_def
          mounted_kernel_lba [unfolded mounted_kernel_def] disk_size_def floppy_def)
  qed
  ultimately show ?thesis using FAT_Open_keeps_files by blast
qed

theorem FAT_Read_keeps_files_witness:
  "\<exists>bytes m'. FAT_Read (rom_bios floppy kernel_volume) floppy RootFile 32 (mounted_kernel (0 :: nat)) = Inr (bytes, m') \<and> fat_ok m' \<and>
    {i. RootFile \<noteq> SlotFile i} \<subseteq> {i. OpenedFiles m' ! i = OpenedFiles (mounted_kernel (0 :: nat)) ! i}"
proof -
  have "fat_ok (mounted_kernel (0 :: nat))" by (simp add: mounted_kernel_def mounted_fat_ok empty_storage_ok length_kernel_volume)
  moreover have "root_entries (kernel_volume 0) = 16" by (simp add: kernel_volume_def boot_sector_layout)
  then obtain bytes m' where "FAT_Read (rom_bios floppy kernel_volume) floppy RootFile 32 (mounted_kernel (0 :: nat)) = Inr (bytes, m')"
    using read_root_entry [OF kernel_reads_ok kernel_volume_ok, of "mounted_kernel (0 :: nat)" 0]
    by (auto simp: mounted_kernel_def mounted_files [OF empty_storage_ok] FAT_ReadEntry_def sizeof_DirectoryEntry_def
        bindE_eq_Inr)
  ultimately show ?thesis using FAT_Read_keeps_files [of "mounted_kernel (0 :: nat)" RootFile] by blast
qed

end
