(* ===== verification/Fat_Checks.thy ===== *)
theory Fat_Checks
  imports Fat_Open
begin

text \<open>
  Mounting a volume from a disk that may fail, or that holds something else: what \<^verbatim>\<open>FAT_Initialize\<close> checks.
\<close>

lemma DISK_ReadSectors_total:
  fixes m :: "('w, 'e) machine_scheme"
  assumes "reads_disk bios disk img" and "geometry_ok disk" and "dataOut < 0x100000" and "512 * unat count \<le> length obj"
  obtains r obj' c w where "DISK_ReadSectors bios disk lba count dataOut obj m = Inr (r, obj', m \<lparr> console := c, world := w \<rparr>)"
    "length obj' = length obj" "drop (512 * unat count) obj' = drop (512 * unat count) obj"
    "r = 0 \<Longrightarrow> unat lba < disk_size disk \<Longrightarrow> take (512 * unat count) obj' = sector_data img (unat lba) (unat count)"
proof (cases "unat lba < disk_size disk")
  case True
  then show ?thesis using DISK_ReadSectors_reads [OF assms(1,2) True assms(3,4), of m] that by metis
next
  case False
  have "0 < unat (sectors disk)" "0 < unat (heads disk)" using assms(2) by (simp_all add: geometry_ok_def)
  from LBA2CHS_values [OF this, of lba] obtain chs where chs: "DISK_LBA2CHS disk lba = Inr chs" by metis
  have "DISK_ReadSectors bios disk lba count dataOut obj m = read_attempts bios disk chs count dataOut 3 0 obj m"
    using seg_linear_below_1M [OF assms(3)] by (simp add: DISK_ReadSectors_def chs)
  then show ?thesis
    using read_attempts_correct [OF assms(1) refl assms(4), of 3 0 chs dataOut m] that False by auto
qed

lemma log_fat_failures:
  "logged m (boot_log level fatlogid ''Failed to read bootsector!'' [] m)"
  "logged m (boot_log level fatlogid ''Bad bootsector signature!'' [] m)"
  "logged m (boot_log level fatlogid ''Not enough memory to read FAT! (Required %u but only have %u)'' [Bits x, Bits y] m)"
  "logged m (boot_log level fatlogid ''Failed to read FAT!'' [] m)"
  "logged m (boot_log level fatlogid ''Failed to read root!'' [] m)"
  by (rule boot_log_logged; simp add: log_format.simps(2) unsigned_arg_def radix_of_def)+

lemma fail_with_logged:
  assumes "logged m (boot_log LOG_ERROR fatlogid fmt args m)"
  obtains c where "fail_with fmt args m = Inr (1, m \<lparr> console := c \<rparr>)"
  using assms by (auto simp: fail_with_def logged_def)


lemma open_root_total:
  fixes m :: "('w, 'e) fat_machine_scheme"
  assumes "reads_disk bios disk img" and "geometry_ok disk" and "length (Buffer (RootDirectory m)) = 512"
    and "BytesPerSector m = 512"
  shows "\<exists>r m'. open_root bios disk m = Inr (r, m') \<and> r \<in> {0, 1} \<and> BootSectorBytes m' = BootSectorBytes m \<and> fat m' = fat m"
proof -
  define lba :: u32 where "lba = ucast (ReservedSectors m) + ucast (SectorsPerFat m) * ucast (FatCount m)"
  define root where "root = RootDirectory m \<lparr>
      Public := \<lparr> Handle = ROOT_DIRECTORY_HANDLE, IsDirectory = True, Position = 0,
                  Size = sizeof_DirectoryEntry * ucast (DirEntryCount m) \<rparr>,
      Opened := True, FirstCluster := lba, CurrentCluster := lba, CurrentSectorInCluster := 0 \<rparr>"
  let ?m1 = "m \<lparr> RootDirectory := root \<rparr>"
  have "512 * unat (1 :: u8) \<le> length (Buffer root)" "buffer_address RootFile < 0x100000"
    using assms(3) by (simp_all add: root_def MEMORY_FAT_ADDR_def)
  then obtain r bytes c w where read: "DISK_ReadSectors bios disk lba 1 (buffer_address RootFile) (Buffer root) ?m1 =
      Inr (r, bytes, ?m1 \<lparr> console := c, world := w \<rparr>)"
    using DISK_ReadSectors_total [OF assms(1,2)] by metis
  let ?m2 = "?m1 \<lparr> console := c, world := w \<rparr> \<lparr> RootDirectory := RootDirectory (?m1 \<lparr> console := c, world := w \<rparr>) \<lparr> Buffer := bytes \<rparr> \<rparr>"
  have bps: "BytesPerSector ?m2 = 512" using assms(4) by (simp add: BytesPerSector_def)
  obtain c' where "fail_with ''Failed to read root!'' [] ?m2 = Inr (1, ?m2 \<lparr> console := c' \<rparr>)"
    using log_fat_failures(5) by (rule fail_with_logged)
  then show ?thesis
    unfolding open_root_def Let_def lba_def [symmetric] root_def [symmetric] read bindE_simps prod.case bps
    by (cases "r = 0") simp_all
qed

lemma FAT_Initialize_total:
  fixes m :: "('w, 'e) fat_machine_scheme"
  assumes "reads_disk bios disk img" and "geometry_ok disk" and "0 < disk_size disk" and "storage_ok m"
    and "le16_at (img 0) 11 = 512"
  shows "\<exists>r m'. FAT_Initialize bios disk m = Inr (r, m') \<and> r \<in> {0, 1} \<and>
    (r = 0 \<longrightarrow> img 0 ! 38 = 0x29 \<and> table_sectors (img 0) \<le> 115 \<and> BootSectorBytes m' = img 0 \<and>
      (table_lba (img 0) < disk_size disk \<longrightarrow>
        take (512 * table_sectors (img 0)) (fat m') = sector_data img (table_lba (img 0)) (table_sectors (img 0))))"
proof -
  have "512 * unat (1 :: u8) \<le> length (BootSectorBytes m)" "MEMORY_FAT_ADDR < 0x100000"
    using assms(4) by (simp_all add: storage_ok_def MEMORY_FAT_ADDR_def)
  then obtain r0 boot c0 w0 where boot: "DISK_ReadSectors bios disk 0 1 MEMORY_FAT_ADDR (BootSectorBytes m) m =
      Inr (r0, boot, m \<lparr> console := c0, world := w0 \<rparr>)" "length boot = length (BootSectorBytes m)"
      "r0 = 0 \<Longrightarrow> unat (0 :: u32) < disk_size disk \<Longrightarrow>
        take (512 * unat (1 :: u8)) boot = sector_data img (unat (0 :: u32)) (unat (1 :: u8))"
    using DISK_ReadSectors_total [OF assms(1,2), where lba = 0 and count = 1 and obj = "BootSectorBytes m" and m = m] by metis
  let ?m1 = "m \<lparr> console := c0, world := w0 \<rparr> \<lparr> BootSectorBytes := boot \<rparr>"
  have fails: "\<exists>m'. fail_with fmt args m1 = Inr (1, m')" if "logged m1 (boot_log LOG_ERROR fatlogid fmt args m1)"
    for fmt args and m1 :: "('w, 'e) fat_machine_scheme"
    using fail_with_logged [OF that] by metis
  have fails: "\<exists>m'. fail_with ''Failed to read bootsector!'' [] mm = Inr (1, m')"
    "\<exists>m'. fail_with ''Bad bootsector signature!'' [] mm = Inr (1, m')"
    "\<exists>m'. fail_with ''Not enough memory to read FAT! (Required %u but only have %u)'' [Bits x, Bits y] mm = Inr (1, m')"
    "\<exists>m'. fail_with ''Failed to read FAT!'' [] mm = Inr (1, m')" for mm :: "('w, 'e) fat_machine_scheme" and x y
    by (intro fails log_fat_failures)+
  show ?thesis
  proof (cases "r0 = 0 \<and> Signature ?m1 = 0x29")
    case False
    then have "FAT_Initialize bios disk m = fail_with ''Failed to read bootsector!'' [] ?m1 \<or>
        FAT_Initialize bios disk m = fail_with ''Bad bootsector signature!'' [] ?m1"
      using boot(1) by (cases "r0 = 0") (simp_all add: FAT_Initialize_def Let_def)
    then show ?thesis using fails(1,2) [where mm = ?m1] by auto
  next
    case True
    then have "boot = img 0" using boot(2,3) assms(3,4) by (simp add: storage_ok_def sector_data_def)
    note here = True [unfolded this]
    let ?m1 = "m \<lparr> console := c0, world := w0 \<rparr> \<lparr> BootSectorBytes := img 0 \<rparr>"
    let ?n = "table_sectors (img 0)"
    have fields: "BytesPerSector ?m1 = 512" "SectorsPerFat ?m1 = le16_at (img 0) 22" "ReservedSectors ?m1 = le16_at (img 0) 14"
      "Signature ?m1 = img 0 ! 38"
      using assms(5) by (simp_all add: BytesPerSector_def SectorsPerFat_def ReservedSectors_def Signature_def)
    have "?n < 65536" using unsigned_less [of "le16_at (img 0) 22", where ?'a = nat] by (simp add: table_sectors_def)
    then have "unat (of_nat (6496 + 512 * ?n) :: u32) = 6496 + 512 * ?n" by (intro unat_of_nat_small) simp
    moreover have "sizeof_FAT_Data + 512 * ucast (le16_at (img 0) 22) = (of_nat (6496 + 512 * ?n) :: u32)"
      by (simp add: sizeof_FAT_Data_value table_sectors_def)
    ultimately have too_large: "MEMORY_FAT_SIZE \<le> sizeof_FAT_Data + 512 * ucast (le16_at (img 0) 22) \<longleftrightarrow> 115 < ?n"
      by (simp only: word_le_nat_alt) (simp add: MEMORY_FAT_SIZE_def, arith)
    show ?thesis
    proof (cases "115 < ?n")
      case True
      then obtain x y where "FAT_Initialize bios disk m =
          fail_with ''Not enough memory to read FAT! (Required %u but only have %u)'' [Bits x, Bits y] ?m1"
        using here boot(1) fields too_large \<open>boot = img 0\<close> by (simp add: FAT_Initialize_def Let_def)
      moreover obtain m' where "fail_with ''Not enough memory to read FAT! (Required %u but only have %u)'' [Bits x, Bits y] ?m1 =
          Inr (1, m')" using fails(3) by blast
      ultimately show ?thesis by simp
    next
      case False
      have n: "unat (ucast (le16_at (img 0) 22) :: u8) = ?n"
        using False by (simp add: table_sectors_def unsigned_ucast_eq take_bit_nat_eq_self)
      have lba: "unat (ucast (le16_at (img 0) 14) :: u32) = table_lba (img 0)" by (simp add: table_lba_def)
      have "512 * unat (ucast (le16_at (img 0) 22) :: u8) \<le> length (fat ?m1)" "MEMORY_FAT_ADDR + sizeof_FAT_Data < 0x100000"
        using assms(4) False unfolding n
        by (simp_all add: storage_ok_def MEMORY_FAT_SIZE_def sizeof_FAT_Data_value MEMORY_FAT_ADDR_def)
      then obtain r bytes c w where table: "DISK_ReadSectors bios disk (ucast (le16_at (img 0) 14)) (ucast (le16_at (img 0) 22))
          (MEMORY_FAT_ADDR + sizeof_FAT_Data) (fat ?m1) ?m1 = Inr (r, bytes, ?m1 \<lparr> console := c, world := w \<rparr>)"
        "r = 0 \<Longrightarrow> table_lba (img 0) < disk_size disk \<Longrightarrow> take (512 * ?n) bytes = sector_data img (table_lba (img 0)) ?n"
        using DISK_ReadSectors_total [OF assms(1,2), where lba = "ucast (le16_at (img 0) 14)" and m = ?m1
            and count = "ucast (le16_at (img 0) 22)" and obj = "fat ?m1"] unfolding n lba by metis
      let ?m2 = "?m1 \<lparr> console := c, world := w \<rparr> \<lparr> fat := bytes \<rparr>"
      have init: "FAT_Initialize bios disk m =
          (if r \<noteq> 0 then fail_with ''Failed to read FAT!'' [] ?m2 else open_root bios disk ?m2)"
        using here boot(1) fields too_large False table(1) \<open>boot = img 0\<close> by (simp add: FAT_Initialize_def)
      obtain r' m' where "open_root bios disk ?m2 = Inr (r', m')" "r' \<in> {0, 1}"
        "BootSectorBytes m' = img 0" "fat m' = bytes"
        using open_root_total [OF assms(1,2), of ?m2] assms(4) fields(1) by (auto simp: storage_ok_def BytesPerSector_def)
      then show ?thesis
        using fails(4) [where mm = ?m2] init table(2) here fields(4) False by (cases "r = 0") (auto simp: not_less)
    qed
  qed
qed

text \<open>A volume with 0 bytes per sector, read without errors.\<close>

lemma FAT_Initialize_zero:
  fixes m :: "('w, 'e) fat_machine_scheme"
  assumes "reads_ok bios disk img" and "0 < disk_size disk" and "storage_ok m"
    and "le16_at (img 0) 11 = 0" and "img 0 ! 38 = 0x29" and "table_sectors (img 0) \<le> 115"
    and "table_lba (img 0) < disk_size disk" and "root_lba (img 0) < disk_size disk"
  shows "FAT_Initialize bios disk m = Inl DivideError"
proof -
  let ?b = "img 0" and ?n = "table_sectors (img 0)"
  have sectors: "sector_data img 0 1 = ?b" "length ?b = 512"
    using assms(1) by (simp_all add: sector_data_def reads_ok_def reads_disk_def)
  have n: "unat (ucast (le16_at ?b 22) :: u8) = ?n"
    using assms(6) by (simp add: table_sectors_def unsigned_ucast_eq take_bit_nat_eq_self)
  obtain c1 w1 where boot: "DISK_ReadSectors bios disk 0 1 MEMORY_FAT_ADDR (BootSectorBytes m) m =
      Inr (0, ?b, m \<lparr> console := c1, world := w1 \<rparr>)"
    using DISK_ReadSectors_ok [OF assms(1), of 0 MEMORY_FAT_ADDR 1 "BootSectorBytes m" m] assms(2,3) sectors
    by (auto simp: MEMORY_FAT_ADDR_def storage_ok_def)
  let ?m1 = "m \<lparr> console := c1, world := w1 \<rparr> \<lparr> BootSectorBytes := ?b \<rparr>"
  have fields: "Signature ?m1 = 0x29" "BytesPerSector ?m1 = 0" "SectorsPerFat ?m1 = le16_at ?b 22"
    "ReservedSectors ?m1 = le16_at ?b 14"
    using assms(4,5) by (simp_all add: Signature_def BytesPerSector_def SectorsPerFat_def ReservedSectors_def)
  have fits: "\<not> MEMORY_FAT_SIZE \<le> sizeof_FAT_Data"
    by (simp add: MEMORY_FAT_SIZE_def sizeof_FAT_Data_value word_le_nat_alt)
  have "unat (ucast (le16_at ?b 14) :: u32) = table_lba ?b" by (simp add: table_lba_def)
  moreover have "MEMORY_FAT_ADDR + sizeof_FAT_Data < 0x100000" by (simp add: MEMORY_FAT_ADDR_def sizeof_FAT_Data_value)
  moreover have "512 * ?n \<le> length (fat m)"
    using assms(3,6) by (simp add: storage_ok_def MEMORY_FAT_SIZE_def sizeof_FAT_Data_value)
  ultimately obtain bytes c2 w2 where table: "DISK_ReadSectors bios disk (ucast (le16_at ?b 14)) (ucast (le16_at ?b 22))
      (MEMORY_FAT_ADDR + sizeof_FAT_Data) (fat m) ?m1 = Inr (0, bytes, ?m1 \<lparr> console := c2, world := w2 \<rparr>)"
    using DISK_ReadSectors_ok [OF assms(1), of "ucast (le16_at ?b 14)" "MEMORY_FAT_ADDR + sizeof_FAT_Data"
        "ucast (le16_at ?b 22)" "fat m" ?m1] assms(7) n by auto
  let ?m2 = "?m1 \<lparr> console := c2, world := w2 \<rparr> \<lparr> fat := bytes \<rparr>"
  have init: "FAT_Initialize bios disk m = open_root bios disk ?m2"
    using boot fields table fits by (simp add: FAT_Initialize_def Let_def)
  have lba: "ucast (ReservedSectors ?m2) + ucast (SectorsPerFat ?m2) * ucast (FatCount ?m2) = (of_nat (root_lba ?b) :: u32)"
    by (simp add: ReservedSectors_def SectorsPerFat_def FatCount_def rootDirLba_eq)
  define root where "root = RootDirectory ?m2 \<lparr>
      Public := \<lparr> Handle = ROOT_DIRECTORY_HANDLE, IsDirectory = True, Position = 0,
                  Size = sizeof_DirectoryEntry * ucast (DirEntryCount ?m2) \<rparr>,
      Opened := True, FirstCluster := of_nat (root_lba ?b), CurrentCluster := of_nat (root_lba ?b), CurrentSectorInCluster := 0 \<rparr>"
  let ?m3 = "?m2 \<lparr> RootDirectory := root \<rparr>"
  have "disk_size disk \<le> 1024 * 256 * 63"
    unfolding disk_size_def using assms(1) by (intro mult_le_mono) (simp_all add: reads_ok_def geometry_ok_def)
  then have "unat (of_nat (root_lba ?b) :: u32) < disk_size disk" using assms(8) by simp
  moreover have "512 * unat (1 :: u8) \<le> length (Buffer root)" "buffer_address RootFile < 0x100000"
    using assms(3) by (simp_all add: root_def storage_ok_def MEMORY_FAT_ADDR_def)
  ultimately obtain bs c3 w3 where "DISK_ReadSectors bios disk (of_nat (root_lba ?b)) 1 (buffer_address RootFile) (Buffer root) ?m3 =
      Inr (0, bs, ?m3 \<lparr> console := c3, world := w3 \<rparr>)"
    using DISK_ReadSectors_ok [OF assms(1)] by metis
  then show ?thesis
    unfolding init open_root_def Let_def lba root_def [symmetric] using fields(2) by (simp add: BytesPerSector_def)
qed

text \<open>
  C21: On any BIOS that reads the disk, however often it fails, and whatever a disk with 512 bytes per sector
  in its boot record holds, \<^verbatim>\<open>FAT_Initialize\<close> does not go wrong: it returns 0 or 1, and 0 only for a volume
  with the signature of an extended boot record whose table fits in the memory for it; then the boot sector
  and the table are in memory as they are on the disk.  The 512 bytes are needed, as the code does not check
  them: with a boot record that says 0 instead, and no other cause to fail, it divides by zero.
\<close>

theorem FAT_Initialize_checked:
  fixes m :: "('w, 'e) fat_machine_scheme"
  assumes "reads_disk bios disk img" and "geometry_ok disk" and "0 < disk_size disk" and "storage_ok m"
  shows "(le16_at (img 0) 11 = 512 \<longrightarrow>
      (\<exists>r m'. FAT_Initialize bios disk m = Inr (r, m') \<and> r \<in> {0, 1} \<and>
        (r = 0 \<longrightarrow> img 0 ! 38 = 0x29 \<and> table_sectors (img 0) \<le> 115 \<and> BootSectorBytes m' = img 0 \<and>
          (table_lba (img 0) < disk_size disk \<longrightarrow>
            take (512 * table_sectors (img 0)) (fat m') = sector_data img (table_lba (img 0)) (table_sectors (img 0)))))) \<and>
    (le16_at (img 0) 11 = 0 \<and> (\<forall>r w. fst (int13_read bios r w) = 0) \<and> img 0 ! 38 = 0x29 \<and> table_sectors (img 0) \<le> 115 \<and>
      table_lba (img 0) < disk_size disk \<and> root_lba (img 0) < disk_size disk \<longrightarrow>
      FAT_Initialize bios disk m = Inl DivideError)"
  using FAT_Initialize_total [OF assms] FAT_Initialize_zero [of bios disk img m] assms by (simp add: reads_ok_def)

text \<open>The volume with the kernel on a disk that fails, and the same volume with 0 bytes per sector on one that does not.\<close>

definition zero_volume :: "nat \<Rightarrow> u8 list" where
  "zero_volume n = (if n = 0 then (kernel_volume 0)[11 := 0, 12 := 0] else kernel_volume n)"

theorem FAT_Initialize_checked_witness:
  "(\<exists>r m'. FAT_Initialize (flaky_bios floppy kernel_volume) floppy (empty_fat_machine (7 :: nat)) = Inr (r, m') \<and> r \<in> {0, 1}) \<and>
   FAT_Initialize (rom_bios floppy zero_volume) floppy (empty_fat_machine (7 :: nat)) = Inl DivideError"
proof
  have geometry: "geometry_ok floppy" "0 < disk_size floppy" by (simp_all add: geometry_ok_def disk_size_def floppy_def)
  have flaky: "reads_disk (flaky_bios floppy kernel_volume) floppy kernel_volume"
    by (simp add: flaky_reads_disk length_kernel_volume)
  have "le16_at (kernel_volume 0) 11 = 512" using kernel_volume_ok by (simp add: volume_ok_def)
  from FAT_Initialize_checked [OF flaky geometry empty_storage_ok [where w = 7], THEN conjunct1, THEN mp, OF this]
  show "\<exists>r m'. FAT_Initialize (flaky_bios floppy kernel_volume) floppy (empty_fat_machine (7 :: nat)) = Inr (r, m') \<and> r \<in> {0, 1}"
    by (elim exE conjE) (intro exI conjI)
  have len: "length (zero_volume n) = 512" for n by (simp add: zero_volume_def length_kernel_volume)
  have ok: "reads_ok (rom_bios floppy zero_volume) floppy zero_volume"
    by (rule rom_reads_ok) (simp_all add: len geometry)
  have "zero_volume 0 ! k = kernel_volume 0 ! k" if "k \<notin> {11, 12}" for k using that by (simp add: zero_volume_def)
  then have same: "zero_volume 0 ! 38 = kernel_volume 0 ! 38" "table_sectors (zero_volume 0) = table_sectors (kernel_volume 0)"
    "table_lba (zero_volume 0) = table_lba (kernel_volume 0)" "root_lba (zero_volume 0) = root_lba (kernel_volume 0)"
    by (simp_all add: table_sectors_def table_lba_def root_lba_def le16_at_def)
  have "le16_at (zero_volume 0) 11 = 0" using length_kernel_volume [of 0] by (simp add: zero_volume_def le16_at_def le16_def)
  moreover have "table_lba (kernel_volume 0) < disk_size floppy" "root_lba (kernel_volume 0) < disk_size floppy"
    "kernel_volume 0 ! 38 = 0x29" "table_sectors (kernel_volume 0) \<le> 115"
    using kernel_volume_ok volume_bounds [OF kernel_volume_ok geometry(1)] by (simp_all add: volume_ok_def)
  moreover have quiet: "reads_disk (rom_bios floppy zero_volume) floppy zero_volume"
    "\<forall>r w. fst (int13_read (rom_bios floppy zero_volume) r w) = 0" using ok unfolding reads_ok_def by blast+
  ultimately show "FAT_Initialize (rom_bios floppy zero_volume) floppy (empty_fat_machine (7 :: nat)) = Inl DivideError"
    unfolding same [symmetric] by (intro FAT_Initialize_checked [OF quiet(1) geometry empty_storage_ok [where w = 7], THEN conjunct2, THEN mp] conjI)
qed

end
