(* ===== verification/Fat_Directories.thy ===== *)
theory Fat_Directories
  imports Fat_Open
begin

text \<open>
  Directories below the root: the search of a directory held in one sector, the way a path of several
  names is resolved, and what becomes of a search that comes to the end of a directory's first sector.
\<close>

section \<open>Reading the entries of a directory\<close>

text \<open>
  A directory's file as \<^verbatim>\<open>FAT_OpenEntry\<close> opens it: its entry gives it no size, and its first sector, of
  16 entries, is in the buffer.
\<close>

definition sector_entry :: "u8 list \<Rightarrow> nat \<Rightarrow> u8 list" where
  "sector_entry sector k = take 32 (drop (32 * k) sector)"

definition opened_directory :: "FAT_FileData \<Rightarrow> bool" where
  "opened_directory fd \<longleftrightarrow> IsDirectory (Public fd) \<and> Size (Public fd) = 0 \<and> Position (Public fd) = 0"

text \<open>The same file after \<open>k\<close> entries; \<open>cs\<close> is what the allocation table has behind its cluster.\<close>

definition after_entries :: "u32 \<times> u32 \<Rightarrow> FAT_FileData \<Rightarrow> nat \<Rightarrow> FAT_FileData" where
  "after_entries cs fd k =
     (if k < 16 then moved fd (of_nat (32 * k)) else ended cs (Buffer fd) (moved fd (of_nat (32 * k))))"

lemma after_entries_sel [simp]:
  "Handle (Public (after_entries cs fd k)) = Handle (Public fd)" "Buffer (after_entries cs fd k) = Buffer fd"
  "IsDirectory (Public (after_entries cs fd k)) = IsDirectory (Public fd)"
  by (simp_all add: after_entries_def moved_def ended_def at_loc_def)

lemma in_use_after_entries:
  "in_use loc fd m \<Longrightarrow> in_use loc (after_entries cs fd k) (set_file_data loc (after_entries cs fd k) m)"
  by (rule in_use_set) (simp_all add: in_use_def)

lemma FAT_Read_sizeless:
  assumes "in_use loc fd m" and "IsDirectory (Public fd)" and "Size (Public fd) = 0"
  shows "FAT_Read bios disk loc n m = read_loop bios disk loc n 0 [] m"
proof -
  have "(if Handle (Public fd) = ROOT_DIRECTORY_HANDLE then RootFile else SlotFile (unat (Handle (Public fd)))) = loc"
    using assms(1) slot_handle_not_root slot_handle_not_root [THEN not_sym] by (auto simp: in_use_def)
  then show ?thesis using assms by (auto simp: in_use_def FAT_Read_def Let_def)
qed

lemma position_of_entry: "k < 2 ^ 20 \<Longrightarrow> unat (of_nat (32 * k) :: u32) = 32 * k"
  by (rule unat_of_nat_small) simp

text \<open>One round of the loop: within the sector, and at its end.\<close>

lemma entry_bytes:
  assumes "in_use loc fd m" and "unat (Position (Public fd)) = 32 * k" and "k < 16"
  shows "take_bytes loc 32 m =
    Inr (0, k = 15, sector_entry (Buffer fd) k, set_file_data loc (moved fd 32) m)"
proof -
  have p: "unat (Position (Public fd)) mod 512 = 32 * k" using assms(2,3) by simp
  have len: "length (Buffer fd) = 512" using assms(1) by (simp add: in_use_def)
  show ?thesis
  proof (cases "k = 15")
    case True
    have "drop 480 (Buffer fd) = sector_entry (Buffer fd) 15" using len by (simp add: sector_entry_def)
    then show ?thesis using take_bytes_ok [OF assms(1), of 32] by (simp add: p True)
  next
    case False
    then have "32 < 512 - 32 * k" using assms(3) by simp
    then show ?thesis using take_bytes_ok [OF assms(1), of 32] False by (simp add: p sector_entry_def)
  qed
qed

lemma moved_moved: "moved (moved fd a) b = moved fd (a + b)"
  by (simp add: moved_def add.assoc)

lemma moved_0: "moved fd 0 = fd"
  by (simp add: moved_def)

text \<open>The read of an entry starts the loop at the entry's position.\<close>

lemma entry_read_loop:
  assumes "in_use loc fd m" and "opened_directory fd" and "k < 16"
  shows "in_use loc (moved fd (of_nat (32 * k))) (set_file_data loc (moved fd (of_nat (32 * k))) m)"
    and "FAT_Read bios disk loc 32 (set_file_data loc (moved fd (of_nat (32 * k))) m) =
      read_loop bios disk loc 32 0 [] (set_file_data loc (moved fd (of_nat (32 * k))) m)"
    and "take_bytes loc 32 (set_file_data loc (moved fd (of_nat (32 * k))) m) =
      Inr (0, k = 15, sector_entry (Buffer fd) k, set_file_data loc (moved fd (of_nat (32 * Suc k))) m)"
proof -
  note of_nat_mult [simp del] of_nat_Suc [simp del]
  let ?fd = "moved fd (of_nat (32 * k))"
  let ?m = "set_file_data loc ?fd m"
  show use: "in_use loc ?fd ?m"
    by (rule in_use_set [OF assms(1)]) (use assms(1) in \<open>simp_all add: moved_def in_use_def\<close>)
  have "k < 2 ^ 20" using assms(3) by simp
  then have pos: "unat (Position (Public ?fd)) = 32 * k"
    using assms(2) position_of_entry [of k] by (simp add: moved_def opened_directory_def)
  have "IsDirectory (Public ?fd)" "Size (Public ?fd) = 0"
    using assms(2) by (simp_all add: moved_def opened_directory_def)
  then show "FAT_Read bios disk loc 32 ?m = read_loop bios disk loc 32 0 [] ?m"
    by (rule FAT_Read_sizeless [OF use])
  have next_fd: "moved ?fd 32 = moved fd (of_nat (32 * Suc k))" by (simp add: moved_moved of_nat_mult of_nat_Suc algebra_simps)
  show "take_bytes loc 32 ?m = Inr (0, k = 15, sector_entry (Buffer fd) k, set_file_data loc (moved fd (of_nat (32 * Suc k))) m)"
    using entry_bytes [OF use pos assms(3)] unfolding next_fd by (simp add: moved_def)
qed

lemma directory_entry_read:
  assumes "in_use loc fd m" and "opened_directory fd" and "k < 16"
    and "k = 15 \<Longrightarrow> chain_ends loc m (CurrentCluster fd, CurrentSectorInCluster fd) cs"
  shows "FAT_ReadEntry bios disk loc (set_file_data loc (after_entries cs fd k) m) =
    Inr (True, sector_entry (Buffer fd) k, set_file_data loc (after_entries cs fd (Suc k)) m)"
proof -
  note of_nat_mult [simp del] of_nat_Suc [simp del]
  note read = entry_read_loop [OF assms(1-3)]
  let ?m = "set_file_data loc (moved fd (of_nat (32 * k))) m"
  have fd: "after_entries cs fd k = moved fd (of_nat (32 * k))" using assms(3) by (simp add: after_entries_def)
  have len: "length (sector_entry (Buffer fd) k) = 32"
    using assms(1,3) by (simp add: sector_entry_def in_use_def)
  have "FAT_Read bios disk loc 32 ?m =
      Inr (sector_entry (Buffer fd) k, set_file_data loc (after_entries cs fd (Suc k)) m)"
  proof (cases "k = 15")
    case False
    then have "after_entries cs fd (Suc k) = moved fd (of_nat (32 * Suc k))"
      using assms(3) by (simp add: after_entries_def)
    then show ?thesis
      unfolding read(2) using False read(3) by (simp add: read_loop.simps [of bios disk loc 32] read_loop_0)
  next
    case True
    let ?fd1 = "moved fd (of_nat (32 * Suc k))"
    let ?m1 = "set_file_data loc ?fd1 m"
    have use1: "in_use loc ?fd1 ?m1"
      by (rule in_use_set [OF assms(1)]) (use assms(1) in \<open>simp_all add: moved_def in_use_def\<close>)
    have "next_loc loc ?m1 = next_loc loc m" by (rule location_cong(1)) simp_all
    then have "chain_ends loc ?m1 (CurrentCluster ?fd1, CurrentSectorInCluster ?fd1) cs"
      using assms(4) True by (simp add: chain_ends_def moved_def)
    from next_sector_ends [OF use1 this]
    have "next_sector bios disk loc 0 0 ?m1 = Inr (False, 0, set_file_data loc (after_entries cs fd (Suc k)) m)"
      using True by (simp add: after_entries_def moved_def)
    then show ?thesis
      unfolding read(2) using True read(3) by (simp add: read_loop.simps [of bios disk loc 32])
  qed
  then show ?thesis
    unfolding fd by (simp add: FAT_ReadEntry_def sizeof_DirectoryEntry_def len)
qed

text \<open>
  When the directory goes on in a second sector, reading the last entry of the first sector divides by
  zero: the whole entry has been read, so that no sector is left for the loading bar.
\<close>

lemma directory_entry_divides:
  assumes "in_use loc fd m" and "opened_directory fd" and "reads_ok bios disk img" and "loc \<noteq> RootFile"
    and "next_loc loc m (CurrentCluster fd, CurrentSectorInCluster fd) = Inr cs"
    and "unat (loc_lba loc m cs) < disk_size disk" and "fst cs < 0xFF8"
  shows "FAT_ReadEntry bios disk loc (set_file_data loc (after_entries cs fd 15) m) = Inl DivideError"
proof -
  have "15 < (16 :: nat)" by simp
  note read = entry_read_loop [OF assms(1,2) this]
  let ?m1 = "set_file_data loc (moved fd 512) m"
  have use1: "in_use loc (moved fd 512) ?m1"
    by (rule in_use_set [OF assms(1)]) (use assms(1) in \<open>simp_all add: moved_def in_use_def\<close>)
  have "next_loc loc ?m1 = next_loc loc m" "loc_lba loc ?m1 = loc_lba loc m" by (rule location_cong; simp)+
  then have "next_sector bios disk loc 0 0 ?m1 = Inl DivideError"
    using next_sector_divides [OF assms(3) use1 assms(4), of cs 0] assms(5-7) by (simp add: moved_def)
  then show ?thesis
    using read(2,3) by (simp add: FAT_ReadEntry_def sizeof_DirectoryEntry_def after_entries_def read_loop.simps [of bios disk loc 32])
qed

text \<open>Behind the last entry the directory has a size: its position.\<close>

lemma directory_end_read:
  assumes "in_use loc fd m" and "opened_directory fd"
  shows "FAT_ReadEntry bios disk loc (set_file_data loc (after_entries cs fd 16) m) =
    Inr (False, [], set_file_data loc (after_entries cs fd 16) m)"
proof -
  let ?fd = "after_entries cs fd 16"
  have pub: "Position (Public ?fd) = 512" "Size (Public ?fd) = 512"
    using assms(2) by (simp_all add: after_entries_def moved_def ended_def at_loc_def opened_directory_def)
  then have "position_ok (Public ?fd)" by (simp add: position_ok_def)
  moreover have "wanted (Public ?fd) 32 = 0" by (simp add: wanted_def pub)
  ultimately have "FAT_Read bios disk loc 32 (set_file_data loc ?fd m) = Inr ([], set_file_data loc ?fd m)"
    using FAT_Read_loop [OF in_use_after_entries [OF assms(1), of cs 16], of 32 bios disk] by (simp add: read_loop_0)
  then show ?thesis by (simp add: FAT_ReadEntry_def sizeof_DirectoryEntry_def)
qed

section \<open>Searching a directory\<close>

abbreviation lookup_sector :: "u8 list \<Rightarrow> u8 list \<Rightarrow> nat option" where
  "lookup_sector sector fatName \<equiv> first_named (sector_entry sector) fatName 0 16"

text \<open>
  The first \<open>n\<close> entries of the first sector are read as the search needs it; the last one only if the
  directory ends there.
\<close>

definition dir_standing ::
  "file_ptr \<Rightarrow> FAT_FileData \<Rightarrow> u32 \<times> u32 \<Rightarrow> nat \<Rightarrow> ('w, 'e) fat_machine_scheme \<Rightarrow> nat \<Rightarrow> ('w, 'e) fat_machine_scheme \<Rightarrow> bool" where
  "dir_standing loc fd cs n m0 k m \<longleftrightarrow> in_use loc fd m0 \<and> opened_directory fd \<and> n \<le> 16 \<and>
     (n = 16 \<longrightarrow> chain_ends loc m0 (CurrentCluster fd, CurrentSectorInCluster fd) cs) \<and>
     m = set_file_data loc (after_entries cs fd k) m0"

lemma dir_standing_0:
  assumes "in_use loc fd m" and "opened_directory fd" and "n \<le> 16"
    and "n = 16 \<Longrightarrow> chain_ends loc m (CurrentCluster fd, CurrentSectorInCluster fd) cs"
  shows "dir_standing loc fd cs n m 0 m"
  using assms set_file_data_same [of loc m fd]
  by (auto simp: dir_standing_def after_entries_def moved_0 in_use_def)

interpretation below: directory bios disk loc "dir_standing loc fd cs n m0" "sector_entry (Buffer fd)" n
  for bios disk loc fd cs n m0
proof
  fix k and m :: "('a, 'b) fat_machine_scheme"
  assume m: "dir_standing loc fd cs n m0 k m" and k: "k < n"
  then have "k < 16" "k = 15 \<Longrightarrow> n = 16" by (auto simp: dir_standing_def)
  then show "\<exists>m'. FAT_ReadEntry bios disk loc m = Inr (True, sector_entry (Buffer fd) k, m') \<and> dir_standing loc fd cs n m0 (Suc k) m'"
    using m directory_entry_read [of loc fd m0 k cs bios disk] by (simp add: dir_standing_def)
  show "length (sector_entry (Buffer fd) k) = 32"
    using m \<open>k < 16\<close> by (simp add: dir_standing_def sector_entry_def in_use_def)
qed

lemma find_in_directory:
  assumes "in_use loc fd m" and "opened_directory fd" and "11 \<le> length fatName"
    and "chain_ends loc m (CurrentCluster fd, CurrentSectorInCluster fd) cs"
  shows "find_entry bios disk loc fatName m =
    Some (Inr (map_option (\<lambda>k. directory_entry (sector_entry (Buffer fd) k)) (lookup_sector (Buffer fd) fatName),
      set_file_data loc (after_entries cs fd (case lookup_sector (Buffer fd) fatName of None \<Rightarrow> 16 | Some k \<Rightarrow> Suc k)) m))"
proof -
  have "find_entry bios disk loc fatName (set_file_data loc (after_entries cs fd 16) m) =
      Some (Inr (None, set_file_data loc (after_entries cs fd 16) m))"
    using directory_end_read [OF assms(1,2), of bios disk cs] by (subst find_entry.simps) simp
  moreover have "dir_standing loc fd cs 16 m 0 m" by (rule dir_standing_0 [OF assms(1,2) _ assms(4)]) simp
  ultimately show ?thesis
    using below.search [OF _ _ assms(3), of loc fd cs 16 m 0 m bios disk]
    by (auto simp: dir_standing_def split: option.splits)
qed

text \<open>
  C24: The search of a directory that goes on behind its first sector finds the names of the first 15
  entries only: when the name is none of these, the loader divides by zero before it looks at
  another entry.
\<close>

theorem find_entry_second_sector:
  assumes "in_use loc fd m" and "opened_directory fd" and "11 \<le> length fatName"
    and "reads_ok bios disk img" and "loc \<noteq> RootFile"
    and "next_loc loc m (CurrentCluster fd, CurrentSectorInCluster fd) = Inr cs"
    and "unat (loc_lba loc m cs) < disk_size disk" and "fst cs < 0xFF8"
  shows "find_entry bios disk loc fatName m =
    Some (case first_named (sector_entry (Buffer fd)) fatName 0 15 of
       None \<Rightarrow> Inl DivideError
     | Some k \<Rightarrow> Inr (Some (directory_entry (sector_entry (Buffer fd) k)), set_file_data loc (moved fd (of_nat (32 * Suc k))) m))"
proof -
  have "find_entry bios disk loc fatName (set_file_data loc (after_entries cs fd 15) m) = Some (Inl DivideError)"
    using directory_entry_divides [OF assms(1,2,4-8)] by (subst find_entry.simps) simp
  moreover have "after_entries cs fd (Suc k) = moved fd (of_nat (32 * Suc k))"
    if "first_named (sector_entry (Buffer fd)) fatName 0 15 = Some k" for k
    using that by (auto simp: first_named_def after_entries_def find_Some_iff simp del: upt_rec_numeral)
  moreover have "dir_standing loc fd cs 15 m 0 m" by (rule dir_standing_0 [OF assms(1,2)]) simp_all
  ultimately show ?thesis
    using below.search [OF _ _ assms(3), of loc fd cs 15 m 0 m bios disk]
    by (auto simp: dir_standing_def split: option.splits)
qed

section \<open>Resolving a path\<close>

definition is_directory :: "FAT_DirectoryEntry \<Rightarrow> bool" where
  "is_directory entry \<longleftrightarrow> Attributes entry AND FAT_ATTRIBUTE_DIRECTORY \<noteq> 0"

definition on_disk :: "DISK \<Rightarrow> ('w, 'e) fat_machine_scheme \<Rightarrow> FAT_DirectoryEntry \<Rightarrow> bool" where
  "on_disk disk m entry \<longleftrightarrow> unat (FAT_ClusterToLba m (entry_cluster entry)) < disk_size disk"

definition first_sector :: "(nat \<Rightarrow> u8 list) \<Rightarrow> ('w, 'e) fat_machine_scheme \<Rightarrow> FAT_DirectoryEntry \<Rightarrow> u8 list" where
  "first_sector img m entry = img (unat (FAT_ClusterToLba m (entry_cluster entry)))"

text \<open>An entry of a directory with one sector: it has no size, and no sector follows its first one.\<close>

definition one_sector :: "('w, 'e) fat_machine_scheme \<Rightarrow> FAT_DirectoryEntry \<Rightarrow> bool" where
  "one_sector m entry \<longleftrightarrow> is_directory entry \<and> EntrySize entry = 0 \<and>
     (case next_loc (SlotFile 0) m (entry_cluster entry, 0) of Inl e \<Rightarrow> False | Inr cs \<Rightarrow> 0xFF8 \<le> fst cs)"

text \<open>
  What the names of a path, taken off it as \<^verbatim>\<open>FAT_Open\<close> does, lead to from an entry on: the entry of the
  last name, or none when some name is not in its directory or is, before the last, no directory's.
\<close>

inductive resolves ::
  "DISK \<Rightarrow> (nat \<Rightarrow> u8 list) \<Rightarrow> ('w, 'e) fat_machine_scheme \<Rightarrow>
    FAT_DirectoryEntry \<Rightarrow> u8 list \<Rightarrow> u8 list \<Rightarrow> FAT_DirectoryEntry option \<Rightarrow> bool"
  for disk img m where
  here: "resolves disk img m entry [] name (Some entry)"
| below: "path \<noteq> [] \<Longrightarrow> one_sector m entry \<Longrightarrow> next_name path name = Inr (name', path', isLast) \<Longrightarrow>
    fat_name name' = Inr fatName \<Longrightarrow> lookup_sector (first_sector img m entry) fatName = Some k \<Longrightarrow>
    entry' = directory_entry (sector_entry (first_sector img m entry) k) \<Longrightarrow> isLast \<or> is_directory entry' \<Longrightarrow>
    on_disk disk m entry' \<Longrightarrow> resolves disk img m entry' path' name' r \<Longrightarrow> resolves disk img m entry path name r"
| missing: "path \<noteq> [] \<Longrightarrow> one_sector m entry \<Longrightarrow> next_name path name = Inr (name', path', isLast) \<Longrightarrow>
    fat_name name' = Inr fatName \<Longrightarrow> lookup_sector (first_sector img m entry) fatName = None \<Longrightarrow>
    resolves disk img m entry path name None"
| no_directory: "path \<noteq> [] \<Longrightarrow> one_sector m entry \<Longrightarrow> next_name path name = Inr (name', path', False) \<Longrightarrow>
    fat_name name' = Inr fatName \<Longrightarrow> lookup_sector (first_sector img m entry) fatName = Some k \<Longrightarrow>
    \<not> is_directory (directory_entry (sector_entry (first_sector img m entry) k)) \<Longrightarrow>
    resolves disk img m entry path name None"

inductive_cases resolves_endE: "resolves disk img m entry [] name r"
inductive_cases resolves_nameE: "resolves disk img m entry (c # path) name r"

text \<open>A path leads to one entry only.\<close>

lemma resolves_functional:
  assumes "resolves disk img m entry path name r" and "resolves disk img m entry path name r'"
  shows "r = r'"
  using assms
proof (induction arbitrary: r' rule: resolves.induct)
  case (here entry name)
  then show ?case by (auto elim: resolves_endE)
next
  case (below path entry name name' path' isLast fatName k entry' r)
  then obtain c cs where path: "path = c # cs" by (cases path) simp_all
  note hyps = below.hyps(3-7) [unfolded path]
  from below.prems [unfolded path] show ?case
    by (rule resolves_nameE) (use hyps in \<open>auto intro: below.IH\<close>)
next
  case (missing path entry name name' path' isLast fatName)
  then obtain c cs where path: "path = c # cs" by (cases path) simp_all
  note hyps = missing.hyps(3-5) [unfolded path]
  from missing.prems [unfolded path] show ?case
    by (rule resolves_nameE) (use hyps in auto)
next
  case (no_directory path entry name name' path' fatName k)
  then obtain c cs where path: "path = c # cs" by (cases path) simp_all
  note hyps = no_directory.hyps(3-6) [unfolded path]
  from no_directory.prems [unfolded path] show ?case
    by (rule resolves_nameE) (use hyps in auto)
qed

text \<open>The name the directory is searched for has twelve bytes.\<close>

lemma length_copy_base: "length (copy_base name e left i fatName) = length fatName"
  by (induction left arbitrary: i fatName) auto

lemma length_copy_ext: "length (copy_ext name e left i fatName) = length fatName"
  by (induction left arbitrary: i fatName) auto

lemma length_fat_name: "fat_name name = Inr fatName \<Longrightarrow> length fatName = 12"
  by (auto simp: fat_name_def Let_def bindE_eq_Inr length_copy_base length_copy_ext)

text \<open>Handle \<open>h\<close> is the first that is free or is about to be.\<close>

definition first_handle :: "nat \<Rightarrow> ('w, 'e) fat_machine_scheme \<Rightarrow> bool" where
  "first_handle h m \<longleftrightarrow> h < MAX_FILE_HANDLES \<and> length (OpenedFiles m) = MAX_FILE_HANDLES \<and>
     (\<forall>j < h. Opened (OpenedFiles m ! j)) \<and> (\<forall>fd \<in> set (OpenedFiles m). length (Buffer fd) = 512)"

lemma free_handle_iff:
  "free_handle fds i = Some h \<longleftrightarrow> i \<le> h \<and> h - i < length fds \<and> \<not> Opened (fds ! (h - i)) \<and> (\<forall>j < h - i. Opened (fds ! j))"
proof (induction fds arbitrary: i)
  case (Cons fd fds)
  show ?case
  proof (cases "h \<le> i")
    case True
    then show ?thesis using Cons.IH [of "Suc i"] by (cases "h = i") auto
  next
    case False
    then have "h - i = Suc (h - Suc i)" by simp
    then show ?thesis using Cons.IH [of "Suc i"] False by (auto simp: less_Suc_eq_0_disj nth_Cons')
  qed
qed simp

lemma first_handle_free:
  "length (OpenedFiles m) = MAX_FILE_HANDLES \<Longrightarrow> \<forall>fd \<in> set (OpenedFiles m). length (Buffer fd) = 512 \<Longrightarrow>
   free_handle (OpenedFiles m) 0 = Some h \<longleftrightarrow> first_handle h m \<and> \<not> Opened (OpenedFiles m ! h)"
  by (auto simp: free_handle_iff first_handle_def)

lemma first_handle_update:
  assumes "first_handle h m" and "length (Buffer fd) = 512"
  shows "first_handle h (m \<lparr> OpenedFiles := (OpenedFiles m)[h := fd] \<rparr>)"
  using assms by (auto simp: first_handle_def dest: set_update_subset_insert [THEN subsetD])

text \<open>Searching the open directory of a handle and closing it.\<close>

lemma next_loc_slot: "loc \<noteq> RootFile \<Longrightarrow> next_loc loc m = next_loc (SlotFile 0) m"
  by (rule ext) (simp add: next_loc_def split: prod.split)

lemma directory_searched:
  fixes m :: "('w, 'e) fat_machine_scheme"
  assumes "first_handle h m" and "OpenedFiles m ! h = opened_file img m h entry" and "one_sector m entry"
    and "fat_name name' = Inr fatName" and "length (first_sector img m entry) = 512"
  shows "\<exists>fd m1. FAT_FindFile bios disk (SlotFile h) name' m =
      Some (Inr (map_option (\<lambda>k. directory_entry (sector_entry (first_sector img m entry) k))
        (lookup_sector (first_sector img m entry) fatName), m1)) \<and>
    FAT_Close (SlotFile h) m1 = Inr (m \<lparr> OpenedFiles := (OpenedFiles m)[h := fd] \<rparr>) \<and>
    \<not> Opened fd \<and> length (Buffer fd) = 512"
proof -
  let ?fd = "opened_file img m h entry"
  have h: "h < 10" "h < length (OpenedFiles m)" using assms(1) by (simp_all add: first_handle_def MAX_FILE_HANDLES_def)
  have buffer: "Buffer ?fd = first_sector img m entry" by (simp add: opened_file_def first_sector_def)
  have use: "in_use (SlotFile h) ?fd m"
    using assms(2,5) h buffer by (auto simp: in_use_def opened_file_def)
  have dir: "opened_directory ?fd"
    using assms(3) by (simp add: opened_directory_def opened_file_def one_sector_def is_directory_def)
  obtain cs where "next_loc (SlotFile 0) m (entry_cluster entry, 0) = Inr cs" "0xFF8 \<le> fst cs"
    using assms(3) by (auto simp: one_sector_def split: sum.splits)
  then have "chain_ends (SlotFile h) m (CurrentCluster ?fd, CurrentSectorInCluster ?fd) cs"
    by (simp add: chain_ends_def next_loc_slot [of "SlotFile h"] opened_file_def)
  from find_in_directory [OF use dir _ this, of fatName bios disk] length_fat_name [OF assms(4)]
  obtain k where find: "FAT_FindFile bios disk (SlotFile h) name' m =
      Some (Inr (map_option (\<lambda>k. directory_entry (sector_entry (first_sector img m entry) k))
        (lookup_sector (first_sector img m entry) fatName), set_file_data (SlotFile h) (after_entries cs ?fd k) m))"
    by (simp add: FAT_FindFile_def assms(4) buffer)
  have "Handle (Public ?fd) = of_nat h" by (simp add: opened_file_def)
  moreover have "unat (of_nat h :: i32) = h" using h(1) by (intro unat_of_nat_small) simp
  ultimately have "FAT_Close (SlotFile h) (set_file_data (SlotFile h) (after_entries cs ?fd k) m) =
      Inr (m \<lparr> OpenedFiles := (OpenedFiles m)[h := after_entries cs ?fd k \<lparr> Opened := False \<rparr>] \<rparr>)"
    using h slot_handle_not_root [OF h(1)] by (simp add: FAT_Close_def)
  then show ?thesis
    using find assms(5) by (intro exI conjI) (assumption | simp add: buffer)+
qed

text \<open>The path is followed through the handle of the first directory.\<close>

definition same_volume :: "('w, 'e) fat_machine_scheme \<Rightarrow> ('w, 'e) fat_machine_scheme \<Rightarrow> bool" where
  "same_volume m m' \<longleftrightarrow> BootSectorBytes m' = BootSectorBytes m \<and> dataSectionLba m' = dataSectionLba m \<and> fat m' = fat m"

lemma same_volume_facts:
  assumes "same_volume m m'"
  shows "FAT_ClusterToLba m' c = FAT_ClusterToLba m c" "first_sector img m' = first_sector img m"
    "one_sector m' = one_sector m" "on_disk disk m' = on_disk disk m" "opened_file img m' h = opened_file img m h"
proof -
  note fields = assms [unfolded same_volume_def]
  have lba: "FAT_ClusterToLba m' c = FAT_ClusterToLba m c" for c
    using fields by (intro cluster_cong(1)) simp_all
  have "next_loc (SlotFile 0) m' = next_loc (SlotFile 0) m"
    using fields by (intro location_cong(1)) simp_all
  then show "FAT_ClusterToLba m' c = FAT_ClusterToLba m c" "first_sector img m' = first_sector img m"
      "one_sector m' = one_sector m" "on_disk disk m' = on_disk disk m" "opened_file img m' h = opened_file img m h"
    by (simp_all add: lba fun_eq_iff first_sector_def one_sector_def on_disk_def opened_file_def)
qed

definition resolved :: "(nat \<Rightarrow> u8 list) \<Rightarrow> ('w, 'e) fat_machine_scheme \<Rightarrow> nat \<Rightarrow> FAT_DirectoryEntry option \<Rightarrow> FAT_FileData \<Rightarrow> bool" where
  "resolved img m h r fd \<longleftrightarrow> (case r of None \<Rightarrow> \<not> Opened fd | Some entry \<Rightarrow> fd = opened_file img m h entry)"

definition result_ptr :: "nat \<Rightarrow> FAT_DirectoryEntry option \<Rightarrow> file_ptr" where
  "result_ptr h r = (case r of None \<Rightarrow> NullFile | Some entry \<Rightarrow> SlotFile h)"

text \<open>The search through the handle, seen from a machine with the same volume.\<close>

lemma volume_searched:
  fixes m m' :: "('w, 'e) fat_machine_scheme"
  assumes "reads_ok bios disk img" and "same_volume m m'" and "first_handle h m'" and "OpenedFiles m' ! h = opened_file img m h entry"
    and "one_sector m entry" and "fat_name name' = Inr fatName"
  obtains fd m1 where
    "FAT_FindFile bios disk (SlotFile h) name' m' =
      Some (Inr (map_option (\<lambda>k. directory_entry (sector_entry (first_sector img m entry) k))
        (lookup_sector (first_sector img m entry) fatName), m1))"
    and "FAT_Close (SlotFile h) m1 = Inr (m' \<lparr> OpenedFiles := (OpenedFiles m')[h := fd] \<rparr>)"
    and "\<not> Opened fd" and "length (Buffer fd) = 512"
proof -
  have "length (first_sector img m entry) = 512"
    using assms(1) by (simp add: first_sector_def reads_ok_def reads_disk_def)
  then show thesis
    using that directory_searched [of h m' img entry name' fatName bios disk] assms(3-6)
    by (auto simp: same_volume_facts [OF assms(2)])
qed

lemma open_directory_step:
  fixes m m' :: "('w, 'e) fat_machine_scheme"
  assumes "reads_ok bios disk img" and "same_volume m m'" and "first_handle h m'" and "OpenedFiles m' ! h = opened_file img m h entry"
    and "one_sector m entry" and "fat_name name' = Inr fatName"
    and "path \<noteq> []" and "next_name path name = Inr (name', path', isLast)"
    and "lookup_sector (first_sector img m entry) fatName = Some k"
    and "entry' = directory_entry (sector_entry (first_sector img m entry) k)" and "isLast \<or> is_directory entry'"
    and "on_disk disk m entry'"
  shows "\<exists>c w. open_path bios disk path name (SlotFile h) m' = open_path bios disk path' name' (SlotFile h)
    (m' \<lparr> OpenedFiles := (OpenedFiles m')[h := opened_file img m h entry'] \<rparr> \<lparr> console := c, world := w \<rparr>)"
proof -
  obtain fd1 m1 where find: "FAT_FindFile bios disk (SlotFile h) name' m' = Some (Inr (Some entry', m1))"
    and close: "FAT_Close (SlotFile h) m1 = Inr (m' \<lparr> OpenedFiles := (OpenedFiles m')[h := fd1] \<rparr>)"
    and fd1: "\<not> Opened fd1" "length (Buffer fd1) = 512"
    by (rule volume_searched [OF assms(1-6)]) (use assms(9,10) in \<open>auto intro!: that\<close>)
  let ?m2 = "m' \<lparr> OpenedFiles := (OpenedFiles m')[h := fd1] \<rparr>"
  obtain c2 where log: "boot_log LOG_NORMAL fatlogid ''Opening %s'' [Str name'] ?m2 = Inr (?m2 \<lparr> console := c2 \<rparr>)"
    using log_fat_names(1) by (rule logged_obtain)
  let ?m3 = "?m2 \<lparr> console := c2 \<rparr>"
  have vol3: "same_volume m ?m3" using assms(2) by (simp add: same_volume_def)
  have first: "first_handle h ?m3"
    using first_handle_update [OF assms(3) fd1(2)] by (simp add: first_handle_def)
  moreover have "h < length (OpenedFiles m')" using assms(3) by (simp add: first_handle_def)
  ultimately have "free_handle (OpenedFiles ?m3) 0 = Some h"
    using first_handle_free [of ?m3 h] fd1(1) by (simp add: first_handle_def)
  moreover have "unat (FAT_ClusterToLba ?m3 (entry_cluster entry')) < disk_size disk"
    using assms(12) by (simp add: on_disk_def same_volume_facts(1) [OF vol3])
  ultimately obtain c3 w3 where "FAT_OpenEntry bios disk entry' ?m3 = Inr (SlotFile h,
      m' \<lparr> OpenedFiles := (OpenedFiles m')[h := opened_file img m h entry'] \<rparr> \<lparr> console := c3, world := w3 \<rparr>)"
    using FAT_OpenEntry_ok [OF assms(1), of ?m3 h entry'] first
    by (auto simp: first_handle_def same_volume_facts(5) [OF vol3])
  then have "open_path bios disk path name (SlotFile h) m' = open_path bios disk path' name' (SlotFile h)
      (m' \<lparr> OpenedFiles := (OpenedFiles m')[h := opened_file img m h entry'] \<rparr> \<lparr> console := c3, world := w3 \<rparr>)"
    using find close log assms(7,8,11)
    by (auto simp: open_path.simps [of bios disk path] is_directory_def)
  then show ?thesis by blast
qed

lemma open_path_resolves:
  fixes m m' :: "('w, 'e) fat_machine_scheme"
  assumes "reads_ok bios disk img" and "resolves disk img m entry path name r"
    and "same_volume m m'" and "first_handle h m'" and "OpenedFiles m' ! h = opened_file img m h entry"
  shows "\<exists>fd c w. open_path bios disk path name (SlotFile h) m' = Some (Inr (result_ptr h r,
      m' \<lparr> OpenedFiles := (OpenedFiles m')[h := fd] \<rparr> \<lparr> console := c, world := w \<rparr>)) \<and> resolved img m h r fd"
  using assms(2-5)
proof (induction arbitrary: m' rule: resolves.induct)
  case (here entry name)
  have "m' = m' \<lparr> OpenedFiles := (OpenedFiles m')[h := opened_file img m h entry] \<rparr> \<lparr> console := console m', world := world m' \<rparr>"
    using here.prems(3) list_update_id [of "OpenedFiles m'" h] by simp
  moreover have "open_path bios disk [] name (SlotFile h) m' = Some (Inr (SlotFile h, m'))"
    by (simp add: open_path.simps)
  ultimately show ?case
    by (intro exI [of _ "opened_file img m h entry"] exI [of _ "console m'"] exI [of _ "world m'"])
      (simp add: result_ptr_def resolved_def)
next
  case (below path entry name name' path' isLast fatName k entry' r)
  obtain c1 w1 where step: "open_path bios disk path name (SlotFile h) m' = open_path bios disk path' name' (SlotFile h)
      (m' \<lparr> OpenedFiles := (OpenedFiles m')[h := opened_file img m h entry'] \<rparr> \<lparr> console := c1, world := w1 \<rparr>)"
    using open_directory_step [OF assms(1) below.prems below.hyps(2,4,1,3,5-8)] by (elim exE)
  let ?m1 = "m' \<lparr> OpenedFiles := (OpenedFiles m')[h := opened_file img m h entry'] \<rparr> \<lparr> console := c1, world := w1 \<rparr>"
  have "length (Buffer (opened_file img m h entry')) = 512"
    using assms(1) by (simp add: opened_file_def reads_ok_def reads_disk_def)
  then have "first_handle h ?m1"
    using first_handle_update [OF below.prems(2)] by (simp add: first_handle_def)
  moreover have "same_volume m ?m1" using below.prems(1) by (simp add: same_volume_def)
  moreover have "h < length (OpenedFiles m')" using below.prems(2) by (simp add: first_handle_def)
  ultimately obtain fd c w where "open_path bios disk path' name' (SlotFile h) ?m1 = Some (Inr (result_ptr h r,
      ?m1 \<lparr> OpenedFiles := (OpenedFiles ?m1)[h := fd] \<rparr> \<lparr> console := c, world := w \<rparr>))" "resolved img m h r fd"
    using below.IH [of ?m1] by auto
  then show ?case unfolding step by (intro exI [of _ fd] exI [of _ c] exI [of _ w]) simp
next
  case (missing path entry name name' path' isLast fatName)
  obtain fd1 m1 where find: "FAT_FindFile bios disk (SlotFile h) name' m' = Some (Inr (None, m1))"
    and close: "FAT_Close (SlotFile h) m1 = Inr (m' \<lparr> OpenedFiles := (OpenedFiles m')[h := fd1] \<rparr>)"
    and fd1: "\<not> Opened fd1"
    by (rule volume_searched [OF assms(1) missing.prems missing.hyps(2,4)]) (use missing.hyps(5) in \<open>auto intro!: that\<close>)
  obtain c where "boot_log LOG_ERROR fatlogid ''file \"%s\" not found'' [Str name'] (m' \<lparr> OpenedFiles := (OpenedFiles m')[h := fd1] \<rparr>) =
      Inr (m' \<lparr> OpenedFiles := (OpenedFiles m')[h := fd1] \<rparr> \<lparr> console := c \<rparr>)"
    using log_fat_names(2) by (rule logged_obtain)
  then show ?case
    using find close fd1 missing.hyps(1,3)
    by (intro exI [of _ fd1] exI [of _ c] exI [of _ "world m'"])
      (simp add: open_path.simps [of bios disk path] result_ptr_def resolved_def)
next
  case (no_directory path entry name name' path' fatName k)
  let ?entry' = "directory_entry (sector_entry (first_sector img m entry) k)"
  obtain fd1 m1 where find: "FAT_FindFile bios disk (SlotFile h) name' m' = Some (Inr (Some ?entry', m1))"
    and close: "FAT_Close (SlotFile h) m1 = Inr (m' \<lparr> OpenedFiles := (OpenedFiles m')[h := fd1] \<rparr>)"
    and fd1: "\<not> Opened fd1"
    by (rule volume_searched [OF assms(1) no_directory.prems no_directory.hyps(2,4)]) (use no_directory.hyps(5) in \<open>auto intro!: that\<close>)
  obtain c where "boot_log LOG_ERROR fatlogid ''%s is not a directory'' [Str name'] (m' \<lparr> OpenedFiles := (OpenedFiles m')[h := fd1] \<rparr>) =
      Inr (m' \<lparr> OpenedFiles := (OpenedFiles m')[h := fd1] \<rparr> \<lparr> console := c \<rparr>)"
    using log_fat_names(3) by (rule logged_obtain)
  then show ?case
    using find close fd1 no_directory.hyps(1,3,6)
    by (intro exI [of _ fd1] exI [of _ c] exI [of _ "world m'"])
      (simp add: open_path.simps [of bios disk path] result_ptr_def resolved_def is_directory_def)
qed

text \<open>
  C11: On a disk without errors \<^verbatim>\<open>FAT_Open\<close> follows a path of any number of names through directories of one
  sector each, as the relation \<open>resolves\<close> says: it returns the file of the entry the last name leads to,
  opened under the first free handle, through which every directory on the way was read and closed;
  or, when a name is missing or is no directory's, \<^verbatim>\<open>NULL\<close> with that handle free again.  No other handle changes.
\<close>

theorem FAT_Open_resolves:
  fixes m :: "('w, 'e) fat_machine_scheme"
  assumes "reads_ok bios disk img" and "volume_ok disk (img 0)" and "RootDirectory m = root_file img 0"
    and "length (OpenedFiles m) = MAX_FILE_HANDLES" and "\<forall>fd \<in> set (OpenedFiles m). length (Buffer fd) = 512"
    and "free_handle (OpenedFiles m) 0 = Some h"
    and "path \<noteq> []" and "next_name path (take 256 junk) = Inr (name, path', isLast)" and "fat_name name = Inr fatName"
    and "found_at img fatName k" and "entry = directory_entry (root_entry img k)" and "isLast \<or> is_directory entry"
    and "on_disk disk m entry" and "resolves disk img m entry path' name r"
  shows "\<exists>fd c w. FAT_Open bios disk (ch CHR ''/'' # path) junk m = Some (Inr (result_ptr h r,
      m \<lparr> RootDirectory := closed_root img (Suc k), OpenedFiles := (OpenedFiles m)[h := fd] \<rparr> \<lparr> console := c, world := w \<rparr>)) \<and>
    resolved img m h r fd"
proof -
  have "11 \<le> length fatName" using length_fat_name [OF assms(9)] by simp
  from open_root_step [OF assms(1-3,8,9,7) this assms(10,6,4,5)] assms(11-13)
  obtain c1 w1 where step: "open_path bios disk path (take 256 junk) RootFile m = open_path bios disk path' name (SlotFile h)
      (m \<lparr> RootDirectory := closed_root img (Suc k), OpenedFiles := (OpenedFiles m)[h := opened_file img m h entry] \<rparr>
        \<lparr> console := c1, world := w1 \<rparr>)"
    by (auto simp: is_directory_def on_disk_def)
  let ?m1 = "m \<lparr> RootDirectory := closed_root img (Suc k), OpenedFiles := (OpenedFiles m)[h := opened_file img m h entry] \<rparr>
      \<lparr> console := c1, world := w1 \<rparr>"
  have first: "first_handle h m" using first_handle_free [OF assms(4,5), of h] assms(6) by blast
  moreover have "length (Buffer (opened_file img m h entry)) = 512"
    using assms(1) by (simp add: opened_file_def reads_ok_def reads_disk_def)
  ultimately have "first_handle h ?m1"
    using first_handle_update [of h m] by (simp add: first_handle_def)
  moreover have "same_volume m ?m1" by (simp add: same_volume_def)
  moreover have "h < length (OpenedFiles m)" using first by (simp add: first_handle_def)
  ultimately obtain fd c w where "open_path bios disk path' name (SlotFile h) ?m1 = Some (Inr (result_ptr h r,
      ?m1 \<lparr> OpenedFiles := (OpenedFiles ?m1)[h := fd] \<rparr> \<lparr> console := c, world := w \<rparr>))" "resolved img m h r fd"
    using open_path_resolves [OF assms(1,14), of ?m1 h] by auto
  then show ?thesis
    unfolding FAT_Open_slash step by (intro exI [of _ fd] exI [of _ c] exI [of _ w]) simp
qed

section \<open>A volume with a directory\<close>

text \<open>
  The root directory's first entry is the directory \<^verbatim>\<open>FIRMWARE\<close> in cluster 4, whose second entry is the file
  \<^verbatim>\<open>KERNEL.BIN\<close> in the clusters 2 and 3.
\<close>

definition raw_directory :: "string \<Rightarrow> u8 \<Rightarrow> u8 list" where
  "raw_directory name cl = bytes_of name @ [FAT_ATTRIBUTE_DIRECTORY] @ replicate 14 0 @ [cl, 0, 0, 0, 0, 0]"

definition firmware_sector :: "u8 list" where
  "firmware_sector = raw_entry ''README  TXT'' 9 100 @ raw_entry ''KERNEL  BIN'' 2 1000 @ replicate 448 0"

definition firmware_volume :: "nat \<Rightarrow> u8 list" where
  "firmware_volume = kernel_volume (2 := pack12 [0xFF0, 0xFFF, 3, 0xFFF, 0xFFF] @ replicate 504 0,
     4 := raw_directory ''FIRMWARE   '' 4 @ replicate 480 0, 7 := firmware_sector)"

lemma length_firmware_volume: "length (firmware_volume n) = 512"
  by (simp add: firmware_volume_def length_kernel_volume raw_directory_def firmware_sector_def raw_entry_def)

lemma firmware_volume_0: "firmware_volume 0 = boot_sector"
  by (simp add: firmware_volume_def kernel_volume_def)

lemma firmware_volume_ok: "volume_ok floppy (firmware_volume 0)"
  using kernel_volume_ok by (simp add: firmware_volume_0 kernel_volume_def)

lemma firmware_reads_ok: "reads_ok (rom_bios floppy firmware_volume) floppy firmware_volume"
  by (rule rom_reads_ok) (simp_all add: length_firmware_volume geometry_ok_def floppy_def)

definition firmware_machine :: "nat fat_machine" where
  "firmware_machine = mounted firmware_volume (empty_fat_machine 0)"

lemma firmware_files:
  "RootDirectory firmware_machine = root_file firmware_volume 0" "free_handle (OpenedFiles firmware_machine) 0 = Some 0"
  "length (OpenedFiles firmware_machine) = MAX_FILE_HANDLES" "\<forall>fd \<in> set (OpenedFiles firmware_machine). length (Buffer fd) = 512"
  unfolding firmware_machine_def by (rule mounted_files [OF empty_storage_ok])+

definition firmware_entry :: FAT_DirectoryEntry where
  "firmware_entry = directory_entry (raw_directory ''FIRMWARE   '' 4)"

lemma firmware_entry_fields:
  "entry_cluster firmware_entry = 4" "EntrySize firmware_entry = 0" "is_directory firmware_entry"
  by (simp_all add: firmware_entry_def directory_entry_def raw_directory_def entry_cluster_def le16_at_def le16_def le32_def
      nth_append is_directory_def FAT_ATTRIBUTE_DIRECTORY_def)

lemma firmware_lba: "FAT_ClusterToLba firmware_machine c = 5 + (c - 2)"
  by (simp add: firmware_machine_def mounted_lba firmware_volume_0) (simp add: boot_sector_layout, simp add: boot_sector_def)

lemma firmware_next:
  "FAT_NextCluster firmware_machine 2 = Inr 3" "FAT_NextCluster firmware_machine 4 = Inr 0xFFF"
  by (simp_all add: FAT_NextCluster_def firmware_machine_def mounted_def firmware_volume_0 boot_sector_layout sector_data_def
      length_firmware_volume empty_fat_machine_def blank_fat_machine_def)
    (simp_all add: firmware_volume_def le16_at_def le16_def)

lemma firmware_next_loc: "next_loc (SlotFile h) firmware_machine (c, 0) = bindE (FAT_NextCluster firmware_machine c) (\<lambda>c. Inr (c, 0))"
  by (simp add: next_loc_def SectorsPerCluster_def firmware_machine_def mounted_def firmware_volume_0)
    (simp add: boot_sector_def)

lemma firmware_first_sector: "first_sector firmware_volume firmware_machine firmware_entry = firmware_sector"
  by (simp add: first_sector_def firmware_lba firmware_entry_fields firmware_volume_def)

lemma firmware_lookup: "lookup_sector firmware_sector kernel_name = Some 1"
  by (simp add: first_named_def firmware_sector_def sector_entry_def kernel_name_eq upt_rec take_raw_entry length_raw_entry)

lemma firmware_resolves:
  "resolves floppy firmware_volume firmware_machine firmware_entry (bytes_of ''kernel.bin'')
     (bytes_of ''firmware'' @ [0x78, 0] @ replicate 246 0x78) (Some (directory_entry (raw_entry ''KERNEL  BIN'' 2 1000)))"
proof (rule resolves.below)
  show "one_sector firmware_machine firmware_entry"
    by (simp add: one_sector_def firmware_entry_fields firmware_next_loc firmware_next)
  show "next_name (bytes_of ''kernel.bin'') (bytes_of ''firmware'' @ [0x78, 0] @ replicate 246 0x78) =
      Inr (bytes_of ''kernel.bin'' @ [0x78, 0] @ replicate 244 0x78, [], True)"
    using next_name_component [OF kernel_component, of "bytes_of ''firmware'' @ [0x78, 0] @ replicate 246 0x78"] by simp
  show "fat_name (bytes_of ''kernel.bin'' @ [0x78, 0] @ replicate 244 0x78) = Inr kernel_name"
    using fat_name_with_ext [of "bytes_of ''kernel''" "bytes_of ''binx''" "replicate 244 0x78"] pad_prefix [of "bytes_of ''bin''" "[0x78]"]
    by (simp add: kernel_name_def name83_def)
  show "lookup_sector (first_sector firmware_volume firmware_machine firmware_entry) kernel_name = Some 1"
    unfolding firmware_first_sector by (rule firmware_lookup)
  show "directory_entry (raw_entry ''KERNEL  BIN'' 2 1000) =
      directory_entry (sector_entry (first_sector firmware_volume firmware_machine firmware_entry) 1)"
    unfolding firmware_first_sector by (simp add: sector_entry_def firmware_sector_def length_raw_entry)
  show "on_disk floppy firmware_machine (directory_entry (raw_entry ''KERNEL  BIN'' 2 1000))"
    by (simp add: on_disk_def firmware_lba entry_cluster_def directory_entry_def raw_entry_def le16_at_def le16_def nth_append
        disk_size_def floppy_def)
  show "resolves floppy firmware_volume firmware_machine (directory_entry (raw_entry ''KERNEL  BIN'' 2 1000)) []
      (bytes_of ''kernel.bin'' @ [0x78, 0] @ replicate 244 0x78) (Some (directory_entry (raw_entry ''KERNEL  BIN'' 2 1000)))"
    by (rule resolves.here)
qed simp_all

theorem FAT_Open_resolves_witness:
  "\<exists>c w. FAT_Open (rom_bios floppy firmware_volume) floppy (ch CHR ''/'' # bytes_of ''firmware/kernel.bin'') (replicate 256 0x78)
      firmware_machine =
    Some (Inr (SlotFile 0, firmware_machine \<lparr> RootDirectory := closed_root firmware_volume (Suc 0),
      OpenedFiles := (OpenedFiles firmware_machine)[0 := opened_file firmware_volume firmware_machine 0
        (directory_entry (raw_entry ''KERNEL  BIN'' 2 1000))] \<rparr> \<lparr> console := c, world := w \<rparr>))"
proof -
  have name: "next_name (bytes_of ''firmware/kernel.bin'') (take 256 (replicate 256 0x78)) =
      Inr (bytes_of ''firmware'' @ [0x78, 0] @ replicate 246 0x78, bytes_of ''kernel.bin'', False)"
    using next_name_component [of "bytes_of ''firmware/kernel.bin''" "bytes_of ''firmware''" "bytes_of ''kernel.bin''" False
        "replicate 256 0x78"] by (simp add: component_def)
  have firmware: "name83 (bytes_of ''firmware'') [] = bytes_of ''FIRMWARE   '' @ [0]"
    by (simp add: name83_def pad_def toupper_def islower_def numeral_eq_Suc)
  have fat: "fat_name (bytes_of ''firmware'' @ [0x78, 0] @ replicate 246 0x78) = Inr (name83 (bytes_of ''firmware'') [])"
    using fat_name_without_ext [of "bytes_of ''firmwarex''" "replicate 246 0x78"] by (simp add: name83_def pad_def)
  have root: "root_lba (firmware_volume 0) = 4" "root_entries (firmware_volume 0) = 16"
    by (simp_all add: firmware_volume_0 boot_sector_layout)
  have entry: "root_entry firmware_volume 0 = raw_directory ''FIRMWARE   '' 4"
    unfolding root_entry_def root by (simp add: firmware_volume_def raw_directory_def)
  then have found: "found_at firmware_volume (name83 (bytes_of ''firmware'') []) 0"
    unfolding firmware by (simp add: found_at_def named_def root raw_directory_def)
  have e: "firmware_entry = directory_entry (root_entry firmware_volume 0)" by (simp add: entry firmware_entry_def)
  have "on_disk floppy firmware_machine firmware_entry"
    by (simp add: on_disk_def firmware_lba firmware_entry_fields disk_size_def floppy_def)
  from FAT_Open_resolves [OF firmware_reads_ok firmware_volume_ok firmware_files(1,3,4,2) _ name fat found e _ this firmware_resolves]
  show ?thesis by (auto simp: firmware_entry_fields(3) result_ptr_def resolved_def)
qed

text \<open>A directory in the clusters 2 and 3.\<close>

theorem find_entry_second_sector_witness:
  "find_entry (rom_bios floppy firmware_volume) floppy (SlotFile 0) kernel_name (firmware_machine \<lparr> OpenedFiles :=
     (OpenedFiles firmware_machine)[0 := opened_file firmware_volume firmware_machine 0 (directory_entry (raw_directory ''BIG        '' 2))] \<rparr>) =
   Some (Inl DivideError)"
proof -
  let ?entry = "directory_entry (raw_directory ''BIG        '' 2)"
  let ?fd = "opened_file firmware_volume firmware_machine 0 ?entry"
  let ?m = "firmware_machine \<lparr> OpenedFiles := (OpenedFiles firmware_machine)[0 := ?fd] \<rparr>"
  have entry: "entry_cluster ?entry = 2" "EntrySize ?entry = 0" "Attributes ?entry = FAT_ATTRIBUTE_DIRECTORY"
    by (simp_all add: directory_entry_def raw_directory_def entry_cluster_def le16_at_def le16_def le32_def nth_append)
  have "length (OpenedFiles firmware_machine) = 10"
    by (simp add: firmware_files(3) MAX_FILE_HANDLES_def)
  then have use: "in_use (SlotFile 0) ?fd ?m"
    by (auto simp: in_use_def opened_file_def length_firmware_volume intro: exI [of _ 0])
  have dir: "opened_directory ?fd"
    by (simp add: opened_directory_def opened_file_def entry FAT_ATTRIBUTE_DIRECTORY_def)
  have cong: "next_loc (SlotFile 0) ?m = next_loc (SlotFile 0) firmware_machine" "loc_lba (SlotFile 0) ?m = loc_lba (SlotFile 0) firmware_machine"
    by (rule location_cong; simp)+
  have on: "next_loc (SlotFile 0) ?m (CurrentCluster ?fd, CurrentSectorInCluster ?fd) = Inr (3, 0)"
    unfolding cong by (simp add: opened_file_def entry firmware_next_loc firmware_next)
  have lba: "unat (loc_lba (SlotFile 0) ?m (3, 0)) < disk_size floppy"
    unfolding cong by (simp add: loc_lba_def firmware_lba disk_size_def floppy_def)
  have "Buffer ?fd = replicate 512 5"
    by (simp add: opened_file_def entry firmware_lba firmware_volume_def kernel_volume_def)
  then have "set (take 11 (sector_entry (Buffer ?fd) k)) \<subseteq> {5}" for k
    by (auto simp: sector_entry_def dest!: in_set_takeD in_set_dropD)
  then have "0x4B \<notin> set (take 11 (sector_entry (Buffer ?fd) k))" for k by fastforce
  moreover have "0x4B \<in> set (take 11 kernel_name)" by (simp add: kernel_name_eq)
  ultimately have "take 11 (sector_entry (Buffer ?fd) k) \<noteq> take 11 kernel_name" for k by metis
  then have none: "first_named (sector_entry (Buffer ?fd)) kernel_name 0 15 = None"
    unfolding first_named_def find_None_iff by blast
  have "11 \<le> length kernel_name" "SlotFile 0 \<noteq> RootFile" "fst (3 :: u32, 0 :: u32) < 0xFF8"
    by (simp_all add: kernel_name_eq)
  from find_entry_second_sector [OF use dir this(1) firmware_reads_ok this(2) on lba this(3)]
  show ?thesis unfolding none option.case .
qed

end
