(* ===== verification/Memdetect.thy ===== *)
theory Memdetect
  imports Disk
begin

text \<open>
  The memory map: \<^verbatim>\<open>libs/memdetect.c\<close> and the assembler routine \<^verbatim>\<open>E820NextBlock\<close> behind it.
\<close>

section \<open>Data\<close>

definition MAX_E820_REGIONS :: nat where "MAX_E820_REGIONS = 256"

record E820BlockStruct =
  Base :: u64
  Length :: u64
  BlockType :: u32
  ACPI :: u32

definition le64 :: "u8 list \<Rightarrow> u64" where
  "le64 bs = ucast (le32 (bs ! 0) (bs ! 1) (bs ! 2) (bs ! 3)) OR
     push_bit 32 (ucast (le32 (bs ! 4) (bs ! 5) (bs ! 6) (bs ! 7)))"

text \<open>The structure in its 24 bytes of memory.\<close>

definition block_of :: "u8 list \<Rightarrow> E820BlockStruct" where
  "block_of bs = \<lparr> Base = le64 bs, Length = le64 (drop 8 bs),
     BlockType = le32 (bs ! 16) (bs ! 17) (bs ! 18) (bs ! 19), ACPI = le32 (bs ! 20) (bs ! 21) (bs ! 22) (bs ! 23) \<rparr>"

definition memlogid :: "u8 list" where
  "memlogid = bytes_of ''mapper'' @ [0, 0]"

section \<open>Assembler routines\<close>

definition E820Signature :: u32 where "E820Signature = 0x534D4150"

text \<open>
  \<^verbatim>\<open>E820NextBlock\<close>: its result, the block and the continuation value.  On the way back to protected mode
  the macro \<^verbatim>\<open>enterProtectedMode\<close> saves and restores the lower half of \<open>EAX\<close> only, and leaves the upper
  half of \<open>CR0\<close> in the upper half.
\<close>

definition through_protected_mode :: "'w bios \<Rightarrow> u32 \<Rightarrow> i32" where
  "through_protected_mode bios eax = push_bit 16 (ucast (cr0_high bios)) OR (eax AND 0xFFFF)"

definition E820NextBlock ::
  "'w bios \<Rightarrow> u8 list \<Rightarrow> u32 \<Rightarrow> 'w \<Rightarrow> (i32 \<times> u8 list \<times> u32 \<times> 'w) res" where
  "E820NextBlock bios block contId w =
     (let (r, w) = int15_e820 bios contId w in
      bindE (store_bytes (eStored r) block) (\<lambda>block.
        if eCarry r \<or> eEAX r \<noteq> E820Signature
        then Inr (through_protected_mode bios (- 1), block, contId, w)
        else Inr (through_protected_mode bios (eECX r), block, eEBX r, w)))"

section \<open>The memory map\<close>

definition next_block ::
  "'w bios \<Rightarrow> u8 list \<Rightarrow> u32 \<Rightarrow> ('w, 'e) machine_scheme \<Rightarrow> (i32 \<times> u8 list \<times> u32 \<times> ('w, 'e) machine_scheme) res" where
  "next_block bios block contId m =
     bindE (E820NextBlock bios block contId (world m)) (\<lambda>(ret, block, contId, w).
       Inr (ret, block, contId, m \<lparr> world := w \<rparr>))"

text \<open>The loop of \<^verbatim>\<open>MemDetect\<close>; a region stored past the end of \<^verbatim>\<open>memRegions\<close> is out of bounds.\<close>

function detect_loop ::
  "'w bios \<Rightarrow> i32 \<Rightarrow> u8 list \<Rightarrow> u32 \<Rightarrow> E820BlockStruct list \<Rightarrow> ('w, 'e) machine_scheme
    \<Rightarrow> (E820BlockStruct list \<times> ('w, 'e) machine_scheme) res" where
  "detect_loop bios ret block continuation memRegions m =
     (if 0 <s ret \<and> continuation \<noteq> 0 then
        if MAX_E820_REGIONS \<le> length memRegions then Inl OutOfBounds
        else let b = block_of block in
          bindE (boot_log LOG_NORMAL memlogid ''E820: base=0x%llx | length=0x%llx | type=0x%x''
              (pass_long_long Boot32 (Base b) @ pass_long_long Boot32 (Length b) @ pass_int (BlockType b)) m) (\<lambda>m.
          bindE (next_block bios block continuation m) (\<lambda>(ret, block, continuation, m).
            detect_loop bios ret block continuation (memRegions @ [b]) m))
      else Inr (memRegions, m))"
  by pat_completeness auto
termination
  by (relation "measure (\<lambda>(bios, ret, block, continuation, memRegions, m). MAX_E820_REGIONS - length memRegions)") auto

declare detect_loop.simps [simp del]

text \<open>
  \<^verbatim>\<open>MemDetect\<close> yields the regions \<^verbatim>\<open>memInfo\<close> is made to point to; their number is \<^verbatim>\<open>RegionCount\<close>.  \<open>junk\<close>
  is what the variable \<^verbatim>\<open>block\<close> holds at the call.
\<close>

definition MemDetect ::
  "'w bios \<Rightarrow> u8 list \<Rightarrow> ('w, 'e) machine_scheme \<Rightarrow> (E820BlockStruct list \<times> ('w, 'e) machine_scheme) res" where
  "MemDetect bios junk m =
     bindE (boot_log LOG_NORMAL memlogid ''Getting memory map...'' [] m) (\<lambda>m.
     bindE (next_block bios junk 0 m) (\<lambda>(ret, block, continuation, m).
       detect_loop bios ret block continuation [] m))"

section \<open>Which regions are found\<close>

lemma unat_through:
  "unat (through_protected_mode bios eax) = unat (ucast eax :: u16) + 2 ^ 16 * unat (cr0_high bios)"
proof -
  have mask: "(0xFFFF :: u32) = mask 16" by (simp add: mask_eq_exp_minus_1)
  have "eax AND 0xFFFF = ucast (ucast eax :: u16)"
    unfolding mask by (rule bit_word_eqI) (auto simp: bit_simps)
  then have "through_protected_mode bios eax = ucast (ucast eax :: u16) OR push_bit 16 (ucast (cr0_high bios))"
    by (simp add: through_protected_mode_def or.commute)
  then show ?thesis by (simp only:) (rule or_push_bit_ucast; simp)
qed

text \<open>
  Without paging, which the boot loader does not use, bit 31 of \<open>CR0\<close> is clear, and every result
  whose lower half is not zero is positive: the one for an error as well.
\<close>

lemma through_positive:
  assumes "unat (cr0_high bios) < 2 ^ 15" and "(ucast eax :: u16) \<noteq> 0"
  shows "0 <s through_protected_mode bios eax"
proof -
  have lo: "0 < unat (ucast eax :: u16)" using assms(2) by (metis gr0I unsigned_eq_0_iff)
  have "unat (ucast eax :: u16) < 2 ^ 16" using unsigned_less [of "ucast eax :: u16", where ?'a = nat] by simp
  then have "unat (ucast eax :: u16) + 2 ^ 16 * unat (cr0_high bios) < 2 ^ 31" using assms(1) by simp
  then have "sint (through_protected_mode bios eax) = int (unat (through_protected_mode bios eax))"
    unfolding unat_through by (subst sint_eq_unat) (simp add: unat_through del: of_nat_add of_nat_mult)
  then show ?thesis using lo by (simp add: word_sless_alt unat_through del: of_nat_unat)
qed

lemma length_memlogid [simp]: "length memlogid = 8"
  by (simp add: memlogid_def)

lemma va_long_long_slots [simp]: "va_long_long Boot32 (pass_long_long Boot32 w @ args) = Inr (w, args)"
  by (simp add: pass_long_long_def join_halves)

lemma log_memory_map [log_facts]:
  "logged m (boot_log LOG_NORMAL memlogid ''Getting memory map...'' [] m)"
  "logged m (boot_log LOG_NORMAL memlogid ''E820: base=0x%llx | length=0x%llx | type=0x%x''
     (pass_long_long Boot32 x @ pass_long_long Boot32 y @ pass_int z) m)"
  by (rule boot_log_logged; simp add: log_format.simps(2) lengthless_def radix_of_def unsigned_arg_def)+

text \<open>
  A BIOS with a memory map: the continuation value \<open>c k\<close> asks for block \<open>k\<close>, and is zero at the start and
  at the end.
\<close>

definition e820_map :: "'w bios \<Rightarrow> (nat \<Rightarrow> u32) \<Rightarrow> u8 list list \<Rightarrow> bool" where
  "e820_map bios c blocks \<longleftrightarrow> c 0 = 0 \<and> c (length blocks) = 0 \<and> (\<forall>k < length blocks. k \<noteq> 0 \<longrightarrow> c k \<noteq> 0) \<and>
     (\<forall>k < length blocks. length (blocks ! k) = 24 \<and> (\<forall>w. fst (int15_e820 bios (c k) w) =
       \<lparr> eCarry = False, eEAX = E820Signature, eEBX = c (Suc k), eECX = 24, eStored = blocks ! k \<rparr>))"

lemma next_block_map:
  assumes "e820_map bios c blocks" and "k < length blocks" and "length block = 24" and "unat (cr0_high bios) < 2 ^ 15"
  shows "\<exists>ret w. next_block bios block (c k) m = Inr (ret, blocks ! k, c (Suc k), m \<lparr> world := w \<rparr>) \<and> 0 <s ret"
proof -
  obtain w where "int15_e820 bios (c k) (world m) =
      (\<lparr> eCarry = False, eEAX = E820Signature, eEBX = c (Suc k), eECX = 24, eStored = blocks ! k \<rparr>, w)"
    using assms(1,2) by (metis e820_map_def prod.collapse)
  moreover have "length (blocks ! k) = 24" using assms(1,2) by (simp add: e820_map_def)
  ultimately have "next_block bios block (c k) m =
      Inr (through_protected_mode bios 24, blocks ! k, c (Suc k), m \<lparr> world := w \<rparr>)"
    using assms(3) by (simp add: next_block_def E820NextBlock_def store_bytes_def)
  then show ?thesis using through_positive [OF assms(4), of 24] by auto
qed

lemma detect_loop_map:
  assumes "e820_map bios c blocks" and "unat (cr0_high bios) < 2 ^ 15" and "length blocks \<le> 257"
    and "k < length blocks" and "0 <s ret"
  shows "\<exists>x w. detect_loop bios ret (blocks ! k) (c (Suc k)) (map block_of (take k blocks)) m =
    Inr (map block_of (butlast blocks), m \<lparr> console := x, world := w \<rparr>)"
  using assms(4,5)
proof (induction "length blocks - k" arbitrary: k ret m)
  case (Suc n)
  show ?case
  proof (cases "Suc k = length blocks")
    case True
    then have "c (Suc k) = 0" "take k blocks = butlast blocks"
      using assms(1) by (simp_all add: e820_map_def butlast_conv_take flip: True)
    then have "detect_loop bios ret (blocks ! k) (c (Suc k)) (map block_of (take k blocks)) m =
        Inr (map block_of (butlast blocks), m \<lparr> console := console m, world := world m \<rparr>)"
      by (simp add: detect_loop.simps [of bios ret])
    then show ?thesis by blast
  next
    case False
    then have k: "Suc k < length blocks" using Suc.prems(1) by simp
    then have "c (Suc k) \<noteq> 0" using assms(1) by (simp add: e820_map_def)
    moreover have "length (blocks ! k) = 24" using assms(1) Suc.prems(1) by (simp add: e820_map_def)
    let ?b = "block_of (blocks ! k)"
    obtain x where log: "boot_log LOG_NORMAL memlogid ''E820: base=0x%llx | length=0x%llx | type=0x%x''
        (pass_long_long Boot32 (Base ?b) @ pass_long_long Boot32 (Length ?b) @ pass_int (BlockType ?b)) m =
        Inr (m \<lparr> console := x \<rparr>)"
      using log_memory_map(2) by (rule logged_obtain)
    obtain ret' w where block: "next_block bios (blocks ! k) (c (Suc k)) (m \<lparr> console := x \<rparr>) =
        Inr (ret', blocks ! Suc k, c (Suc (Suc k)), m \<lparr> console := x \<rparr> \<lparr> world := w \<rparr>)" "0 <s ret'"
      using next_block_map [OF assms(1) k \<open>length (blocks ! k) = 24\<close> assms(2)] by blast
    have "map block_of (take (Suc k) blocks) = map block_of (take k blocks) @ [?b]"
      using Suc.prems(1) by (simp add: take_Suc_conv_app_nth)
    moreover have "\<not> MAX_E820_REGIONS \<le> k" using k assms(3) by (simp add: MAX_E820_REGIONS_def)
    ultimately have "detect_loop bios ret (blocks ! k) (c (Suc k)) (map block_of (take k blocks)) m =
        detect_loop bios ret' (blocks ! Suc k) (c (Suc (Suc k))) (map block_of (take (Suc k) blocks))
          (m \<lparr> console := x \<rparr> \<lparr> world := w \<rparr>)"
      using Suc.prems(2) log block(1) by (subst detect_loop.simps) (simp add: Let_def)
    moreover have "n = length blocks - Suc k" using Suc.hyps(2) by simp
    ultimately show ?thesis
      using Suc.hyps(1) [of "Suc k" ret' "m \<lparr> console := x \<rparr> \<lparr> world := w \<rparr>"] k block(2) by auto
  qed
qed simp

lemma MemDetect_map:
  assumes "e820_map bios c blocks" and "blocks \<noteq> []" and "length blocks \<le> 257" and "length junk = 24"
    and "unat (cr0_high bios) < 2 ^ 15"
  shows "\<exists>x w. MemDetect bios junk m = Inr (map block_of (butlast blocks), m \<lparr> console := x, world := w \<rparr>)"
proof -
  obtain x where log: "boot_log LOG_NORMAL memlogid ''Getting memory map...'' [] m = Inr (m \<lparr> console := x \<rparr>)"
    using log_memory_map(1) by (rule logged_obtain)
  have pos: "0 < length blocks" using assms(2) by simp
  have "c 0 = 0" using assms(1) by (simp add: e820_map_def)
  obtain ret w where block: "next_block bios junk (c 0) (m \<lparr> console := x \<rparr>) =
      Inr (ret, blocks ! 0, c (Suc 0), m \<lparr> console := x \<rparr> \<lparr> world := w \<rparr>)" "0 <s ret"
    using next_block_map [OF assms(1) pos assms(4,5)] by blast
  obtain x' w' where "detect_loop bios ret (blocks ! 0) (c (Suc 0)) (map block_of (take 0 blocks))
      (m \<lparr> console := x \<rparr> \<lparr> world := w \<rparr>) =
      Inr (map block_of (butlast blocks), m \<lparr> console := x \<rparr> \<lparr> world := w \<rparr> \<lparr> console := x', world := w' \<rparr>)"
    using detect_loop_map [OF assms(1,5,3) pos block(2)] by blast
  then show ?thesis
    using log block(1) \<open>c 0 = 0\<close> by (auto simp: MemDetect_def)
qed

text \<open>
  C26: Of a memory map of up to 257 blocks \<^verbatim>\<open>MemDetect\<close> records all but the last, in order: it takes the
  continuation value 0 that comes with the last block for the lack of one.
\<close>

theorem MemDetect_drops_last:
  assumes "e820_map bios c blocks" and "blocks \<noteq> []" and "length blocks \<le> 257" and "length junk = 24"
    and "unat (cr0_high bios) < 2 ^ 15"
  shows "\<exists>x w. MemDetect bios junk m = Inr (map block_of (butlast blocks), m \<lparr> console := x, world := w \<rparr>)"
  by (rule MemDetect_map [OF assms])

text \<open>A map of three blocks.\<close>

definition three_blocks :: "u8 list list" where
  "three_blocks = [replicate 24 1, replicate 24 2, replicate 24 3]"

definition three_block_bios :: "nat bios" where
  "three_block_bios = rom_bios floppy test_image \<lparr> int15_e820 := (\<lambda>k w.
     (\<lparr> eCarry = False, eEAX = E820Signature, eEBX = (if k = 2 then 0 else k + 1), eECX = 24,
        eStored = three_blocks ! (unat k) \<rparr>, w)), cr0_high := 0x6000 \<rparr>"

lemma three_block_map: "e820_map three_block_bios (\<lambda>k. if k = 3 then 0 else of_nat k) three_blocks"
proof -
  have all: "(\<forall>k < 3. P k) \<longleftrightarrow> P 0 \<and> P 1 \<and> P 2" for P :: "nat \<Rightarrow> bool"
    by (simp add: numeral_3_eq_3 numeral_2_eq_2 All_less_Suc conj_ac)
  have len: "length three_blocks = 3" by (simp add: three_blocks_def)
  show ?thesis unfolding e820_map_def len all by (simp add: three_block_bios_def) (simp add: three_blocks_def)
qed

theorem MemDetect_drops_last_witness:
  "\<exists>x w. MemDetect three_block_bios (replicate 24 0) (blank_machine 0) =
    Inr (map block_of [replicate 24 1, replicate 24 2], blank_machine 0 \<lparr> console := x, world := w \<rparr>)"
  using MemDetect_drops_last [OF three_block_map, of "replicate 24 0" "blank_machine 0"]
  by (simp add: three_blocks_def) (simp add: three_block_bios_def)

text \<open>
  An error is not taken for one: its result is positive too, and the continuation value stays.
\<close>

definition e820_fails :: "'w bios \<Rightarrow> u32 \<Rightarrow> bool" where
  "e820_fails bios c \<longleftrightarrow> (\<forall>w. let r = fst (int15_e820 bios c w) in
     (eCarry r \<or> eEAX r \<noteq> E820Signature) \<and> length (eStored r) \<le> 24)"

lemma next_block_fails:
  assumes "e820_fails bios c" and "length block = 24" and "unat (cr0_high bios) < 2 ^ 15"
  shows "\<exists>ret block' w. next_block bios block c m = Inr (ret, block', c, m \<lparr> world := w \<rparr>) \<and>
    0 <s ret \<and> length block' = 24"
proof -
  obtain r w where r: "int15_e820 bios c (world m) = (r, w)" by (metis surj_pair)
  then have f: "eCarry r \<or> eEAX r \<noteq> E820Signature" "length (eStored r) \<le> 24"
    using assms(1) by (metis (mono_tags) e820_fails_def fst_conv)+
  let ?block = "eStored r @ drop (length (eStored r)) block"
  have "next_block bios block c m = Inr (through_protected_mode bios (- 1), ?block, c, m \<lparr> world := w \<rparr>)"
    using f r assms(2) by (auto simp: next_block_def E820NextBlock_def store_bytes_def)
  moreover have "0 <s through_protected_mode bios (- 1)"
  proof (rule through_positive [OF assms(3)])
    have "(ucast (- 1 :: u32) :: u16) = - 1" by (rule bit_word_eqI) (simp add: bit_simps)
    then show "(ucast (- 1 :: u32) :: u16) \<noteq> 0" by simp
  qed
  moreover have "length ?block = 24" using f(2) assms(2) by simp
  ultimately show ?thesis by blast
qed

lemma detect_loop_fails:
  assumes "e820_fails bios c" and "c \<noteq> 0" and "unat (cr0_high bios) < 2 ^ 15"
    and "length block = 24" and "0 <s ret" and "length regions \<le> 256"
  shows "detect_loop bios ret block c regions m = Inl OutOfBounds"
  using assms(4-6)
proof (induction "256 - length regions" arbitrary: ret block regions m)
  case 0
  then show ?case using assms(2) by (simp add: detect_loop.simps [of bios ret] MAX_E820_REGIONS_def)
next
  case (Suc n)
  let ?b = "block_of block"
  obtain x where log: "boot_log LOG_NORMAL memlogid ''E820: base=0x%llx | length=0x%llx | type=0x%x''
      (pass_long_long Boot32 (Base ?b) @ pass_long_long Boot32 (Length ?b) @ pass_int (BlockType ?b)) m =
      Inr (m \<lparr> console := x \<rparr>)"
    using log_memory_map(2) by (rule logged_obtain)
  obtain ret' block' w where block: "next_block bios block c (m \<lparr> console := x \<rparr>) =
      Inr (ret', block', c, m \<lparr> console := x \<rparr> \<lparr> world := w \<rparr>)" "0 <s ret'" "length block' = 24"
    using next_block_fails [OF assms(1) Suc.prems(1) assms(3)] by blast
  have "\<not> MAX_E820_REGIONS \<le> length regions" using Suc.hyps(2) by (simp add: MAX_E820_REGIONS_def)
  then have "detect_loop bios ret block c regions m =
      detect_loop bios ret' block' c (regions @ [?b]) (m \<lparr> console := x \<rparr> \<lparr> world := w \<rparr>)"
    using Suc.prems(2) assms(2) log block(1) by (subst detect_loop.simps) (simp add: Let_def)
  also have "... = Inl OutOfBounds"
    using Suc.hyps(2) by (intro Suc.hyps(1) block(2,3)) simp_all
  finally show ?case .
qed

text \<open>
  C25: If the memory map service reports an error, by the carry flag or a wrong signature, for the
  continuation value of the second block, as a BIOS may do to end the map, \<^verbatim>\<open>MemDetect\<close> takes the error for a
  success, records the block in its buffer over and over and runs over the end of \<^verbatim>\<open>memRegions\<close>.
\<close>

theorem MemDetect_error_overflows:
  assumes "\<And>w. fst (int15_e820 bios 0 w) = \<lparr> eCarry = False, eEAX = E820Signature, eEBX = c, eECX = 24, eStored = first \<rparr>"
    and "length first = 24" and "c \<noteq> 0" and "e820_fails bios c" and "length junk = 24"
    and "unat (cr0_high bios) < 2 ^ 15"
  shows "MemDetect bios junk m = Inl OutOfBounds"
proof -
  obtain x where log: "boot_log LOG_NORMAL memlogid ''Getting memory map...'' [] m = Inr (m \<lparr> console := x \<rparr>)"
    using log_memory_map(1) by (rule logged_obtain)
  obtain w where "int15_e820 bios 0 (world m) =
      (\<lparr> eCarry = False, eEAX = E820Signature, eEBX = c, eECX = 24, eStored = first \<rparr>, w)"
    using assms(1) by (metis prod.collapse)
  then have "next_block bios junk 0 (m \<lparr> console := x \<rparr>) =
      Inr (through_protected_mode bios 24, first, c, m \<lparr> console := x \<rparr> \<lparr> world := w \<rparr>)"
    using assms(2,5) by (simp add: next_block_def E820NextBlock_def store_bytes_def)
  moreover have "0 <s through_protected_mode bios 24" by (rule through_positive [OF assms(6)]) simp
  from detect_loop_fails [OF assms(4,3,6,2) this, of "[]"]
  have "detect_loop bios (through_protected_mode bios 24) first c [] m = Inl OutOfBounds" for m by simp
  ultimately show ?thesis using log by (simp add: MemDetect_def)
qed

theorem MemDetect_error_overflows_witness:
  "MemDetect (three_block_bios \<lparr> int15_e820 := (\<lambda>k w.
     (\<lparr> eCarry = (k \<noteq> 0), eEAX = E820Signature, eEBX = 1, eECX = 24, eStored = replicate 24 0 \<rparr>, w)) \<rparr>)
     (replicate 24 0) (blank_machine 0) = Inl OutOfBounds"
  by (rule MemDetect_error_overflows [where c = 1 and first = "replicate 24 0"])
    (simp_all add: e820_fails_def three_block_bios_def)

end
