(* ===== verification/Stage2.thy ===== *)
theory Stage2
  imports Memdetect Fat_Checks
begin

text \<open>
  \<^verbatim>\<open>stage2/main.c\<close>: \<^verbatim>\<open>cmain\<close> initialises the disk and the file system, finds the memory map, loads the kernel
  and starts it.
\<close>

section \<open>\<^verbatim>\<open>cmain\<close>\<close>

definition logid :: "u8 list" where
  "logid = bytes_of ''stage2'' @ [0, 0]"

text \<open>\<^verbatim>\<open>getVendorId\<close>: the thirteen bytes it stores.\<close>

definition le32_bytes :: "u32 \<Rightarrow> u8 list" where
  "le32_bytes w = [ucast w, ucast (drop_bit 8 w), ucast (drop_bit 16 w), ucast (drop_bit 24 w)]"

definition getVendorId :: "'w bios \<Rightarrow> u8 list" where
  "getVendorId bios = (let (ebx, edx, ecx) = cpuid_vendor bios in le32_bytes ebx @ le32_bytes edx @ le32_bytes ecx @ [0])"

record bootParamsStruct =
  RegionCount :: i32
  Regions :: "E820BlockStruct list"
  BootDevice :: u8

text \<open>
  The structure as the 32-bit compiler lays it out, with the value of the pointer \<^verbatim>\<open>Memory.Regions\<close>.
\<close>

definition params32 :: "u32 \<Rightarrow> bootParamsStruct \<Rightarrow> u8 list" where
  "params32 regions p = le32_bytes (RegionCount p) @ le32_bytes regions @ [BootDevice p]"

definition MEMORY_LOAD_SIZE :: u32 where "MEMORY_LOAD_SIZE = 0x10000"
definition MEMORY_KERNEL_ADDR :: u32 where "MEMORY_KERNEL_ADDR = 0x100000"

text \<open>
  How \<^verbatim>\<open>cmain\<close> ends: with a result, or with a call of the bytes loaded at \<^verbatim>\<open>MEMORY_KERNEL_ADDR\<close>.
\<close>

datatype outcome = Returned u32 | Started "u8 list" bootParamsStruct

text \<open>
  The loop that loads the kernel, with the bytes copied to \<^verbatim>\<open>memKernel\<close> so far; \<open>None\<close> if it never
  ends.
\<close>

partial_function (option) load_loop ::
  "'w bios \<Rightarrow> DISK \<Rightarrow> file_ptr \<Rightarrow> u8 list \<Rightarrow> ('w, 'e) fat_machine_scheme
    \<Rightarrow> (u8 list \<times> ('w, 'e) fat_machine_scheme) res option" where
  "load_loop bios disk kernelfd memKernel m =
     (case FAT_Read bios disk kernelfd MEMORY_LOAD_SIZE m of
       Inl e \<Rightarrow> Some (Inl e)
     | Inr (bytes, m) \<Rightarrow>
         if bytes = [] then Some (Inr (memKernel, m))
         else load_loop bios disk kernelfd (memKernel @ bytes) m)"

text \<open>From opening the kernel on.\<close>

definition start_kernel ::
  "'w bios \<Rightarrow> DISK \<Rightarrow> u8 list \<Rightarrow> bootParamsStruct \<Rightarrow> ('w, 'e) fat_machine_scheme
    \<Rightarrow> (outcome \<times> ('w, 'e) fat_machine_scheme) res option" where
  "start_kernel bios disk junk params m =
     (case FAT_Open bios disk (bytes_of ''/kernel.bin'') junk m of
       None \<Rightarrow> None
     | Some (Inl e) \<Rightarrow> Some (Inl e)
     | Some (Inr (kernelfd, m)) \<Rightarrow>
         (case load_loop bios disk kernelfd [] m of
           None \<Rightarrow> None
         | Some (Inl e) \<Rightarrow> Some (Inl e)
         | Some (Inr (memKernel, m)) \<Rightarrow>
             Some (bindE (FAT_Close kernelfd m) (\<lambda>m. Inr (Started memKernel params, m)))))"

text \<open>\<open>disk\<close>, \<open>block\<close> and \<open>junk\<close> are what the variables on the stack hold before they are assigned to.\<close>

definition cmain ::
  "'w bios \<Rightarrow> DISK \<Rightarrow> u8 list \<Rightarrow> u8 list \<Rightarrow> u16 \<Rightarrow> ('w, 'e) fat_machine_scheme
    \<Rightarrow> (outcome \<times> ('w, 'e) fat_machine_scheme) res option" where
  "cmain bios disk block junk bootDrive m =
     (let m = m \<lparr> console := clrscr Boot32 (console m) \<rparr> in
      case bindE (boot_log LOG_NORMAL logid ''Venderid: %s'' [Str (getVendorId bios)] m) (\<lambda>m.
           bindE (boot_log LOG_NORMAL logid ''Loading kernel...'' [] m) (DISK_Init bios disk (ucast bootDrive))) of
        Inl e \<Rightarrow> Some (Inl e)
      | Inr (r, disk, m) \<Rightarrow>
        if r \<noteq> 0 then
          Some (bindE (boot_log LOG_CRITICAL logid ''Failed to initialize disk.'' [] m) (\<lambda>m. Inr (Returned 1, m)))
        else
        (case bindE (boot_log LOG_NORMAL logid ''Initialized disk!'' [] m) (FAT_Initialize bios disk) of
          Inl e \<Rightarrow> Some (Inl e)
        | Inr (r, m) \<Rightarrow>
          if r \<noteq> 0 then
            Some (bindE (boot_log LOG_CRITICAL logid ''Failed to initialize FAT.'' [] m) (\<lambda>m. Inr (Returned 1, m)))
          else
          (case bindE (boot_log LOG_NORMAL logid ''Initialized FAT!'' [] m) (MemDetect bios block) of
            Inl e \<Rightarrow> Some (Inl e)
          | Inr (regions, m) \<Rightarrow>
              start_kernel bios disk junk
                \<lparr> RegionCount = of_nat (length regions), Regions = regions, BootDevice = ucast bootDrive \<rparr> m)))"


section \<open>Loading a file\<close>

lemma sector_length: "reads_ok bios disk img \<Longrightarrow> length (sector_at img loc m cs) = 512"
  by (simp add: reads_ok_def reads_disk_def sector_at_def)

lemma file_bytes_length: "reads_ok bios disk img \<Longrightarrow> length (file_bytes img loc m sec k) = 512 * k"
  by (simp add: file_bytes_def length_concat comp_def sector_length sum_list_triv)

lemma file_bytes_add:
  "file_bytes img loc m sec (k + n) = file_bytes img loc m sec k @ file_bytes img loc m (\<lambda>j. sec (k + j)) n"
  by (induction k arbitrary: sec) (simp_all add: file_bytes_Suc, simp add: file_bytes_def)

text \<open>The bytes the next chunk of a file has, and what is left.\<close>

definition left_in :: "FAT_FileData \<Rightarrow> nat" where
  "left_in fd = unat (Size (Public fd)) - unat (Position (Public fd))"

lemma read_chunk:
  assumes "reads_ok bios disk img" and "in_use loc fd m" and "position_ok (Public fd)"
    and "left_in fd = 0 \<or> unat (Position (Public fd)) mod 512 = 0"
    and "(CurrentCluster fd, CurrentSectorInCluster fd) = sec 0" and "Buffer fd = sector_at img loc m (sec 0)"
  defines "n \<equiv> min 65536 (left_in fd)"
  defines "fd1 \<equiv> at_loc (sec (n div 512)) (sector_at img loc m (sec (n div 512))) (moved fd (of_nat n))"
  assumes "chain disk loc m sec (n div 512)" and "n < 512 \<or> 1024 \<le> n"
  shows "\<exists>c w. FAT_Read bios disk loc MEMORY_LOAD_SIZE m =
      Inr (take n (file_bytes img loc m sec (Suc (n div 512))), set_file_data loc fd1 m \<lparr> console := c, world := w \<rparr>)"
    and "position_ok (Public fd1)" and "left_in fd1 = left_in fd - n" and "in_use loc fd1 (set_file_data loc fd1 m)"
    and "left_in fd1 = 0 \<or> unat (Position (Public fd1)) mod 512 = 0"
proof -
  let ?p = "unat (Position (Public fd)) mod 512"
  have wanted: "wanted (Public fd) MEMORY_LOAD_SIZE = n"
    by (simp add: wanted_def n_def left_in_def MEMORY_LOAD_SIZE_def)
  have p: "(?p + n) div 512 = n div 512" "n = 0 \<or> ?p = 0"
    using assms(4) by (auto simp: n_def)
  have "?p + n < 512 \<or> 1024 \<le> ?p + n"
    using assms(10) p(2) by auto
  then have "\<exists>c w. FAT_Read bios disk loc MEMORY_LOAD_SIZE m =
      Inr (take n (drop ?p (file_bytes img loc m sec (Suc (n div 512)))), set_file_data loc fd1 m \<lparr> console := c, world := w \<rparr>)"
    using FAT_Read_reads [of bios disk img loc fd m MEMORY_LOAD_SIZE sec, OF assms(1-3) _ assms(5,6)] assms(9)
    unfolding wanted p(1) fd1_def by (simp add: MEMORY_LOAD_SIZE_def)
  moreover have "take n (drop ?p bs) = take n bs" for bs :: "u8 list" using p(2) by auto
  ultimately show "\<exists>c w. FAT_Read bios disk loc MEMORY_LOAD_SIZE m =
      Inr (take n (file_bytes img loc m sec (Suc (n div 512))), set_file_data loc fd1 m \<lparr> console := c, world := w \<rparr>)"
    by (simp only:)
  have ok: "unat (Position (Public fd)) \<le> unat (Size (Public fd))" "unat (Size (Public fd)) < 2 ^ 31"
    using assms(3) by (simp_all add: position_ok_def word_le_nat_alt)
  have sum: "unat (Position (Public fd)) + n \<le> unat (Size (Public fd))"
    using ok by (simp add: n_def left_in_def)
  have "unat (of_nat n :: u32) = n" by (intro unat_of_nat_small) (simp add: n_def)
  then have pos: "unat (Position (Public fd1)) = unat (Position (Public fd)) + n"
    using sum ok(2) by (simp add: fd1_def at_loc_def moved_def unat_word_ariths)
  have pub: "Size (Public fd1) = Size (Public fd)" "IsDirectory (Public fd1) = IsDirectory (Public fd)"
    "Handle (Public fd1) = Handle (Public fd)" by (simp_all add: fd1_def at_loc_def moved_def)
  show "position_ok (Public fd1)"
    using assms(3) pos sum pub by (simp add: position_ok_def word_le_nat_alt)
  show left: "left_in fd1 = left_in fd - n" by (simp add: left_in_def pos pub)
  show "in_use loc fd1 (set_file_data loc fd1 m)"
    by (rule in_use_set [OF assms(2) pub(3)]) (simp add: fd1_def at_loc_def sector_length [OF assms(1)])
  show "left_in fd1 = 0 \<or> unat (Position (Public fd1)) mod 512 = 0"
  proof (cases "left_in fd \<le> 65536")
    case False
    then have "n = 65536" "?p = 0" using assms(4) by (auto simp: n_def)
    then show ?thesis by (simp add: pos mod_add_eq [symmetric])
  qed (simp add: left n_def)
qed

lemma read_at_end:
  assumes "in_use loc fd m" and "position_ok (Public fd)" and "left_in fd = 0"
  shows "FAT_Read bios disk loc MEMORY_LOAD_SIZE m = Inr ([], m)"
proof -
  have "wanted (Public fd) MEMORY_LOAD_SIZE = 0" using assms(3) by (simp add: wanted_def left_in_def)
  then show ?thesis
    using FAT_Read_loop [OF assms(1,2), of MEMORY_LOAD_SIZE bios disk] by (simp add: MEMORY_LOAD_SIZE_def read_loop_0)
qed

text \<open>
  Files that can be read to their end: the cluster chain goes on behind the last byte and the last chunk
  does not end in its second sector, or the chain ends with the last byte.
\<close>

definition ends_at :: "DISK \<Rightarrow> file_ptr \<Rightarrow> ('w, 'e) fat_machine_scheme \<Rightarrow> (nat \<Rightarrow> u32 \<times> u32) \<Rightarrow> nat \<Rightarrow> bool" where
  "ends_at disk loc m sec n \<longleftrightarrow> n mod 512 = 0 \<and> 512 \<le> n \<and> chain disk loc m sec (n div 512 - 1) \<and>
     (\<exists>cs. chain_ends loc m (sec (n div 512 - 1)) cs)"

definition readable :: "DISK \<Rightarrow> file_ptr \<Rightarrow> ('w, 'e) fat_machine_scheme \<Rightarrow> (nat \<Rightarrow> u32 \<times> u32) \<Rightarrow> nat \<Rightarrow> bool" where
  "readable disk loc m sec n \<longleftrightarrow>
     chain disk loc m sec (n div 512) \<and> (n mod 65536 < 512 \<or> 1024 \<le> n mod 65536) \<or> ends_at disk loc m sec n"

definition file_content ::
  "(nat \<Rightarrow> u8 list) \<Rightarrow> file_ptr \<Rightarrow> ('w, 'e) fat_machine_scheme \<Rightarrow> (nat \<Rightarrow> u32 \<times> u32) \<Rightarrow> nat \<Rightarrow> u8 list" where
  "file_content img loc m sec n = take n (file_bytes img loc m sec ((n + 511) div 512))"

lemma chunk_arith:
  "(65536 + n) div 512 = 128 + n div 512" "(65536 + n) mod 512 = n mod 512" "(65536 + n) mod 65536 = n mod 65536"
  "(65536 + n + 511) div 512 = 128 + (n + 511) div 512" for n :: nat
  using div_mult_self1 [of 512 n 128] mod_mult_self1 [of n 128 512] div_mult_self1 [of 512 "n + 511" 128]
  by (simp_all add: add.commute add.left_commute)

lemma whole_sectors: "n \<le> 512 * ((n + 511) div 512)" for n :: nat
  using mult_div_mod_eq [of 512 "n + 511"] mod_less_divisor [of 512 "n + 511"] by linarith

lemma file_content_eq:
  assumes "reads_ok bios disk img" and "n \<le> 512 * k" and "(n + 511) div 512 \<le> k"
  shows "take n (file_bytes img loc m sec k) = file_content img loc m sec n"
proof -
  let ?s = "(n + 511) div 512"
  obtain j where k: "k = ?s + j" using assms(3) le_Suc_ex by blast
  show ?thesis
    using whole_sectors [of n] unfolding k file_bytes_add file_content_def by (simp add: file_bytes_length [OF assms(1)])
qed

lemma file_content_0 [simp]: "file_content img loc m sec 0 = []"
  by (simp add: file_content_def)

text \<open>After a whole chunk, the rest of the file starts 128 sectors further on.\<close>

lemma file_content_chunk:
  assumes "reads_ok bios disk img"
  shows "file_content img loc m sec (65536 + n) =
    file_content img loc m sec 65536 @ file_content img loc m (\<lambda>j. sec (128 + j)) n"
  unfolding file_content_def chunk_arith by (simp add: file_bytes_add file_bytes_length [OF assms])

lemma readable_chunk:
  assumes "readable disk loc m sec (65536 + n)" and "0 < n"
  shows "readable disk loc m (\<lambda>j. sec (128 + j)) n" and "chain disk loc m sec 128"
proof -
  have shift: "chain disk loc m (\<lambda>j. sec (128 + j)) k" if "chain disk loc m sec (128 + k)" for k
    unfolding chain_def
  proof (intro allI impI)
    fix j assume "j < k"
    then have "128 + j < 128 + k" by simp
    then show "next_loc loc m (sec (128 + j)) = Inr (sec (128 + Suc j)) \<and>
        unat (loc_lba loc m (sec (128 + Suc j))) < disk_size disk \<and> (loc = RootFile \<or> fst (sec (128 + Suc j)) < 0xFF8)"
      using that unfolding chain_def add_Suc_right by blast
  qed
  consider "chain disk loc m sec (128 + n div 512)" "n mod 65536 < 512 \<or> 1024 \<le> n mod 65536"
    | "ends_at disk loc m sec (65536 + n)"
    using assms(1) unfolding readable_def chunk_arith by auto
  then have "readable disk loc m (\<lambda>j. sec (128 + j)) n \<and> chain disk loc m sec 128"
  proof cases
    case 1
    then show ?thesis using shift by (simp add: readable_def) (simp add: chain_def)
  next
    case 2
    have "n mod 512 = 0" using 2 by (simp add: ends_at_def chunk_arith)
    moreover from this have "512 \<le> n" using assms(2) by (metis mod_less not_less less_irrefl)
    moreover from this have "1 \<le> n div 512" by (metis div_le_mono div_self zero_neq_numeral)
    then have "(65536 + n) div 512 - 1 = 128 + (n div 512 - 1)" unfolding chunk_arith by linarith
    ultimately show ?thesis
      using 2 shift [of "n div 512 - 1"] by (auto simp: readable_def ends_at_def chain_def)
  qed
  then show "readable disk loc m (\<lambda>j. sec (128 + j)) n" and "chain disk loc m sec 128" by blast+
qed

text \<open>The last chunk.\<close>

lemma read_last_chunk:
  assumes "reads_ok bios disk img" and "in_use loc fd m" and "position_ok (Public fd)"
    and "left_in fd = 0 \<or> unat (Position (Public fd)) mod 512 = 0"
    and "(CurrentCluster fd, CurrentSectorInCluster fd) = sec 0" and "Buffer fd = sector_at img loc m (sec 0)"
    and "left_in fd \<le> 65536" and "readable disk loc m sec (left_in fd)"
  shows "\<exists>fd' c w. FAT_Read bios disk loc MEMORY_LOAD_SIZE m =
      Inr (file_content img loc m sec (left_in fd), set_file_data loc fd' m \<lparr> console := c, world := w \<rparr>) \<and>
    Handle (Public fd') = Handle (Public fd) \<and> position_ok (Public fd') \<and> left_in fd' = 0 \<and>
    in_use loc fd' (set_file_data loc fd' m)"
  using assms(8) unfolding readable_def
proof
  assume chain: "chain disk loc m sec (left_in fd div 512) \<and> (left_in fd mod 65536 < 512 \<or> 1024 \<le> left_in fd mod 65536)"
  let ?n = "left_in fd"
  have n: "min 65536 ?n = ?n" using assms(7) by simp
  have "?n < 512 \<or> 1024 \<le> ?n" using chain assms(7) by (cases "?n = 65536") auto
  note chunk = read_chunk [where sec = sec, OF assms(1-6), unfolded n, OF conjunct1 [OF chain] this]
  have "take ?n (file_bytes img loc m sec (Suc (?n div 512))) = file_content img loc m sec ?n"
    by (rule file_content_eq [OF assms(1)]) (simp_all add: less_imp_le mult.commute)
  moreover have "Handle (Public (at_loc cs S (moved fd k))) = Handle (Public fd)" for cs S k
    by (simp add: at_loc_def moved_def)
  ultimately show ?thesis using chunk by (metis diff_self_eq_0)
next
  assume "ends_at disk loc m sec (left_in fd)"
  then obtain cs where whole: "left_in fd mod 512 = 0" "512 \<le> left_in fd" and chain: "chain disk loc m sec (left_in fd div 512 - 1)"
    and cs: "chain_ends loc m (sec (left_in fd div 512 - 1)) cs"
    by (auto simp: ends_at_def)
  let ?n = "left_in fd"
  define k where "k = ?n div 512 - 1"
  have n: "512 * Suc k = ?n" "0 < ?n"
  proof -
    have "1 \<le> ?n div 512" using div_le_mono [OF whole(2), of 512] by simp
    then have "512 * Suc k = 512 * (?n div 512)" by (simp add: k_def)
    also have "\<dots> = ?n" using whole(1) mult_div_mod_eq [of 512 ?n] by simp
    finally show "512 * Suc k = ?n" "0 < ?n" using whole(2) by simp_all
  qed
  have p: "unat (Position (Public fd)) mod 512 = 0" using assms(4) n(2) by simp
  have wanted: "wanted (Public fd) MEMORY_LOAD_SIZE = ?n"
    using assms(7) by (simp add: wanted_def left_in_def MEMORY_LOAD_SIZE_def)
  let ?S = "sector_at img loc m (sec k)"
  let ?fd = "ended cs ?S (moved fd (of_nat ?n))"
  have "512 * Suc k \<le> 0 + wanted (Public fd) MEMORY_LOAD_SIZE" unfolding n(1) wanted by simp
  then have "\<exists>c w. FAT_Read bios disk loc MEMORY_LOAD_SIZE m = Inr (drop 0 (file_bytes img loc m sec (Suc k)),
      set_file_data loc (ended cs ?S (moved fd (of_nat (512 * Suc k - 0)))) m \<lparr> console := c, world := w \<rparr>)"
    using p chain cs by (intro FAT_Read_ends [where sec = sec, OF assms(1-3) _ _ _ _ assms(5,6)]) (simp_all add: MEMORY_LOAD_SIZE_def k_def)
  then obtain c w where read: "FAT_Read bios disk loc MEMORY_LOAD_SIZE m =
      Inr (file_bytes img loc m sec (Suc k), set_file_data loc ?fd m \<lparr> console := c, world := w \<rparr>)"
    unfolding n(1) diff_zero drop_0 by blast
  have "file_bytes img loc m sec (Suc k) = take ?n (file_bytes img loc m sec (Suc k))"
    unfolding n(1) [symmetric] by (simp add: file_bytes_length [OF assms(1)])
  also have "\<dots> = file_content img loc m sec ?n"
  proof (rule file_content_eq [OF assms(1)])
    show "?n \<le> 512 * Suc k" unfolding n(1) ..
    show "(?n + 511) div 512 \<le> Suc k" unfolding n(1) [symmetric] by simp
  qed
  finally have content: "file_bytes img loc m sec (Suc k) = file_content img loc m sec ?n" .
  have ok: "unat (Position (Public fd)) \<le> unat (Size (Public fd))" "unat (Size (Public fd)) < 2 ^ 31"
    using assms(3) by (simp_all add: position_ok_def word_le_nat_alt)
  have "unat (of_nat ?n :: u32) = ?n" by (intro unat_of_nat_small) (use assms(7) in simp)
  then have pos: "unat (Position (Public ?fd)) = unat (Size (Public fd))"
    using ok by (simp add: ended_def at_loc_def moved_def unat_word_ariths left_in_def)
  have pub: "Size (Public ?fd) = Position (Public ?fd)" "Handle (Public ?fd) = Handle (Public fd)"
    by (simp_all add: ended_def at_loc_def moved_def)
  have "Position (Public ?fd) \<noteq> 0" using pos n(2) by (auto simp: left_in_def)
  then have "position_ok (Public ?fd)" using pos ok by (simp add: position_ok_def pub)
  moreover have "left_in ?fd = 0" unfolding left_in_def [of ?fd] pub(1) by (rule diff_self_eq_0)
  moreover have "in_use loc ?fd (set_file_data loc ?fd m)"
    by (rule in_use_set [OF assms(2) pub(2)]) (simp add: ended_def at_loc_def sector_length [OF assms(1)])
  ultimately show ?thesis using read pub(2) content by metis
qed

text \<open>Chunk by chunk.\<close>

lemma load_loop_end:
  assumes "in_use loc fd m" and "position_ok (Public fd)" and "left_in fd = 0"
  shows "load_loop bios disk loc out m = Some (Inr (out, m))"
  by (subst load_loop.simps) (simp add: read_at_end [OF assms])

lemma load_loop_loads:
  assumes "reads_ok bios disk img"
  shows "in_use loc fd m \<Longrightarrow> position_ok (Public fd) \<Longrightarrow> left_in fd = 0 \<or> unat (Position (Public fd)) mod 512 = 0 \<Longrightarrow>
    (CurrentCluster fd, CurrentSectorInCluster fd) = sec 0 \<Longrightarrow> Buffer fd = sector_at img loc m (sec 0) \<Longrightarrow>
    readable disk loc m sec (left_in fd) \<Longrightarrow>
    \<exists>fd' c w. load_loop bios disk loc out m = Some (Inr (out @ file_content img loc m sec (left_in fd),
       set_file_data loc fd' m \<lparr> console := c, world := w \<rparr>)) \<and> Handle (Public fd') = Handle (Public fd)"
proof (induction "left_in fd" arbitrary: fd m sec out rule: less_induct)
  case less
  note here = less.prems(4) and buf = less.prems(5) and readable = less.prems(6)
  show ?case
  proof (cases "left_in fd \<le> 65536")
    case True
    obtain fd' c w where read: "FAT_Read bios disk loc MEMORY_LOAD_SIZE m =
        Inr (file_content img loc m sec (left_in fd), set_file_data loc fd' m \<lparr> console := c, world := w \<rparr>)"
      and fd': "Handle (Public fd') = Handle (Public fd)" "position_ok (Public fd')" "left_in fd' = 0"
        "in_use loc fd' (set_file_data loc fd' m)"
      using read_last_chunk [where sec = sec, OF assms less.prems(1-3) here buf True readable] by blast
    show ?thesis
    proof (cases "file_content img loc m sec (left_in fd) = []")
      case True
      then have "load_loop bios disk loc out m = Some (Inr (out, set_file_data loc fd' m \<lparr> console := c, world := w \<rparr>))"
        by (subst load_loop.simps) (simp add: read)
      then show ?thesis using True fd'(1) by auto
    next
      case False
      have "load_loop bios disk loc out m = load_loop bios disk loc (out @ file_content img loc m sec (left_in fd))
          (set_file_data loc fd' m \<lparr> console := c, world := w \<rparr>)"
        using False by (subst load_loop.simps, subst read) (simp only: sum.case prod.case if_False)
      also have "\<dots> = Some (Inr (out @ file_content img loc m sec (left_in fd),
          set_file_data loc fd' m \<lparr> console := c, world := w \<rparr>))"
        by (rule load_loop_end [OF _ fd'(2,3)]) (simp add: fd'(4))
      finally show ?thesis using fd'(1) by blast
    qed
  next
    case False
    define rest where "rest = left_in fd - 65536"
    have split: "left_in fd = 65536 + rest" "0 < rest" "min 65536 (left_in fd) = 65536" using False by (simp_all add: rest_def)
    note chunks = readable_chunk [OF readable [unfolded split(1)] split(2)]
    have "(65536 :: nat) < 512 \<or> 1024 \<le> (65536 :: nat)" "chain disk loc m sec (65536 div 512)" using chunks(2) by simp_all
    note chunk = read_chunk [where sec = sec, OF assms less.prems(1-3) here buf, unfolded split(3), OF this(2,1)]
    let ?fd = "at_loc (sec (65536 div 512)) (sector_at img loc m (sec (65536 div 512))) (moved fd (of_nat 65536))"
    have bytes: "take 65536 (file_bytes img loc m sec (Suc (65536 div 512))) = file_content img loc m sec 65536"
      by (rule file_content_eq [OF assms]) simp_all
    obtain c w where read: "FAT_Read bios disk loc MEMORY_LOAD_SIZE m =
        Inr (file_content img loc m sec 65536, set_file_data loc ?fd m \<lparr> console := c, world := w \<rparr>)"
      using chunk(1) unfolding bytes by blast
    let ?m1 = "set_file_data loc ?fd m \<lparr> console := c, world := w \<rparr>"
    have eq: "sector_at img loc ?m1 = sector_at img loc m" "next_loc loc ?m1 = next_loc loc m"
        "chain disk loc ?m1 s k = chain disk loc m s k" "file_bytes img loc ?m1 s k = file_bytes img loc m s k" for s k
      by (rule location_cong; simp)+
    have eq2: "readable disk loc ?m1 s k = readable disk loc m s k"
        "file_content img loc ?m1 s k = file_content img loc m s k" for s k
      by (simp_all only: readable_def ends_at_def chain_ends_def file_content_def eq)
    have "length (file_content img loc m sec 65536) = 65536"
      by (simp add: file_content_def file_bytes_length [OF assms])
    then have "file_content img loc m sec 65536 \<noteq> []" by auto
    then have step: "load_loop bios disk loc out m = load_loop bios disk loc (out @ file_content img loc m sec 65536) ?m1"
      by (subst load_loop.simps, subst read) (simp only: sum.case prod.case if_False)
    let ?sec = "\<lambda>j. sec (128 + j)"
    have left: "left_in ?fd = rest" using chunk(3) by (simp add: rest_def)
    have "\<exists>fd' c w. load_loop bios disk loc (out @ file_content img loc m sec 65536) ?m1 = Some (Inr
      ((out @ file_content img loc m sec 65536) @ file_content img loc ?m1 ?sec (left_in ?fd),
       set_file_data loc fd' ?m1 \<lparr> console := c, world := w \<rparr>)) \<and> Handle (Public fd') = Handle (Public ?fd)"
    proof (rule less.hyps)
      show "left_in ?fd < left_in fd" unfolding left split(1) by simp
      show "in_use loc ?fd ?m1" using chunk(4) by simp
      show "readable disk loc ?m1 ?sec (left_in ?fd)" unfolding left eq2 by (rule chunks(1))
      show "(CurrentCluster ?fd, CurrentSectorInCluster ?fd) = ?sec 0" by (simp add: at_loc_def)
      show "Buffer ?fd = sector_at img loc ?m1 (?sec 0)" unfolding eq by (simp add: at_loc_def)
    qed (rule chunk(2,5))+
    moreover have "Handle (Public ?fd) = Handle (Public fd)" by (simp add: at_loc_def moved_def)
    ultimately show ?thesis
      unfolding step left eq2 split(1) file_content_chunk [OF assms] by auto
  qed
qed

text \<open>
  C12: The loop of \<^verbatim>\<open>cmain\<close> that loads the kernel ends, and then has copied exactly the bytes of the file in
  order: for every file at position 0 below 2 GiB on a disk without errors whose last chunk of 64 KiB
  does not end in its second sector, or whose cluster chain ends with its last byte.
\<close>

theorem load_loop_loads_file:
  assumes "reads_ok bios disk img" and "in_use loc fd m" and "Position (Public fd) = 0" and "\<not> IsDirectory (Public fd)"
    and "unat (Size (Public fd)) < 2 ^ 31"
    and "(CurrentCluster fd, CurrentSectorInCluster fd) = sec 0" and "Buffer fd = sector_at img loc m (sec 0)"
    and "readable disk loc m sec (unat (Size (Public fd)))"
  shows "\<exists>fd' c w. load_loop bios disk loc [] m = Some (Inr (file_content img loc m sec (unat (Size (Public fd))),
       set_file_data loc fd' m \<lparr> console := c, world := w \<rparr>)) \<and> Handle (Public fd') = Handle (Public fd)"
proof -
  have "left_in fd = unat (Size (Public fd))" using assms(3) by (simp add: left_in_def)
  moreover have "position_ok (Public fd)" using assms(3-5) by (simp add: position_ok_def)
  ultimately show ?thesis
    using load_loop_loads [where sec = sec, OF assms(1,2) _ _ assms(6,7), of "[]"] assms(3,8) by simp
qed

theorem load_loop_loads_file_witness:
  "\<exists>fd' c w. load_loop (rom_bios floppy test_image) floppy (SlotFile 0) [] (three_cluster_machine 1536) =
     Some (Inr (file_content test_image (SlotFile 0) (three_cluster_machine 1536) three_clusters
         (unat (Size (Public (three_cluster_file 1536)))),
       set_file_data (SlotFile 0) fd' (three_cluster_machine 1536) \<lparr> console := c, world := w \<rparr>)) \<and>
     Handle (Public fd') = Handle (Public (three_cluster_file 1536))"
proof (rule load_loop_loads_file [OF rom_reads_ok three_cluster_in_use])
  show "Buffer (three_cluster_file 1536) = sector_at test_image (SlotFile 0) (three_cluster_machine 1536) (three_clusters 0)"
    by (simp add: three_cluster_file_def sector_at_def loc_lba_def three_clusters_def three_cluster_lba)
  have "FAT_NextCluster (three_cluster_machine 1536) 7 = Inr 0xFFF"
    by (simp add: FAT_NextCluster_def three_cluster_machine_def blank_fat_machine_def le16_at_def le16_def)
  then have "chain_ends (SlotFile 0) (three_cluster_machine 1536) (three_clusters 2) (0xFFF, 0)"
    by (simp add: chain_ends_def three_clusters_def next_loc_def three_cluster_lba)
  then have "ends_at floppy (SlotFile 0) (three_cluster_machine 1536) three_clusters 1536"
    using three_cluster_chain [of 2 1536] by (auto simp: ends_at_def)
  moreover have "unat (Size (Public (three_cluster_file 1536))) = 1536" by (simp add: three_cluster_file_def)
  ultimately show "readable floppy (SlotFile 0) (three_cluster_machine 1536) three_clusters
      (unat (Size (Public (three_cluster_file 1536))))"
    by (simp add: readable_def)
qed (simp_all add: length_test_image geometry_ok_def floppy_def three_cluster_file_def blank_file_def three_clusters_def)

section \<open>Loading and starting the kernel\<close>

lemma length_logid [simp]: "length logid = 8"
  by (simp add: logid_def)

lemma log_stage2 [log_facts]:
  "logged m (boot_log level logid ''Venderid: %s'' [Str cs] m)"
  "logged m (boot_log level logid ''Loading kernel...'' [] m)"
  "logged m (boot_log level logid ''Initialized disk!'' [] m)"
  "logged m (boot_log level logid ''Initialized FAT!'' [] m)"
  by (rule boot_log_logged; simp add: log_format.simps(2))+

lemma kernel_path: "bytes_of ''/kernel.bin'' = ch CHR ''/'' # bytes_of ''kernel.bin''"
  by simp

lemma readable_cong:
  assumes "BootSectorBytes m' = BootSectorBytes m" and "dataSectionLba m' = dataSectionLba m" and "fat m' = fat m"
  shows "readable disk loc m' sec n = readable disk loc m sec n"
    and "file_content img loc m' sec n = file_content img loc m sec n"
  by (simp_all only: readable_def ends_at_def chain_ends_def file_content_def location_cong [OF assms])

text \<open>The kernel on a mounted volume: the first entry of its name, and where its clusters are.\<close>

definition kernel_on ::
  "DISK \<Rightarrow> (nat \<Rightarrow> u8 list) \<Rightarrow> ('w, 'e) fat_machine_scheme \<Rightarrow> nat \<Rightarrow> FAT_DirectoryEntry \<Rightarrow> (nat \<Rightarrow> u32 \<times> u32) \<Rightarrow> bool" where
  "kernel_on disk img m k entry sec \<longleftrightarrow> found_at img kernel_name k \<and> entry = directory_entry (root_entry img k) \<and>
     Attributes entry AND FAT_ATTRIBUTE_DIRECTORY = 0 \<and> unat (EntrySize entry) < 2 ^ 31 \<and>
     sec 0 = (entry_cluster entry, 0) \<and> unat (FAT_ClusterToLba m (entry_cluster entry)) < disk_size disk"

lemma start_kernel_ok:
  fixes m :: "('w, 'e) fat_machine_scheme"
  assumes "reads_ok bios disk img" and "volume_ok disk (img 0)" and "RootDirectory m = root_file img 0"
    and "free_handle (OpenedFiles m) 0 = Some 0" and "length (OpenedFiles m) = MAX_FILE_HANDLES"
    and "\<forall>fd \<in> set (OpenedFiles m). length (Buffer fd) = 512" and "256 \<le> length junk"
    and "kernel_on disk img m k entry sec" and "readable disk (SlotFile 0) m sec (unat (EntrySize entry))"
  shows "\<exists>m'. start_kernel bios disk junk params m =
    Some (Inr (Started (file_content img (SlotFile 0) m sec (unat (EntrySize entry))) params, m'))"
proof -
  have found: "found_at img kernel_name k" "entry = directory_entry (root_entry img k)"
    using assms(8) unfolding kernel_on_def by blast+
  have kernel: "Attributes entry AND FAT_ATTRIBUTE_DIRECTORY = 0" "unat (EntrySize entry) < 2 ^ 31"
    "sec 0 = (entry_cluster entry, 0)" "unat (FAT_ClusterToLba m (entry_cluster entry)) < disk_size disk"
    using assms(8) unfolding kernel_on_def by blast+
  let ?fd = "opened_file img m 0 entry"
  let ?m1 = "m \<lparr> RootDirectory := closed_root img (Suc k), OpenedFiles := (OpenedFiles m)[0 := ?fd] \<rparr>"
  obtain c w where open_file: "FAT_Open bios disk (bytes_of ''/kernel.bin'') junk m =
      Some (Inr (SlotFile 0, ?m1 \<lparr> console := c, world := w \<rparr>))"
    using FAT_Open_found [OF assms(1-3) kernel_component _ _ _ _ assms(7) _ assms(4-6), of k entry] found kernel(4)
    unfolding kernel_path kernel_name_def by auto
  let ?m2 = "?m1 \<lparr> console := c, world := w \<rparr>"
  have eq: "loc_lba loc ?m2 = loc_lba loc m" "readable disk loc ?m2 sec n = readable disk loc m sec n"
    "file_content img loc ?m2 sec n = file_content img loc m sec n" for loc n
    by (rule location_cong readable_cong; simp)+
  have len: "length (img j) = 512" for j using assms(1) by (simp add: reads_ok_def reads_disk_def)
  have use: "in_use (SlotFile 0) ?fd ?m2"
    using assms(5) by (simp add: in_use_def opened_file_def len MAX_FILE_HANDLES_def)
  have fd: "Position (Public ?fd) = 0" "\<not> IsDirectory (Public ?fd)" "Size (Public ?fd) = EntrySize entry"
    "(CurrentCluster ?fd, CurrentSectorInCluster ?fd) = sec 0"
    using kernel by (simp_all add: opened_file_def)
  have buf: "Buffer ?fd = sector_at img (SlotFile 0) ?m2 (sec 0)"
    using kernel by (simp add: sector_at_def eq(1)) (simp add: opened_file_def loc_lba_def)
  have left: "left_in ?fd = unat (EntrySize entry)" by (simp add: left_in_def fd)
  have "position_ok (Public ?fd)" using kernel fd by (simp add: position_ok_def)
  moreover have "readable disk (SlotFile 0) ?m2 sec (left_in ?fd)" using assms(9) by (simp add: eq left)
  ultimately obtain fd' c' w' where load: "load_loop bios disk (SlotFile 0) [] ?m2 = Some (Inr (
      file_content img (SlotFile 0) m sec (unat (EntrySize entry)),
      set_file_data (SlotFile 0) fd' ?m2 \<lparr> console := c', world := w' \<rparr>))" "Handle (Public fd') = Handle (Public ?fd)"
    using load_loop_loads [where sec = sec, OF assms(1) use _ _ fd(4) buf, of "[]"] fd(1) unfolding left eq by auto
  have "Handle (Public fd') = 0" using load(2) by (simp add: opened_file_def)
  moreover have "(0 :: i32) \<noteq> ROOT_DIRECTORY_HANDLE" by (simp add: ROOT_DIRECTORY_HANDLE_def)
  ultimately have "\<exists>m'. FAT_Close (SlotFile 0) (set_file_data (SlotFile 0) fd' ?m2 \<lparr> console := c', world := w' \<rparr>) = Inr m'"
    using assms(5) by (simp add: FAT_Close_def MAX_FILE_HANDLES_def)
  then show ?thesis using open_file load(1) by (auto simp: start_kernel_def)
qed

text \<open>The disk \<^verbatim>\<open>DISK_Init\<close> makes of the drive's parameters.\<close>

definition disk_of :: "u8 \<Rightarrow> param_regs \<Rightarrow> DISK" where
  "disk_of dn r = \<lparr> drive = dn, cylinders = le16 (pCH r) (drop_bit 6 (pCL r)) + 1, heads = ucast (pDH r) + 1,
     sectors = ucast (pCL r AND 0x3F) \<rparr>"

lemma DISK_Init_ok:
  assumes "\<And>w. fst (int13_params bios dn w) = Some r"
  shows "\<exists>c w. DISK_Init bios disk dn m = Inr (0, disk_of dn r, m \<lparr> console := c, world := w \<rparr>)"
proof -
  obtain w where params: "int13_params bios dn (world m) = (Some r, w)" using assms by (metis prod.collapse)
  let ?d = "disk_of dn r" and ?m = "m \<lparr> world := w \<rparr>"
  obtain c where "boot_log LOG_NORMAL disklogid ''Disk geometry: \"C: %i | H: %i | S: %i\"''
      [Bits (ucast (cylinders ?d)), Bits (ucast (heads ?d)), Bits (ucast (sectors ?d))] ?m = Inr (?m \<lparr> console := c \<rparr>)"
    using log_disk_geometry by (rule logged_obtain)
  then show ?thesis
    using params by (intro exI [of _ c] exI [of _ w])
      (simp add: DISK_Init_def with_world_def diskGetDriveParams16_def disk_of_def)
qed

lemma FAT_Initialize_then:
  fixes m :: "('w, 'e) fat_machine_scheme"
  assumes "reads_ok bios disk img" and "volume_ok disk (img 0)" and "storage_ok m"
  obtains c w where "FAT_Initialize bios disk (m \<lparr> world := w', console := c' \<rparr>) =
    Inr (0, mounted img m \<lparr> console := c, world := w \<rparr>)"
proof -
  let ?m = "m \<lparr> world := w', console := c' \<rparr>"
  have "storage_ok ?m" using assms(3) by (simp add: storage_ok_def)
  moreover have "mounted img ?m \<lparr> console := c, world := w \<rparr> = mounted img m \<lparr> console := c, world := w \<rparr>" for c w
    by (simp add: mounted_def Let_def)
  ultimately show thesis using FAT_Initialize_ok [OF assms(1,2), of ?m] that by metis
qed

lemma cmain_starts:
  fixes m :: "('w, 'e) fat_machine_scheme"
  assumes dn_def: "dn = (ucast bootDrive :: u8)" and "\<And>w. fst (int13_params bios dn w) = Some r" and "disk = disk_of dn r"
    and "reads_ok bios disk img" and "volume_ok disk (img 0)" and "storage_ok m"
    and "e820_map bios c blocks" and "blocks \<noteq> []" and "length blocks \<le> 257" and "unat (cr0_high bios) < 2 ^ 15"
    and "kernel_on disk img (mounted img m) k entry sec"
    and "readable disk (SlotFile 0) (mounted img m) sec (unat (EntrySize entry))"
    and "length block = 24" and "256 \<le> length junk"
  shows "\<exists>m'. cmain bios disk0 block junk bootDrive m = Some (Inr (Started
      (file_content img (SlotFile 0) (mounted img m) sec (unat (EntrySize entry)))
      \<lparr> RegionCount = of_nat (length blocks - 1), Regions = map block_of (butlast blocks), BootDevice = dn \<rparr>, m'))"
proof -
  let ?m0 = "m \<lparr> console := clrscr Boot32 (console m) \<rparr>"
  obtain c1 where l1: "boot_log LOG_NORMAL logid ''Venderid: %s'' [Str (getVendorId bios)] ?m0 = Inr (?m0 \<lparr> console := c1 \<rparr>)"
    using log_stage2(1) by (rule logged_obtain)
  let ?m1 = "m \<lparr> console := c1 \<rparr>"
  obtain c2 where l2: "boot_log LOG_NORMAL logid ''Loading kernel...'' [] ?m1 = Inr (?m1 \<lparr> console := c2 \<rparr>)"
    using log_stage2(2) by (rule logged_obtain)
  let ?m2 = "m \<lparr> console := c2 \<rparr>"
  obtain c3 w3 where init: "DISK_Init bios disk0 dn ?m2 = Inr (0, disk, ?m2 \<lparr> console := c3, world := w3 \<rparr>)"
    using DISK_Init_ok [OF assms(2), of disk0 ?m2] unfolding assms(3) by blast
  let ?m3 = "m \<lparr> console := c3, world := w3 \<rparr>"
  obtain c4 where l4: "boot_log LOG_NORMAL logid ''Initialized disk!'' [] ?m3 = Inr (?m3 \<lparr> console := c4 \<rparr>)"
    using log_stage2(3) by (rule logged_obtain)
  obtain c5 w5 where fat_init: "FAT_Initialize bios disk (m \<lparr> world := w3, console := c4 \<rparr>) =
      Inr (0, mounted img m \<lparr> console := c5, world := w5 \<rparr>)"
    by (rule FAT_Initialize_then [OF assms(4-6)])
  let ?m5 = "mounted img m \<lparr> console := c5, world := w5 \<rparr>"
  obtain c6 where l6: "boot_log LOG_NORMAL logid ''Initialized FAT!'' [] ?m5 = Inr (?m5 \<lparr> console := c6 \<rparr>)"
    using log_stage2(4) by (rule logged_obtain)
  let ?m6 = "mounted img m \<lparr> world := w5, console := c6 \<rparr>"
  obtain c7 w7 where regions: "MemDetect bios block ?m6 =
      Inr (map block_of (butlast blocks), ?m6 \<lparr> console := c7, world := w7 \<rparr>)"
    using MemDetect_map [OF assms(7-9,13,10)] by blast
  let ?m7 = "mounted img m \<lparr> console := c7, world := w7 \<rparr>"
  let ?params = "\<lparr> RegionCount = of_nat (length blocks - 1), Regions = map block_of (butlast blocks), BootDevice = dn \<rparr>"
  have files: "RootDirectory ?m7 = root_file img 0" "free_handle (OpenedFiles ?m7) 0 = Some 0"
    "length (OpenedFiles ?m7) = MAX_FILE_HANDLES" "\<forall>fd \<in> set (OpenedFiles ?m7). length (Buffer fd) = 512"
    using mounted_files [OF assms(6)] by simp_all
  have same: "readable disk loc ?m7 sec n = readable disk loc (mounted img m) sec n"
    "file_content img loc ?m7 sec n = file_content img loc (mounted img m) sec n"
    "FAT_ClusterToLba ?m7 cl = FAT_ClusterToLba (mounted img m) cl" for loc n cl
    by (rule readable_cong cluster_cong; simp)+
  have "kernel_on disk img ?m7 k entry sec" using assms(11) unfolding kernel_on_def same .
  moreover have "readable disk (SlotFile 0) ?m7 sec (unat (EntrySize entry))" using assms(12) unfolding same .
  note start_kernel_ok [OF assms(4,5) files assms(14) _ this, of k ?params, unfolded same]
  ultimately obtain m' where "start_kernel bios disk junk ?params ?m7 = Some (Inr (Started
      (file_content img (SlotFile 0) (mounted img m) sec (unat (EntrySize entry))) ?params, m'))" by blast
  then show ?thesis
    using l1 l2 init l4 fat_init l6 regions by (simp add: cmain_def Let_def dn_def)
qed

text \<open>
  C2: On a BIOS that knows the boot drive, reads it without errors and reports without an error a memory map
  of 1 to 257 blocks of 24 bytes, the last with continuation value 0, with paging off, and with a FAT12 volume on the drive whose root directory has a regular file
  \<^verbatim>\<open>KERNEL.BIN\<close> of less than 2 GiB with an intact cluster chain, \<^verbatim>\<open>cmain\<close> ends with the start of the
  kernel: exactly the bytes of that file are at \<^verbatim>\<open>MEMORY_KERNEL_ADDR\<close>, whatever memory held before, and
  the boot parameters name the boot drive and the regions of the map but the last, as \<^verbatim>\<open>MemDetect\<close> found
  them.  This needs a size that leaves less than 512 or at least 1024 bytes over whole chunks of 64 KiB, or
  one that leaves 512 with a chain that ends with the last byte (\<open>readable\<close>): with an intact chain that
  goes on, a size that leaves 512 to 1023 bytes makes \<^verbatim>\<open>FAT_Read\<close> divide by zero (\<open>FAT_Read_divide_error\<close>).
\<close>

theorem cmain_starts_kernel:
  fixes m :: "('w, 'e) fat_machine_scheme"
  assumes "dn = (ucast bootDrive :: u8)" and "\<And>w. fst (int13_params bios dn w) = Some r" and "disk = disk_of dn r"
    and "reads_ok bios disk img" and "volume_ok disk (img 0)" and "storage_ok m"
    and "e820_map bios c blocks" and "blocks \<noteq> []" and "length blocks \<le> 257" and "unat (cr0_high bios) < 2 ^ 15"
    and "kernel_on disk img (mounted img m) k entry sec"
    and "readable disk (SlotFile 0) (mounted img m) sec (unat (EntrySize entry))"
    and "length block = 24" and "256 \<le> length junk"
  shows "\<exists>m'. cmain bios disk0 block junk bootDrive m = Some (Inr (Started
      (file_content img (SlotFile 0) (mounted img m) sec (unat (EntrySize entry)))
      \<lparr> RegionCount = of_nat (length blocks - 1), Regions = map block_of (butlast blocks), BootDevice = dn \<rparr>, m'))"
  by (rule cmain_starts [OF assms])

text \<open>The kernel of the volume above, in the clusters 2, 3 and 4.\<close>

definition kernel_clusters :: "nat \<Rightarrow> u32 \<times> u32" where
  "kernel_clusters j = (of_nat (j + 2), 0)"

lemma mounted_kernel_next:
  "FAT_NextCluster (mounted_kernel w) 2 = Inr 3" "FAT_NextCluster (mounted_kernel w) 3 = Inr 4"
proof -
  have "fat (mounted_kernel w) = (pack12 [0xFF0, 0xFFF, 3, 4, 0xFFF] @ replicate 504 0) @ drop 512 (replicate 59040 0)"
    by (simp add: mounted_kernel_def mounted_def Let_def empty_fat_machine_def blank_fat_machine_def sector_data_def)
      (simp add: kernel_volume_def boot_sector_layout)
  then show "FAT_NextCluster (mounted_kernel w) 2 = Inr 3" "FAT_NextCluster (mounted_kernel w) 3 = Inr 4"
    by (simp_all add: FAT_NextCluster_def le16_at_def le16_def)
qed

lemma kernel_on_volume:
  "kernel_on floppy kernel_volume (mounted_kernel w) 1 kernel_entry kernel_clusters"
  "readable floppy (SlotFile 0) (mounted_kernel w) kernel_clusters (unat (EntrySize kernel_entry))"
proof -
  have spc: "SectorsPerCluster (mounted_kernel w) = 1"
    by (simp add: SectorsPerCluster_def mounted_kernel_def mounted_def Let_def kernel_volume_def)
      (simp add: boot_sector_def)
  have "next_loc (SlotFile 0) (mounted_kernel w) (kernel_clusters j) = Inr (kernel_clusters (Suc j)) \<and>
      unat (loc_lba (SlotFile 0) (mounted_kernel w) (kernel_clusters (Suc j))) < disk_size floppy \<and>
      fst (kernel_clusters (Suc j)) < 0xFF8" if "j < 2" for j
    using that mounted_kernel_next [of w]
    by (cases "j = 0") (simp_all add: less_2_cases_iff kernel_clusters_def next_loc_def loc_lba_def spc
        mounted_kernel_lba disk_size_def floppy_def)
  then have "chain floppy (SlotFile 0) (mounted_kernel w) kernel_clusters 2" by (simp add: chain_def)
  then show "readable floppy (SlotFile 0) (mounted_kernel w) kernel_clusters (unat (EntrySize kernel_entry))"
    by (simp add: readable_def kernel_entry_fields)
  have "kernel_entry = directory_entry (root_entry kernel_volume 1)"
    unfolding kernel_entry_def kernel_entries ..
  then show "kernel_on floppy kernel_volume (mounted_kernel w) 1 kernel_entry kernel_clusters"
    using kernel_found
    by (simp add: kernel_on_def kernel_entry_fields mounted_kernel_lba kernel_clusters_def disk_size_def floppy_def)
qed

definition pc_bios :: "nat bios" where
  "pc_bios = rom_bios floppy kernel_volume
     \<lparr> int15_e820 := int15_e820 three_block_bios, cr0_high := cr0_high three_block_bios \<rparr>"

theorem cmain_starts_kernel_witness:
  "\<exists>m'. cmain pc_bios \<lparr> drive = 0, cylinders = 0, heads = 0, sectors = 0 \<rparr> (replicate 24 0) (replicate 256 0x78) 0
      (empty_fat_machine (0 :: nat)) = Some (Inr (Started
      (file_content kernel_volume (SlotFile 0) (mounted kernel_volume (empty_fat_machine (0 :: nat))) kernel_clusters (unat (EntrySize kernel_entry)))
      \<lparr> RegionCount = of_nat (length three_blocks - 1), Regions = map block_of (butlast three_blocks), BootDevice = 0 \<rparr>, m'))"
proof (rule cmain_starts_kernel [where disk = floppy and r = "\<lparr> pBL = 4, pCH = 79, pCL = 18, pDH = 1 \<rparr>"])
  show "fst (int13_params pc_bios 0 w) = Some \<lparr> pBL = 4, pCH = 79, pCL = 18, pDH = 1 \<rparr>" for w
    by (simp add: pc_bios_def rom_bios_def flaky_bios_def)
  show "floppy = disk_of 0 \<lparr> pBL = 4, pCH = 79, pCL = 18, pDH = 1 \<rparr>"
    by (simp add: floppy_def disk_of_def le16_def)
  show "reads_ok pc_bios floppy kernel_volume"
    using kernel_reads_ok by (simp add: reads_ok_def reads_disk_def pc_bios_def)
  show "e820_map pc_bios (\<lambda>k. if k = 3 then 0 else of_nat k) three_blocks"
    using three_block_map by (simp add: e820_map_def pc_bios_def)
  show "kernel_on floppy kernel_volume (mounted kernel_volume (empty_fat_machine (0 :: nat))) 1 kernel_entry kernel_clusters"
    using kernel_on_volume(1) by (simp add: mounted_kernel_def)
  show "readable floppy (SlotFile 0) (mounted kernel_volume (empty_fat_machine (0 :: nat))) kernel_clusters (unat (EntrySize kernel_entry))"
    using kernel_on_volume(2) by (simp add: mounted_kernel_def)
qed (simp_all add: kernel_volume_ok empty_storage_ok three_blocks_def pc_bios_def three_block_bios_def)

text \<open>When the disk or the volume is not usable, \<^verbatim>\<open>cmain\<close> says so and returns.\<close>

lemma DISK_Init_fails:
  assumes "\<And>w. fst (int13_params bios dn w) = None"
  shows "\<exists>c w. DISK_Init bios disk dn m = Inr (1, disk, m \<lparr> console := c, world := w \<rparr>)"
proof -
  obtain w where params: "int13_params bios dn (world m) = (None, w)" using assms by (metis prod.collapse)
  let ?m = "m \<lparr> world := w \<rparr>"
  obtain c where "boot_log LOG_CRITICAL disklogid ''Failed to init disk! Failed to get drive parameters. %s''
      [Str (bytes_of (getStatus 1))] ?m = Inr (?m \<lparr> console := c \<rparr>)"
    using log_disk_status(2) by (rule logged_obtain)
  then show ?thesis
    using params by (intro exI [of _ c] exI [of _ w])
      (simp add: DISK_Init_def with_world_def diskGetDriveParams16_def)
qed

lemma log_stage2_failures:
  "logged m (boot_log level logid ''Failed to initialize disk.'' [] m)"
  "logged m (boot_log level logid ''Failed to initialize FAT.'' [] m)"
  by (rule boot_log_logged; simp add: log_format.simps(2))+

definition unusable :: "DISK \<Rightarrow> (nat \<Rightarrow> u8 list) \<Rightarrow> bool" where
  "unusable disk img \<longleftrightarrow> geometry_ok disk \<and> 0 < disk_size disk \<and> le16_at (img 0) 11 = 512 \<and>
     (img 0 ! 38 \<noteq> 0x29 \<or> 115 < table_sectors (img 0))"

text \<open>
  C22: \<^verbatim>\<open>cmain\<close> returns 1 instead of starting anything when the BIOS does not know the boot drive, and when
  the volume on it has no extended boot record or a table too large for the memory, however often reads
  fail on the way.
\<close>

theorem cmain_gives_up:
  fixes m :: "('w, 'e) fat_machine_scheme"
  assumes "dn = (ucast bootDrive :: u8)" and "storage_ok m"
    and "(\<forall>w. fst (int13_params bios dn w) = None) \<or>
      (\<forall>w. fst (int13_params bios dn w) = Some r) \<and> reads_disk bios (disk_of dn r) img \<and> unusable (disk_of dn r) img"
  shows "\<exists>m'. cmain bios disk0 block junk bootDrive m = Some (Inr (Returned 1, m'))"
proof -
  let ?m0 = "m \<lparr> console := clrscr Boot32 (console m) \<rparr>"
  obtain c1 where l1: "boot_log LOG_NORMAL logid ''Venderid: %s'' [Str (getVendorId bios)] ?m0 = Inr (?m0 \<lparr> console := c1 \<rparr>)"
    using log_stage2(1) by (rule logged_obtain)
  let ?m1 = "m \<lparr> console := c1 \<rparr>"
  obtain c2 where l2: "boot_log LOG_NORMAL logid ''Loading kernel...'' [] ?m1 = Inr (?m1 \<lparr> console := c2 \<rparr>)"
    using log_stage2(2) by (rule logged_obtain)
  let ?m2 = "m \<lparr> console := c2 \<rparr>"
  show ?thesis
    using assms(3)
  proof
    assume "\<forall>w. fst (int13_params bios dn w) = None"
    then obtain c3 w3 where init: "DISK_Init bios disk0 dn ?m2 = Inr (1, disk0, ?m2 \<lparr> console := c3, world := w3 \<rparr>)"
      using DISK_Init_fails by blast
    let ?m3 = "m \<lparr> console := c3, world := w3 \<rparr>"
    obtain c4 where "boot_log LOG_CRITICAL logid ''Failed to initialize disk.'' [] ?m3 = Inr (?m3 \<lparr> console := c4 \<rparr>)"
      using log_stage2_failures(1) by (rule logged_obtain)
    then show ?thesis using l1 l2 init assms(1) by (simp add: cmain_def Let_def)
  next
    let ?disk = "disk_of dn r"
    assume drive: "(\<forall>w. fst (int13_params bios dn w) = Some r) \<and> reads_disk bios ?disk img \<and> unusable ?disk img"
    then obtain c3 w3 where init: "DISK_Init bios disk0 dn ?m2 = Inr (0, ?disk, ?m2 \<lparr> console := c3, world := w3 \<rparr>)"
      using DISK_Init_ok by blast
    let ?m3 = "m \<lparr> console := c3, world := w3 \<rparr>"
    obtain c4 where l4: "boot_log LOG_NORMAL logid ''Initialized disk!'' [] ?m3 = Inr (?m3 \<lparr> console := c4 \<rparr>)"
      using log_stage2(3) by (rule logged_obtain)
    let ?m4 = "m \<lparr> world := w3, console := c4 \<rparr>"
    have "storage_ok ?m4" using assms(2) by (simp add: storage_ok_def)
    then obtain m5 where mount: "FAT_Initialize bios ?disk ?m4 = Inr (1, m5)"
      using FAT_Initialize_total [of bios ?disk img ?m4] drive unfolding unusable_def by fastforce
    obtain c6 where "boot_log LOG_CRITICAL logid ''Failed to initialize FAT.'' [] m5 = Inr (m5 \<lparr> console := c6 \<rparr>)"
      using log_stage2_failures(2) by (rule logged_obtain)
    then show ?thesis using l1 l2 init l4 mount assms(1) by (simp add: cmain_def Let_def)
  qed
qed

text \<open>
  C28: When the file system finds no \<^verbatim>\<open>/kernel.bin\<close>, \<^verbatim>\<open>cmain\<close> reads through the null pointer that \<^verbatim>\<open>FAT_Open\<close>
  returned: the result is not tested.
\<close>

theorem start_kernel_null:
  assumes "reads_ok bios disk img" and "volume_ok disk (img 0)" and "RootDirectory m = root_file img 0"
    and "256 \<le> length junk" and "\<And>k. k < root_entries (img 0) \<Longrightarrow> \<not> named img kernel_name k"
  shows "start_kernel bios disk junk params m = Some (Inl NullPointer)"
proof -
  obtain c w where "FAT_Open bios disk (bytes_of ''/kernel.bin'') junk m = Some (Inr (NullFile,
      m \<lparr> RootDirectory := closed_root img (root_entries (img 0)) \<rparr> \<lparr> console := c, world := w \<rparr>))"
    using FAT_Open_not_found [OF assms(1-3) kernel_component _ _ _ _ assms(4)] assms(5)
    unfolding kernel_path kernel_name_def by auto
  then show ?thesis
    by (simp add: start_kernel_def) (subst load_loop.simps, simp add: FAT_Read_def)
qed

theorem start_kernel_null_witness:
  "start_kernel (rom_bios floppy empty_volume) floppy (replicate 256 0x78)
     \<lparr> RegionCount = 0, Regions = [], BootDevice = 0 \<rparr> (mounted empty_volume (empty_fat_machine (0 :: nat))) = Some (Inl NullPointer)"
  by (rule start_kernel_null [OF empty_reads_ok empty_volume_ok])
    (simp_all add: mounted_files [OF empty_storage_ok] empty_volume_names)

text \<open>A disk without a file system.\<close>

definition blank_disk :: "nat \<Rightarrow> u8 list" where
  "blank_disk n = (replicate 512 0)[12 := 2]"

theorem cmain_gives_up_witness:
  "\<exists>m'. cmain (flaky_bios floppy blank_disk) floppy (replicate 24 0) (replicate 256 0x78) 0 (empty_fat_machine (5 :: nat)) =
    Some (Inr (Returned 1, m'))"
proof -
  let ?r = "\<lparr> pBL = 4, pCH = 79, pCL = 18, pDH = 1 \<rparr>"
  have disk: "disk_of 0 ?r = floppy" by (simp add: floppy_def disk_of_def le16_def)
  have "\<forall>w. fst (int13_params (flaky_bios floppy blank_disk) 0 w) = Some ?r" by (simp add: flaky_bios_def)
  moreover have "reads_disk (flaky_bios floppy blank_disk) (disk_of 0 ?r) blank_disk"
    unfolding disk by (rule flaky_reads_disk) (simp add: blank_disk_def)
  moreover have "unusable (disk_of 0 ?r) blank_disk"
    unfolding disk by (simp add: unusable_def geometry_ok_def disk_size_def floppy_def blank_disk_def le16_at_def le16_def)
  ultimately show ?thesis
    by (intro cmain_gives_up [where dn = 0 and r = ?r and img = blank_disk, OF _ empty_storage_ok]) simp_all
qed

end
