(* ===== verification/Gdt.thy ===== *)
theory Gdt
  imports Machine Store
begin

text \<open>
  The kernel's segment descriptors: \<^verbatim>\<open>x86/gdt.h\<close>, \<^verbatim>\<open>x86/gdt.c\<close> and \<^verbatim>\<open>x86/gdt.asm\<close>.
\<close>

section \<open>Data\<close>

record gdt_entry_struct =
  limit :: u16
  base_low :: u16
  base_mid :: u8
  access :: u8
  flags :: u8
  base_high :: u8

record gdt_ptr_struct =
  ptr_limit :: u16
  ptr_base :: u64

record tss_entry_struct =
  tss_link :: u32
  tss_esp0 :: u32  tss_ss0 :: u32  tss_esp1 :: u32  tss_ss1 :: u32  tss_esp2 :: u32  tss_ss2 :: u32
  tss_cr3 :: u32
  tss_eip :: u32  tss_eflags :: u32
  tss_eax :: u32  tss_ecx :: u32  tss_edx :: u32  tss_ebx :: u32  tss_esp :: u32  tss_ebp :: u32  tss_esi :: u32  tss_edi :: u32
  tss_es :: u32  tss_cs :: u32  tss_ss :: u32  tss_ds :: u32  tss_fs :: u32  tss_gs :: u32
  tss_ldtr :: u32
  tss_iopb :: u32
  tss_ssp :: u32

definition sizeof_gdt_entry :: nat where "sizeof_gdt_entry = 8"
definition sizeof_tss_entry :: u32 where "sizeof_tss_entry = 27 * 4"

definition zero_tss :: tss_entry_struct where
  "zero_tss = \<lparr> tss_link = 0, tss_esp0 = 0, tss_ss0 = 0, tss_esp1 = 0, tss_ss1 = 0, tss_esp2 = 0, tss_ss2 = 0, tss_cr3 = 0, tss_eip = 0,
     tss_eflags = 0, tss_eax = 0, tss_ecx = 0, tss_edx = 0, tss_ebx = 0, tss_esp = 0, tss_ebp = 0, tss_esi = 0, tss_edi = 0, tss_es = 0,
     tss_cs = 0, tss_ss = 0, tss_ds = 0, tss_fs = 0, tss_gs = 0, tss_ldtr = 0, tss_iopb = 0, tss_ssp = 0 \<rparr>"

definition GDT_ACCESS_PRESENT :: u8 where "GDT_ACCESS_PRESENT = 0x80"
definition GDT_ACCESS_RING0 :: u8 where "GDT_ACCESS_RING0 = 0x00"
definition GDT_ACCESS_RING1 :: u8 where "GDT_ACCESS_RING1 = 0x20"
definition GDT_ACCESS_RING2 :: u8 where "GDT_ACCESS_RING2 = 0x40"
definition GDT_ACCESS_RING3 :: u8 where "GDT_ACCESS_RING3 = 0x60"
definition GDT_ACCESS_TYPE :: u8 where "GDT_ACCESS_TYPE = 0x10"
definition GDT_ACCESS_EXEC :: u8 where "GDT_ACCESS_EXEC = 0x08"
definition GDT_ACCESS_CONF :: u8 where "GDT_ACCESS_CONF = 0x04"
definition GDT_ACCESS_RW :: u8 where "GDT_ACCESS_RW = 0x02"
definition GDT_ACCESS_ACC :: u8 where "GDT_ACCESS_ACC = 0x01"

definition gdt_total_entries :: u32 where "gdt_total_entries = 6"

text \<open>
  The global variables, and what \<^verbatim>\<open>gdt_flush\<close> loads into the processor: the descriptor table register,
  the code segment and the data segments.
\<close>

record 'w gdt_machine = "'w machine" +
  gdt_entries :: "u32 \<Rightarrow> gdt_entry_struct"
  gdt_ptr :: gdt_ptr_struct
  tss_entry :: tss_entry_struct
  gdtr :: gdt_ptr_struct
  code_segment :: u16
  data_segments :: u16

text \<open>The addresses the linker gives to \<^verbatim>\<open>gdt_entries\<close> and \<^verbatim>\<open>tss_entry\<close>.\<close>

record gdt_symbols =
  addr_gdt_entries :: u64
  addr_tss_entry :: u64

section \<open>Operations\<close>

text \<open>The entry after the assignments of \<^verbatim>\<open>setGDTGate\<close> to its fields, all of which are assigned to.\<close>

definition gdt_entry :: "u32 \<Rightarrow> u32 \<Rightarrow> u8 \<Rightarrow> u8 \<Rightarrow> gdt_entry_struct \<Rightarrow> gdt_entry_struct" where
  "gdt_entry base lim acc granularity e =
     (let e = e \<lparr> base_low := ucast (base AND 0xFFFF),
                  base_mid := ucast (drop_bit 16 base AND 0xFF),
                  base_high := ucast (drop_bit 24 base AND 0xFF),
                  limit := ucast (lim AND 0xFFFF),
                  flags := ucast (drop_bit 16 lim AND 0x0F) \<rparr>
      in e \<lparr> flags := flags e OR (granularity AND 0xF0), access := acc \<rparr>)"

definition setGDTGate ::
  "u32 \<Rightarrow> u32 \<Rightarrow> u32 \<Rightarrow> u8 \<Rightarrow> u8 \<Rightarrow> ('w, 'e) gdt_machine_scheme \<Rightarrow> ('w, 'e) gdt_machine_scheme res" where
  "setGDTGate num base lim acc granularity m =
     (if gdt_total_entries \<le> num then Inl OutOfBounds
      else Inr (m \<lparr> gdt_entries :=
        (gdt_entries m)(num := gdt_entry base lim acc granularity (gdt_entries m num)) \<rparr>))"

definition gdt_flush :: "('w, 'e) gdt_machine_scheme \<Rightarrow> ('w, 'e) gdt_machine_scheme" where
  "gdt_flush m = m \<lparr> gdtr := gdt_ptr m, data_segments := 0x10, code_segment := 0x8 \<rparr>"

text \<open>The gates \<^verbatim>\<open>initGDT\<close> sets, in order: number, base, limit, access and granularity.\<close>

definition gdt_gates :: "(u32 \<times> u32 \<times> u32 \<times> u8 \<times> u8) list" where
  "gdt_gates =
    [(0, 0, 0, 0, 0),
     (1, 0, 0xFFFFFFFF,
      GDT_ACCESS_PRESENT OR GDT_ACCESS_RING0 OR GDT_ACCESS_TYPE OR GDT_ACCESS_EXEC OR GDT_ACCESS_RW, 0xAF),
     (2, 0, 0xFFFFFFFF,
      GDT_ACCESS_PRESENT OR GDT_ACCESS_RING0 OR GDT_ACCESS_TYPE OR GDT_ACCESS_RW, 0xAF),
     (3, 0, 0xFFFFFFFF,
      GDT_ACCESS_PRESENT OR GDT_ACCESS_RING3 OR GDT_ACCESS_TYPE OR GDT_ACCESS_EXEC OR GDT_ACCESS_RW, 0xAF),
     (4, 0, 0xFFFFFFFF,
      GDT_ACCESS_PRESENT OR GDT_ACCESS_RING3 OR GDT_ACCESS_TYPE OR GDT_ACCESS_RW, 0xAF)]"

fun set_gates ::
  "(u32 \<times> u32 \<times> u32 \<times> u8 \<times> u8) list \<Rightarrow> ('w, 'e) gdt_machine_scheme \<Rightarrow> ('w, 'e) gdt_machine_scheme res" where
  "set_gates [] m = Inr m"
| "set_gates ((num, base, lim, acc, granularity) # gates) m =
     bindE (setGDTGate num base lim acc granularity m) (set_gates gates)"

definition initGDT :: "gdt_symbols \<Rightarrow> ('w, 'e) gdt_machine_scheme \<Rightarrow> ('w, 'e) gdt_machine_scheme res" where
  "initGDT syms m =
     (let m = m \<lparr> gdt_ptr := \<lparr> ptr_limit = of_nat (sizeof_gdt_entry * unat gdt_total_entries) - 1,
                               ptr_base = addr_gdt_entries syms \<rparr> \<rparr>
      in bindE (set_gates gdt_gates m) (\<lambda>m. Inr (gdt_flush m)))"

definition writeTSS ::
  "gdt_symbols \<Rightarrow> u32 \<Rightarrow> u16 \<Rightarrow> u32 \<Rightarrow> ('w, 'e) gdt_machine_scheme \<Rightarrow> ('w, 'e) gdt_machine_scheme res" where
  "writeTSS syms num ss0 esp0 m =
     (let base = ucast (addr_tss_entry syms);
          lim = base + sizeof_tss_entry
      in bindE (setGDTGate num base lim
           (GDT_ACCESS_PRESENT OR GDT_ACCESS_RING3 OR GDT_ACCESS_EXEC OR GDT_ACCESS_ACC) 0x00 m) (\<lambda>m.
         Inr (m \<lparr> tss_entry := zero_tss \<lparr>
           tss_ss0 := ucast ss0, tss_esp0 := esp0, tss_cs := 0x08 OR 0x3, tss_ss := 0x10 OR 0x3, tss_ds := 0x10 OR 0x3,
           tss_es := 0x10 OR 0x3, tss_fs := 0x10 OR 0x3, tss_gs := 0x10 OR 0x3 \<rparr> \<rparr>)))"

section \<open>What the processor reads\<close>

text \<open>The base, the 20-bit limit and the flags of a descriptor, put together from its fields.\<close>

definition descriptor_base :: "gdt_entry_struct \<Rightarrow> u32" where
  "descriptor_base e = ucast (base_low e) OR push_bit 16 (ucast (base_mid e)) OR push_bit 24 (ucast (base_high e))"

definition descriptor_limit :: "gdt_entry_struct \<Rightarrow> u32" where
  "descriptor_limit e = ucast (limit e) OR push_bit 16 (ucast (flags e AND 0x0F))"

definition descriptor_flags :: "gdt_entry_struct \<Rightarrow> u8" where
  "descriptor_flags e = drop_bit 4 (flags e)"

type_synonym descriptor = "u32 \<times> u32 \<times> u8 \<times> u8"

definition descriptor :: "gdt_entry_struct \<Rightarrow> descriptor" where
  "descriptor e = (descriptor_base e, descriptor_limit e, access e, descriptor_flags e)"

text \<open>The descriptor a selector names in a table of descriptors.\<close>

definition selected :: "gdt_entry_struct list \<Rightarrow> u16 \<Rightarrow> descriptor option" where
  "selected es sel = (let i = unat sel div 8 in if i < length es then Some (descriptor (es ! i)) else None)"

fun gate_descriptor :: "u32 \<times> u32 \<times> u8 \<times> u8 \<Rightarrow> descriptor" where
  "gate_descriptor (base, lim, acc, granularity) = (base, lim AND 0xFFFFF, acc, drop_bit 4 granularity)"

text \<open>The descriptor the processor reads after \<^verbatim>\<open>setGDTGate\<close> is the one asked for.\<close>

lemma base_split:
  fixes base :: u32
  shows "ucast (ucast (base AND 0xFFFF) :: u16) OR push_bit 16 (ucast (ucast (drop_bit 16 base AND 0xFF) :: u8))
     OR push_bit 24 (ucast (ucast (drop_bit 24 base AND 0xFF) :: u8)) = base"
proof -
  have mask: "(0xFFFF :: u32) = mask 16" "(0xFF :: u32) = mask 8"
    by (simp_all add: mask_eq_exp_minus_1)
  show ?thesis
    unfolding mask
    by (rule bit_word_eqI, rename_tac n, case_tac "n < 16"; case_tac "n < 24"; simp add: bit_simps; linarith?)
qed

lemma limit_split:
  fixes lim :: u32 and g :: u8
  shows "ucast (ucast (lim AND 0xFFFF) :: u16) OR
      push_bit 16 (ucast ((ucast (drop_bit 16 lim AND 0x0F) OR (g AND 0xF0)) AND 0x0F)) = lim AND 0xFFFFF"
    and "drop_bit 4 (ucast (drop_bit 16 lim AND 0x0F) OR (g AND 0xF0)) = drop_bit 4 g"
proof -
  have mask: "(0xFFFF :: u32) = mask 16" "(0x0F :: u32) = mask 4" "(0xFFFFF :: u32) = mask 20"
      "(0x0F :: u8) = mask 4" "(0xF0 :: u8) = push_bit 4 (mask 4)"
    by (simp_all add: mask_eq_exp_minus_1)
  show "ucast (ucast (lim AND 0xFFFF) :: u16) OR
      push_bit 16 (ucast ((ucast (drop_bit 16 lim AND 0x0F) OR (g AND 0xF0)) AND 0x0F)) = lim AND 0xFFFFF"
    unfolding mask by (rule bit_word_eqI) (auto simp: bit_simps)
  show "drop_bit 4 (ucast (drop_bit 16 lim AND 0x0F) OR (g AND 0xF0)) = drop_bit 4 g"
    unfolding mask by (rule bit_word_eqI) (auto simp: bit_simps dest: bit_imp_le_length)
qed

lemma descriptor_gdt_entry:
  "descriptor (gdt_entry base lim acc granularity e) = gate_descriptor (base, lim, acc, granularity)"
  by (simp add: descriptor_def descriptor_base_def descriptor_limit_def descriptor_flags_def gdt_entry_def
      base_split limit_split limit_split(2) [simplified])

text \<open>
  The table as an indexed store: the index is the number of a gate, what is put is its base, limit,
  access and granularity, and what is found is the descriptor the processor reads.
\<close>

definition gate_put ::
  "u32 \<Rightarrow> u32 \<times> u32 \<times> u8 \<times> u8 \<Rightarrow> ('w, 'e) gdt_machine_scheme \<Rightarrow> ('w, 'e) gdt_machine_scheme" where
  "gate_put num p m = (let (base, lim, acc, granularity) = p in projr (setGDTGate num base lim acc granularity m))"

interpretation gates: indexed_store "\<lambda>m i. descriptor (gdt_entries m i)" gate_put
  "\<lambda>i. i < gdt_total_entries" gate_descriptor
  by unfold_locales (auto simp: gate_put_def setGDTGate_def descriptor_gdt_entry)

lemma set_gates_fold:
  "list_all (\<lambda>(i, p). i < gdt_total_entries) gs' \<Longrightarrow>
     set_gates gs' m = Inr (fold (\<lambda>(i, p). gate_put i p) gs' m)"
  by (induction gs' arbitrary: m) (auto simp: gate_put_def setGDTGate_def split: prod.splits)

lemma set_gates_frame: "set_gates gs' m = Inr m' \<Longrightarrow> \<exists>e. m' = m \<lparr> gdt_entries := e \<rparr>"
proof (induction gs' arbitrary: m)
  case Nil
  then show ?case by (intro exI [of _ "gdt_entries m"]) simp
next
  case (Cons g gs')
  obtain num base lim acc gr where g: "g = (num, base, lim, acc, gr)" by (cases g)
  obtain e where "setGDTGate num base lim acc gr m = Inr (m \<lparr> gdt_entries := e \<rparr>)"
    using Cons.prems g by (auto simp: setGDTGate_def split: if_splits)
  then show ?case using Cons.IH [of "m \<lparr> gdt_entries := e \<rparr>"] Cons.prems g by auto
qed

text \<open>The descriptors of a flat 64-bit system: base 0, limit of 20 ones, granularity 4 KiB and long mode.\<close>

definition flat_descriptor :: "u8 \<Rightarrow> descriptor" where
  "flat_descriptor acc = (0, 0xFFFFF, acc, 0xA)"

definition kernel_descriptors :: "descriptor list" where
  "kernel_descriptors =
    [(0, 0, 0, 0), flat_descriptor 0x9A, flat_descriptor 0x92, flat_descriptor 0xFA, flat_descriptor 0xF2]"

lemma initGDT_result:
  fixes m :: "('w, 'e) gdt_machine_scheme" and syms :: gdt_symbols
  defines "ptr \<equiv> \<lparr> ptr_limit = 47, ptr_base = addr_gdt_entries syms \<rparr>"
  shows "\<exists>e. initGDT syms m = Inr (m \<lparr> gdt_ptr := ptr, gdt_entries := e, gdtr := ptr, data_segments := 0x10,
      code_segment := 0x8 \<rparr>) \<and>
    map (\<lambda>i. descriptor (e i)) [0, 1, 2, 3, 4] = kernel_descriptors \<and> descriptor (e 5) = descriptor (gdt_entries m 5)"
proof -
  let ?m = "m \<lparr> gdt_ptr := ptr \<rparr>"
  let ?m' = "fold (\<lambda>(i, p). gate_put i p) gdt_gates ?m"
  have valid: "list_all (\<lambda>(i, p). i < gdt_total_entries) gdt_gates"
    by (simp add: gdt_gates_def gdt_total_entries_def)
  have "distinct (map fst gdt_gates)" by (simp add: gdt_gates_def)
  note fetch = gates.fetch_fold_entries [OF valid this, of _ ?m]
  have set: "set_gates gdt_gates ?m = Inr ?m'" by (rule set_gates_fold [OF valid])
  obtain e where e: "?m' = ?m \<lparr> gdt_entries := e \<rparr>" using set_gates_frame [OF set] by blast
  have "initGDT syms m = Inr (gdt_flush ?m')"
    using set by (simp add: initGDT_def sizeof_gdt_entry_def gdt_total_entries_def ptr_def)
  then have "initGDT syms m = Inr (m \<lparr> gdt_ptr := ptr, gdt_entries := e, gdtr := ptr, data_segments := 0x10,
      code_segment := 0x8 \<rparr>)"
    unfolding e by (simp add: gdt_flush_def)
  moreover have "gdt_entries ?m' = e" unfolding e by simp
  moreover have "map (\<lambda>i. descriptor (gdt_entries ?m' i)) [0, 1, 2, 3, 4] = kernel_descriptors"
      "descriptor (gdt_entries ?m' 5) = descriptor (gdt_entries m 5)"
    by (simp_all add: fetch gdt_total_entries_def, simp_all add: gdt_gates_def flat_descriptor_def kernel_descriptors_def
        GDT_ACCESS_PRESENT_def GDT_ACCESS_RING0_def GDT_ACCESS_RING3_def GDT_ACCESS_TYPE_def
        GDT_ACCESS_EXEC_def GDT_ACCESS_RW_def)
  ultimately show ?thesis by metis
qed

text \<open>
  C36: \<^verbatim>\<open>initGDT\<close> goes through, and afterwards the processor's table register covers the six entries
  of the table, the segment registers select descriptors 1 and 2, and what the processor reads in
  the table is the null descriptor, then code and data of ring 0 and code and data of ring 3, flat
  and for 64 bits; entry 5, which no gate is set for, is what it was.
\<close>

theorem initGDT_descriptors:
  "\<exists>m'. initGDT syms m = Inr m' \<and>
    gdtr m' = \<lparr> ptr_limit = 47, ptr_base = addr_gdt_entries syms \<rparr> \<and>
    code_segment m' = 8 * 1 \<and> data_segments m' = 8 * 2 \<and>
    map (\<lambda>i. descriptor (gdt_entries m' i)) [0, 1, 2, 3, 4] =
      [(0, 0, 0, 0), flat_descriptor 0x9A, flat_descriptor 0x92, flat_descriptor 0xFA, flat_descriptor 0xF2] \<and>
    descriptor (gdt_entries m' 5) = descriptor (gdt_entries m 5)"
  using initGDT_result [of syms m] unfolding kernel_descriptors_def by force

text \<open>
  \<^verbatim>\<open>setGDTGate\<close> of any base, limit, access and granularity within the table makes the processor
  read that base, that access byte, the lower 20 bits of the limit and the upper half of the
  granularity; outside the table it would write past its end.
\<close>

theorem setGDTGate_roundtrip:
  "if num < gdt_total_entries
   then \<exists>m'. setGDTGate num base lim acc granularity m = Inr m' \<and>
     descriptor (gdt_entries m' num) = (base, lim AND 0xFFFFF, acc, drop_bit 4 granularity)
   else setGDTGate num base lim acc granularity m = Inl OutOfBounds"
  by (simp add: setGDTGate_def descriptor_gdt_entry not_less)

text \<open>
  The segment \<^verbatim>\<open>writeTSS\<close> describes does not end with the task state segment: the limit passed
  is the address behind it, so that the processor takes a segment of that size (modulo 1 MiB) from
  its base on, not one of 108 bytes.
\<close>

theorem writeTSS_limit:
  assumes "num < gdt_total_entries"
  shows "\<exists>m'. writeTSS syms num seg stack m = Inr m' \<and>
    descriptor_base (gdt_entries m' num) = ucast (addr_tss_entry syms) \<and>
    unat (descriptor_limit (gdt_entries m' num)) = (unat (ucast (addr_tss_entry syms) :: u32) + 108) mod 2 ^ 20"
proof -
  let ?base = "ucast (addr_tss_entry syms) :: u32"
  have mask: "(0xFFFFF :: u32) = mask 20" by (simp add: mask_eq_exp_minus_1)
  have "unat ((?base + 108) AND 0xFFFFF) = unat (?base + 108) mod 2 ^ 20"
    unfolding mask take_bit_eq_mask [symmetric] by (simp add: unsigned_take_bit_eq take_bit_eq_mod [where 'a = nat])
  also have "\<dots> = (unat ?base + 108) mod 2 ^ 20"
    by (simp add: unat_word_ariths mod_mod_cancel del: unat_ucast_fits)
  finally have "unat ((?base + 108) AND 0xFFFFF) = (unat ?base + 108) mod 2 ^ 20" .
  moreover obtain m1 where "setGDTGate num ?base (?base + 108)
      (GDT_ACCESS_PRESENT OR GDT_ACCESS_RING3 OR GDT_ACCESS_EXEC OR GDT_ACCESS_ACC) 0x00 m = Inr m1"
    "descriptor (gdt_entries m1 num) = gate_descriptor (?base, ?base + 108,
      GDT_ACCESS_PRESENT OR GDT_ACCESS_RING3 OR GDT_ACCESS_EXEC OR GDT_ACCESS_ACC, 0x00)"
    using assms by (simp add: setGDTGate_def descriptor_gdt_entry not_le [symmetric])
  ultimately show ?thesis
    by (simp add: writeTSS_def sizeof_tss_entry_def descriptor_def)
qed

definition blank_gdt_machine :: "'w \<Rightarrow> 'w gdt_machine" where
  "blank_gdt_machine w = \<lparr> console = blank_console, world = w,
     gdt_entries = (\<lambda>i. \<lparr> limit = 0, base_low = 0, base_mid = 0, access = 0, flags = 0, base_high = 0 \<rparr>),
     gdt_ptr = \<lparr> ptr_limit = 0, ptr_base = 0 \<rparr>, tss_entry = zero_tss,
     gdtr = \<lparr> ptr_limit = 0, ptr_base = 0 \<rparr>, code_segment = 0, data_segments = 0 \<rparr>"

theorem writeTSS_limit_witness:
  "\<exists>m'. writeTSS \<lparr> addr_gdt_entries = 0xffffffffc0104000, addr_tss_entry = 0xffffffffc0105000 \<rparr> 5 0x10 0
      (blank_gdt_machine ()) = Inr m' \<and>
    descriptor_base (gdt_entries m' 5) = 0xc0105000 \<and>
    unat (descriptor_limit (gdt_entries m' 5)) = 0x506c"
proof -
  have base: "(0xc0105000 :: u32) = 0xffffffffc0105000" by simp
  show ?thesis
    unfolding base
    using writeTSS_limit [of 5 "\<lparr> addr_gdt_entries = 0xffffffffc0104000, addr_tss_entry = 0xffffffffc0105000 \<rparr>"
      "0x10" 0 "blank_gdt_machine ()"]
    by (simp add: gdt_total_entries_def)
qed

end
