(* ===== verification/Idt.thy ===== *)
theory Idt
  imports Gdt
begin

text \<open>
  Interrupts in the kernel: \<^verbatim>\<open>x86/idt.h\<close>, \<^verbatim>\<open>x86/idt.c\<close> and the stubs of \<^verbatim>\<open>x86/idt.asm\<close>.
\<close>

section \<open>Data\<close>

record idt_entry_struct =
  offset_low :: u16
  selector :: u16
  ist :: u8
  attributes :: u8
  offset_mid :: u16
  offset_high :: u32
  reserved :: u32

record idt_ptr_struct =
  idt_limit :: u16
  idt_offset :: u64

record InterruptRegisters =
  rdx :: u64
  rcx :: u64
  rbx :: u64
  rax :: u64
  int_no :: u64
  err_no :: u64
  rip :: u64
  r_cs :: u64
  rflags :: u64
  rsp :: u64
  r_ss :: u64

definition IDT_ATTRIBUTE_TASK :: u8 where "IDT_ATTRIBUTE_TASK = 0x85"
definition IDT_ATTRIBUTE_INTERRUPT :: u8 where "IDT_ATTRIBUTE_INTERRUPT = 0x8E"
definition IDT_ATTRIBUTE_TRAP :: u8 where "IDT_ATTRIBUTE_TRAP = 0x8F"
definition IDT_ATTRIBUTE_RING0 :: u8 where "IDT_ATTRIBUTE_RING0 = 0x00"
definition IDT_ATTRIBUTE_RING1 :: u8 where "IDT_ATTRIBUTE_RING1 = 0x20"
definition IDT_ATTRIBUTE_RING2 :: u8 where "IDT_ATTRIBUTE_RING2 = 0x40"
definition IDT_ATTRIBUTE_RING3 :: u8 where "IDT_ATTRIBUTE_RING3 = 0x60"

definition idt_total_entries :: nat where "idt_total_entries = 256"
definition sizeof_idt_entry :: nat where "sizeof_idt_entry = 16"

definition MASTER_COMMS :: u16 where "MASTER_COMMS = 0x20"
definition SLAVE_COMMS :: u16 where "SLAVE_COMMS = 0xA0"
definition MASTER_DATA :: u16 where "MASTER_DATA = 0x21"
definition SLAVE_DATA :: u16 where "SLAVE_DATA = 0xA1"

text \<open>
  The global variables, the processor's table register and its interrupt flag.  A function pointer
  in \<^verbatim>\<open>irq_routines\<close> is a value of \<open>'h\<close>, the null pointer \<open>None\<close>.
\<close>

record ('w, 'h) idt_machine = "'w gdt_machine" +
  idt_entries :: "u8 \<Rightarrow> idt_entry_struct"
  idt_ptr :: idt_ptr_struct
  idtr :: idt_ptr_struct
  interrupts_on :: bool
  irq_routines :: "nat \<Rightarrow> 'h option"

text \<open>The addresses of the table and of the stubs \<^verbatim>\<open>isr0\<close>, ... and \<^verbatim>\<open>isq0\<close>, ...\<close>

record idt_symbols =
  addr_idt_entries :: u64
  addr_isr :: "nat \<Rightarrow> u64"
  addr_isq :: "nat \<Rightarrow> u64"

section \<open>The descriptor table\<close>

definition zero_idt_entry :: idt_entry_struct where
  "zero_idt_entry = \<lparr> offset_low = 0, selector = 0, ist = 0, attributes = 0, offset_mid = 0,
     offset_high = 0, reserved = 0 \<rparr>"

definition setIDTGate ::
  "u8 \<Rightarrow> u64 \<Rightarrow> u16 \<Rightarrow> u8 \<Rightarrow> ('w, 'h, 'e) idt_machine_scheme \<Rightarrow> ('w, 'h, 'e) idt_machine_scheme" where
  "setIDTGate num offset sel attr m = m \<lparr> idt_entries := (idt_entries m)(num := idt_entries m num \<lparr>
     offset_low := ucast (offset AND 0xFFFF),
     offset_mid := ucast (drop_bit 16 offset),
     offset_high := ucast (drop_bit 32 offset),
     ist := 0, selector := sel, reserved := 0, attributes := attr \<rparr>) \<rparr>"

text \<open>The gates \<^verbatim>\<open>initIDT\<close> sets, in order: number and stub.\<close>

definition idt_gates :: "idt_symbols \<Rightarrow> (u8 \<times> u64) list" where
  "idt_gates syms =
     map (\<lambda>i. (of_nat i, addr_isr syms i)) [0..<32] @
     map (\<lambda>i. (of_nat (32 + i), addr_isq syms i)) [0..<16] @
     [(127, addr_isr syms 127), (128, addr_isr syms 128)]"

text \<open>The initialisation of the interrupt controllers.\<close>

definition init_pics ::
  "(u16 \<Rightarrow> 'w \<Rightarrow> u8 \<times> 'w) \<Rightarrow> ('w, 'e) machine_scheme \<Rightarrow> ('w, 'e) machine_scheme" where
  "init_pics devices m =
     (let (maskM, m) = inb devices MASTER_DATA m;
          (maskS, m) = inb devices MASTER_DATA m;
          m = port_out MASTER_COMMS 0x11 m;
          m = port_out SLAVE_COMMS 0x11 m;
          m = port_out MASTER_DATA 0x20 m;
          m = port_out SLAVE_DATA 0x28 m;
          m = port_out MASTER_DATA 0x04 m;
          m = port_out SLAVE_DATA 0x02 m;
          m = port_out MASTER_DATA 0x01 m;
          m = port_out SLAVE_DATA 0x01 m;
          m = port_out MASTER_DATA maskM m;
          m = port_out SLAVE_DATA maskS m
      in m)"

definition initIDT ::
  "(u16 \<Rightarrow> 'w \<Rightarrow> u8 \<times> 'w) \<Rightarrow> idt_symbols \<Rightarrow> ('w, 'h, 'e) idt_machine_scheme \<Rightarrow> ('w, 'h, 'e) idt_machine_scheme" where
  "initIDT devices syms m =
     (let m = m \<lparr> idt_ptr := \<lparr> idt_limit = of_nat (sizeof_idt_entry * idt_total_entries - 1),
                               idt_offset = addr_idt_entries syms \<rparr> \<rparr>;
          m = m \<lparr> idt_entries := (\<lambda>i. zero_idt_entry) \<rparr>;
          m = init_pics devices m;
          m = fold (\<lambda>(num, offset). setIDTGate num offset 0x08 IDT_ATTRIBUTE_INTERRUPT) (idt_gates syms) m
      in m \<lparr> idtr := idt_ptr m, interrupts_on := True \<rparr>)"

section \<open>Exceptions\<close>

definition exception_messages :: "string list" where
  "exception_messages =
    [''Division By Zero'', ''Debug'', ''Non Maskable Interrupt'', ''Breakpoint'',
     ''Into Detected Overflow'', ''Out of Bounds'', ''Invalid Opcode'', ''No x87 Coprocessor'',
     ''Double fault'', ''Coprocessor Segment Overrun'', ''Bad TSS'', ''Segment not present'',
     ''Stack fault'', ''General protection fault'', ''Page fault'', ''Reserved'',
     ''x87 Floating-Point Exception'', ''Alignment Fault'', ''Machine Check'',
     ''SIMD Floating-Point Exception'', ''Virtualization'', ''Control Protection Exception'',
     ''Reserved'', ''Reserved'', ''Reserved'', ''Reserved'', ''Reserved'', ''Reserved'',
     ''Hypervisor Injection Exception'', ''VMM Communication Exception'', ''Security Exception'',
     ''Reserved'']"

text \<open>\<^verbatim>\<open>printf\<close> of a line of the register dump.\<close>

definition print_register ::
  "string \<Rightarrow> u64 \<Rightarrow> ('w, 'e) machine_scheme \<Rightarrow> ('w, 'e) machine_scheme res" where
  "print_register name value = print Kernel64 (name @ '': 0x%x'' @ [CHR ''\<newline>'']) [Bits value]"

definition isr_handler ::
  "InterruptRegisters \<Rightarrow> ('w, 'e) machine_scheme \<Rightarrow> (InterruptRegisters \<times> ('w, 'e) machine_scheme) res" where
  "isr_handler regs m =
     (if int_no regs < 32 then
        bindE (print Kernel64 (CHR ''\<newline>'' # ''Interrupt! \"%s\" err: 0x%x'' @ [CHR ''\<newline>''])
            [Str (bytes_of (exception_messages ! unat (int_no regs))), Bits (err_no regs)] m) (\<lambda>m.
        bindE (print_register ''RAX'' (rax regs) m) (\<lambda>m.
        bindE (print_register ''RBX'' (rbx regs) m) (\<lambda>m.
        bindE (print_register ''RCX'' (rcx regs) m) (\<lambda>m.
        bindE (print_register ''RDX'' (rdx regs) m) (\<lambda>m.
        bindE (print_register ''RIP'' (rip regs) m) (\<lambda>m.
          Inr (regs, m)))))))
      else Inr (regs, m))"

section \<open>Interrupt requests\<close>

definition irq_slots :: nat where "irq_slots = 16"

definition irq_install_handler ::
  "i32 \<Rightarrow> 'h option \<Rightarrow> ('w, 'h, 'e) idt_machine_scheme \<Rightarrow> ('w, 'h, 'e) idt_machine_scheme res" where
  "irq_install_handler irq handler m =
     (if sint irq < 0 \<or> int irq_slots \<le> sint irq then Inl OutOfBounds
      else Inr (m \<lparr> irq_routines := (irq_routines m)(nat (sint irq) := handler) \<rparr>))"

definition irq_uninstall_handler ::
  "i32 \<Rightarrow> ('w, 'h, 'e) idt_machine_scheme \<Rightarrow> ('w, 'h, 'e) idt_machine_scheme res" where
  "irq_uninstall_handler irq m = irq_install_handler irq None m"

text \<open>\<open>call\<close> runs the function behind a pointer.\<close>

definition irq_handler ::
  "('h \<Rightarrow> InterruptRegisters \<Rightarrow> ('w, 'h, 'e) idt_machine_scheme \<Rightarrow> ('w, 'h, 'e) idt_machine_scheme res)
    \<Rightarrow> InterruptRegisters \<Rightarrow> ('w, 'h, 'e) idt_machine_scheme \<Rightarrow> ('w, 'h, 'e) idt_machine_scheme res" where
  "irq_handler call regs m =
     (let i = unat (int_no regs - 32) in
      if irq_slots \<le> i then Inl OutOfBounds
      else bindE (case irq_routines m i of None \<Rightarrow> Inr m | Some handler \<Rightarrow> call handler regs m) (\<lambda>m.
        let m = (if 40 \<le> int_no regs then port_out SLAVE_COMMS 0x20 m else m)
        in Inr (port_out MASTER_COMMS 0x20 m)))"

section \<open>The stubs\<close>

text \<open>
  The stack, its top first.  \<open>isr_entry\<close> is what the stub of an exception or a system call pushes and
  \<open>irq_entry\<close> the stub of an interrupt request; \<open>pushall\<close> follows in both.
\<close>

definition error_code_stubs :: "nat list" where
  "error_code_stubs = [8, 10, 11, 12, 13, 14]"

definition isr_entry :: "nat \<Rightarrow> u64 list \<Rightarrow> u64 list" where
  "isr_entry n stack = of_nat n # (if n \<in> set error_code_stubs then stack else 0 # stack)"

definition irq_entry :: "nat \<Rightarrow> u64 list \<Rightarrow> u64 list" where
  "irq_entry i stack = of_nat (32 + i) # 0 # stack"

definition pushall :: "u64 \<Rightarrow> u64 \<Rightarrow> u64 \<Rightarrow> u64 \<Rightarrow> u64 list \<Rightarrow> u64 list" where
  "pushall a b c d stack = d # c # b # a # stack"

text \<open>The registers RAX, RBX, RCX and RDX \<^verbatim>\<open>popall\<close> restores, and the stack \<^verbatim>\<open>iretq\<close> then returns by.\<close>

definition popall :: "u64 list \<Rightarrow> (u64 \<times> u64 \<times> u64 \<times> u64) \<times> u64 list" where
  "popall stack = ((stack ! 3, stack ! 2, stack ! 1, stack ! 0), drop 2 (drop 4 stack))"

text \<open>The structure the handlers are given a pointer to: the top eleven entries of the stack.\<close>

definition regs_at :: "u64 list \<Rightarrow> InterruptRegisters" where
  "regs_at s = \<lparr> rdx = s ! 0, rcx = s ! 1, rbx = s ! 2, rax = s ! 3, int_no = s ! 4, err_no = s ! 5,
     rip = s ! 6, r_cs = s ! 7, rflags = s ! 8, rsp = s ! 9, r_ss = s ! 10 \<rparr>"

definition regs_words :: "InterruptRegisters \<Rightarrow> u64 list" where
  "regs_words r = [rdx r, rcx r, rbx r, rax r, int_no r, err_no r, rip r, r_cs r, rflags r, rsp r, r_ss r]"

text \<open>
  The registers of the interrupted program as far as the stubs and the functions they call may change
  them: the four \<^verbatim>\<open>pushall\<close> saves, the stack pointer and the other six registers a C function need not
  preserve.
\<close>

record scratch_regs =
  RDI :: u64
  RSI :: u64
  R8 :: u64
  R9 :: u64
  R10 :: u64
  R11 :: u64

record cpu_regs =
  RAX :: u64
  RBX :: u64
  RCX :: u64
  RDX :: u64
  RSP :: u64
  scratch :: scratch_regs

text \<open>The call of the handler with RDI pointing to the stack; \<open>left\<close> is what the compiled function leaves in the scratch registers.\<close>

definition handler_call :: "(scratch_regs \<Rightarrow> scratch_regs) \<Rightarrow> cpu_regs \<Rightarrow> cpu_regs" where
  "handler_call left r = r \<lparr> scratch := left (scratch r \<lparr> RDI := RSP r \<rparr>) \<rparr>"

definition pushed_regs :: "u64 list \<Rightarrow> u64 list \<Rightarrow> cpu_regs \<Rightarrow> cpu_regs" where
  "pushed_regs s stack r = r \<lparr> RSP := RSP r - of_nat (8 * (length s - length stack)) \<rparr>"

text \<open>\<^verbatim>\<open>popall\<close> on the registers and the stack, up to \<^verbatim>\<open>iretq\<close>.\<close>

definition popall_regs :: "u64 list \<Rightarrow> cpu_regs \<Rightarrow> cpu_regs \<times> u64 list" where
  "popall_regs s r = (case popall s of ((a, b, c, d), stack) \<Rightarrow>
     (r \<lparr> RAX := a, RBX := b, RCX := c, RDX := d, RSP := RSP r + 48 \<rparr>, stack))"

section \<open>The table as the processor reads it\<close>

definition gate_offset :: "idt_entry_struct \<Rightarrow> u64" where
  "gate_offset e = ucast (offset_low e) OR push_bit 16 (ucast (offset_mid e)) OR push_bit 32 (ucast (offset_high e))"

definition gate :: "idt_entry_struct \<Rightarrow> u64 \<times> u16 \<times> u8 \<times> u8" where
  "gate e = (gate_offset e, selector e, ist e, attributes e)"

lemma offset_split:
  fixes a :: u64
  shows "ucast (ucast (a AND 0xFFFF) :: u16) OR push_bit 16 (ucast (ucast (drop_bit 16 a) :: u16))
     OR push_bit 32 (ucast (ucast (drop_bit 32 a) :: u32)) = a"
proof -
  have mask: "(0xFFFF :: u64) = mask 16" by (simp add: mask_eq_exp_minus_1)
  show ?thesis
    unfolding mask
    by (rule bit_word_eqI, rename_tac n, case_tac "n < 16"; case_tac "n < 32"; simp add: bit_simps; linarith?)
qed

text \<open>Both tables are stores: of gates by vector, and of handlers by interrupt request.\<close>

interpretation idt: indexed_store "\<lambda>m i. gate (idt_entries m i)"
  "\<lambda>i offset. setIDTGate i offset 0x08 IDT_ATTRIBUTE_INTERRUPT" "\<lambda>i. True"
  "\<lambda>offset. (offset, 0x08, 0, IDT_ATTRIBUTE_INTERRUPT)"
  by unfold_locales (simp add: setIDTGate_def gate_def gate_offset_def offset_split)

definition valid_irq :: "i32 \<Rightarrow> bool" where
  "valid_irq irq \<longleftrightarrow> 0 \<le> sint irq \<and> sint irq < int irq_slots"

interpretation irqs: cell_store "\<lambda>m i. irq_routines m (nat (sint i))"
  "\<lambda>i h m. projr (irq_install_handler i h m)" valid_irq
proof unfold_locales
  fix i j :: i32 and p s
  assume "valid_irq i" "valid_irq j"
  moreover have "sint j = sint i \<longleftrightarrow> j = i" by (metis signed_word_eqI)
  ultimately show "irq_routines (projr (irq_install_handler i p s)) (nat (sint j)) =
      (if j = i then p else irq_routines s (nat (sint j)))"
    by (auto simp: irq_install_handler_def valid_irq_def nat_eq_iff)
qed

lemma map_of_range:
  fixes v :: u8
  assumes "a + n \<le> 256"
  shows "map_of (map (\<lambda>i. (of_nat (a + i), f i)) [0..<n]) v =
    (if a \<le> unat v \<and> unat v < a + n then Some (f (unat v - a)) else None)"
  using assms
proof (induction n)
  case (Suc n)
  have "of_nat (a + n) = v \<longleftrightarrow> unat v = a + n"
  proof -
    have "unat (of_nat (a + n) :: u8) = a + n" using Suc.prems by (intro unat_of_nat_small) simp
    then show ?thesis by (metis word_unat_eq_iff)
  qed
  then show ?case
    using Suc by (auto simp: map_add_def simp del: of_nat_add split: option.splits if_splits)
qed simp


lemma set_idt_gates_frame:
  "\<exists>e. fold (\<lambda>(num, offset). setIDTGate num offset sel attr) gs m = m \<lparr> idt_entries := e \<rparr>"
proof (induction gs arbitrary: m)
  case Nil
  then show ?case by (intro exI [of _ "idt_entries m"]) simp
next
  case (Cons g gs)
  obtain num offset where g: "g = (num, offset)" by (cases g)
  obtain e where e: "setIDTGate num offset sel attr m = m \<lparr> idt_entries := e \<rparr>" by (simp add: setIDTGate_def)
  show ?case using Cons.IH [of "setIDTGate num offset sel attr m"] unfolding g by (auto simp: e)
qed

text \<open>\<^verbatim>\<open>init_pics\<close> changes the console and the devices only.\<close>

lemma init_pics_frame:
  "\<exists>c w. init_pics devices m = m \<lparr> world := w, console := c \<rparr> \<and>
     vmem c = vmem (console m) \<and> screenX c = screenX (console m) \<and> screenY c = screenY (console m)"
  by (auto simp: init_pics_def inb_def port_out_def Let_def split: prod.splits)

section \<open>Initialisation\<close>

text \<open>The stub a vector is to go to: exceptions to 31, interrupt requests to 47, system calls 127 and 128.\<close>

definition stub_of :: "idt_symbols \<Rightarrow> u8 \<Rightarrow> u64 option" where
  "stub_of syms v =
     (if v < 32 \<or> v = 127 \<or> v = 128 then Some (addr_isr syms (unat v))
      else if v < 48 then Some (addr_isq syms (unat v - 32))
      else None)"

lemma map_of_idt_gates: "map_of (idt_gates syms) v = stub_of syms v"
proof -
  have v: "v < 32 \<longleftrightarrow> unat v < 32" "v < 48 \<longleftrightarrow> unat v < 48" "v = 127 \<longleftrightarrow> unat v = 127" "v = 128 \<longleftrightarrow> unat v = 128"
    by (simp_all add: word_less_nat_alt word_unat_eq_iff)
  note isr = map_of_range [of 0 32 "addr_isr syms" v, simplified]
  note isq = map_of_range [of 32 16 "addr_isq syms" v, simplified]
  show ?thesis
    by (simp add: idt_gates_def map_of_append map_add_def isr isq stub_of_def v del: upt_rec_numeral split: option.splits)
qed

lemma distinct_idt_gates: "distinct (map fst (idt_gates syms))"
  by (simp add: idt_gates_def comp_def upt_rec)


lemma initIDT_result:
  fixes m :: "('w, 'h, 'e) idt_machine_scheme" and syms :: idt_symbols
  defines "ptr \<equiv> \<lparr> idt_limit = 256 * 16 - 1, idt_offset = addr_idt_entries syms \<rparr>"
  shows "\<exists>e w c. init_pics devices (m \<lparr> idt_ptr := ptr, idt_entries := (\<lambda>i. zero_idt_entry) \<rparr>) =
        m \<lparr> idt_ptr := ptr, idt_entries := (\<lambda>i. zero_idt_entry), world := w, console := c \<rparr> \<and>
      vmem c = vmem (console m) \<and> screenX c = screenX (console m) \<and> screenY c = screenY (console m) \<and>
      initIDT devices syms m = m \<lparr> idt_ptr := ptr, idt_entries := e, world := w, console := c, idtr := ptr,
        interrupts_on := True \<rparr> \<and>
      (\<forall>v. gate (e v) = (case stub_of syms v of Some a \<Rightarrow> (a, 8, 0, 0x8E) | None \<Rightarrow> (0, 0, 0, 0)))"
proof -
  let ?start = "m \<lparr> idt_ptr := ptr, idt_entries := (\<lambda>i. zero_idt_entry) \<rparr>"
  let ?m = "init_pics devices ?start"
  let ?f = "fold (\<lambda>(num, offset). setIDTGate num offset 0x08 IDT_ATTRIBUTE_INTERRUPT) (idt_gates syms) ?m"
  have ptr: "ptr = \<lparr> idt_limit = of_nat (sizeof_idt_entry * idt_total_entries - 1), idt_offset = addr_idt_entries syms \<rparr>"
    by (simp add: ptr_def sizeof_idt_entry_def idt_total_entries_def)
  have init: "initIDT devices syms m = ?f \<lparr> idtr := idt_ptr ?f, interrupts_on := True \<rparr>"
    by (simp only: initIDT_def Let_def ptr)
  obtain c w where w: "?m = ?start \<lparr> world := w, console := c \<rparr>"
      and c0: "vmem c = vmem (console ?start)" "screenX c = screenX (console ?start)" "screenY c = screenY (console ?start)"
    using init_pics_frame [of devices ?start] by (elim exE conjE)
  have c: "vmem c = vmem (console m)" "screenX c = screenX (console m)" "screenY c = screenY (console m)"
    using c0 by simp_all
  obtain e where e: "?f = ?m \<lparr> idt_entries := e \<rparr>" using set_idt_gates_frame by blast
  have "gate (e v) = (case stub_of syms v of Some a \<Rightarrow> (a, 8, 0, 0x8E) | None \<Rightarrow> (0, 0, 0, 0))" for v
  proof -
    have "idt_entries ?f v = e v" unfolding e by simp
    moreover have "gate (idt_entries ?f v) =
        (case map_of (idt_gates syms) v of Some a \<Rightarrow> (a, 8, 0, 0x8E) | None \<Rightarrow> gate (idt_entries ?m v))"
      using idt.fetch_fold_entries [of "idt_gates syms" ?m v] distinct_idt_gates [of syms]
      by (simp add: list_all_iff case_prod_beta IDT_ATTRIBUTE_INTERRUPT_def split: option.split)
    moreover have "gate (idt_entries ?m v) = (0, 0, 0, 0)"
      unfolding w by (simp add: gate_def gate_offset_def zero_idt_entry_def)
    ultimately show ?thesis unfolding map_of_idt_gates by (simp split: option.splits)
  qed
  moreover have "initIDT devices syms m = m \<lparr> idt_ptr := ptr, idt_entries := e, world := w, console := c, idtr := ptr,
      interrupts_on := True \<rparr>"
    unfolding init e unfolding w by simp
  ultimately show ?thesis using w c by blast
qed

text \<open>
  C32: After \<^verbatim>\<open>initIDT\<close> the processor reads, for every vector, exactly the gate meant for it: the stub of
  the exception, interrupt request or system call at its full 64-bit address, in code segment 8, as a
  present interrupt gate of ring 0, and an empty gate for every other vector; the table register
  covers the 256 gates and interrupts are on.
\<close>

theorem initIDT_gates:
  "gate (idt_entries (initIDT devices syms m) v) =
     (case stub_of syms v of Some a \<Rightarrow> (a, 8, 0, 0x8E) | None \<Rightarrow> (0, 0, 0, 0)) \<and>
   idtr (initIDT devices syms m) = \<lparr> idt_limit = 256 * 16 - 1, idt_offset = addr_idt_entries syms \<rparr> \<and>
   interrupts_on (initIDT devices syms m)"
  using initIDT_result [where devices = devices and m = m and syms = syms] by force

section \<open>The interrupt controllers\<close>

text \<open>
  What an 8259 makes of the bytes written to it: a command byte with bit 4 set starts the
  initialisation, whose further bytes come over the data port; any other data byte is the mask.  The
  command 0x20 ends the interrupt of highest priority, which is the lowest bit in service.
\<close>

record pic =
  icw :: nat
  vector_base :: u8
  cascade :: u8
  pic_mode :: u8
  pic_mask :: u8
  in_service :: u8

definition pic_command :: "u8 \<Rightarrow> pic \<Rightarrow> pic" where
  "pic_command v p =
     (if bit v 4 then p \<lparr> icw := 2, pic_mask := 0, in_service := 0 \<rparr>
      else if v = 0x20 then p \<lparr> in_service := in_service p AND (in_service p - 1) \<rparr> else p)"

definition pic_data :: "u8 \<Rightarrow> pic \<Rightarrow> pic" where
  "pic_data v p =
     (if icw p = 2 then p \<lparr> icw := 3, vector_base := v \<rparr>
      else if icw p = 3 then p \<lparr> icw := 4, cascade := v \<rparr>
      else if icw p = 4 then p \<lparr> icw := 0, pic_mode := v \<rparr>
      else p \<lparr> pic_mask := v \<rparr>)"

fun pics_write :: "u16 \<times> u8 \<Rightarrow> pic \<times> pic \<Rightarrow> pic \<times> pic" where
  "pics_write (port, v) (master, slave) =
     (if port = MASTER_COMMS then (pic_command v master, slave)
      else if port = MASTER_DATA then (pic_data v master, slave)
      else if port = SLAVE_COMMS then (master, pic_command v slave)
      else if port = SLAVE_DATA then (master, pic_data v slave)
      else (master, slave))"

text \<open>The controllers after all the writes made so far, from their state at power-on.\<close>

definition pics_of :: "pic \<times> pic \<Rightarrow> ('w, 'e) machine_scheme \<Rightarrow> pic \<times> pic" where
  "pics_of p m = foldr pics_write (ports (console m)) p"

lemma pics_of_port_out [simp]: "pics_of p (port_out port v m) = pics_write (port, v) (pics_of p m)"
  by (simp add: pics_of_def port_out_def)

text \<open>Output to the console does not reach the controllers.\<close>

lemma pics_of_display:
  assumes "display_writes (console m) (console m')"
  shows "pics_of p m' = pics_of p m"
proof -
  obtain ws where ws: "ports (console m') = ws @ ports (console m)" "fst ` set ws \<subseteq> {0x3D4, 0x3D5}"
    using assms by (auto simp: display_writes_def)
  have "foldr pics_write ws ps = ps" for ps
    using ws(2) by (induction ws; cases ps)
      (auto simp: MASTER_COMMS_def MASTER_DATA_def SLAVE_COMMS_def SLAVE_DATA_def)
  then show ?thesis by (simp add: pics_of_def ws(1))
qed

lemmas pic_ports = MASTER_COMMS_def MASTER_DATA_def SLAVE_COMMS_def SLAVE_DATA_def

text \<open>
  C33: Whatever state the controllers were in, \<^verbatim>\<open>initIDT\<close> leaves them initialised and raising interrupt
  requests 0 to 15 at vectors 32 to 47, with nothing in service.  The mask of both is the one read
  from the master: the slave's own mask is never read, and is lost.
\<close>

theorem initIDT_remaps_pics:
  assumes "devices MASTER_DATA (world m) = (mask_read, w)" and "devices MASTER_DATA w = (mask_read', w')"
  shows "pics_of p (initIDT devices syms m) =
    (\<lparr> icw = 0, vector_base = 32, cascade = 4, pic_mode = 1, pic_mask = mask_read, in_service = 0 \<rparr>,
     \<lparr> icw = 0, vector_base = 40, cascade = 2, pic_mode = 1, pic_mask = mask_read', in_service = 0 \<rparr>)"
proof -
  let ?m = "m \<lparr> idt_ptr := \<lparr> idt_limit = of_nat (sizeof_idt_entry * idt_total_entries - 1),
    idt_offset = addr_idt_entries syms \<rparr>, idt_entries := (\<lambda>i. zero_idt_entry) \<rparr>"
  obtain e where e: "fold (\<lambda>(num, offset). setIDTGate num offset 0x08 IDT_ATTRIBUTE_INTERRUPT) (idt_gates syms)
      (init_pics devices ?m) = init_pics devices ?m \<lparr> idt_entries := e \<rparr>"
    using set_idt_gates_frame by blast
  have "pics_of p (initIDT devices syms m) = pics_of p (init_pics devices ?m)"
    unfolding initIDT_def Let_def e by (simp add: pics_of_def)
  also have "... =
    (\<lparr> icw = 0, vector_base = 32, cascade = 4, pic_mode = 1, pic_mask = mask_read, in_service = 0 \<rparr>,
     \<lparr> icw = 0, vector_base = 40, cascade = 2, pic_mode = 1, pic_mask = mask_read', in_service = 0 \<rparr>)"
    using assms by (cases "pics_of p (m \<lparr> idt_ptr := \<lparr> idt_limit = of_nat (sizeof_idt_entry * idt_total_entries - 1),
    idt_offset = addr_idt_entries syms \<rparr>, idt_entries := (\<lambda>i. zero_idt_entry), world := w' \<rparr>)")
      (simp add: init_pics_def inb_def pic_ports pic_command_def pic_data_def Let_def)
  finally show ?thesis .
qed

text \<open>What a controller has in service when interrupt request \<open>i\<close> is being handled.\<close>

definition servicing :: "nat \<Rightarrow> u8 \<times> u8" where
  "servicing i = (if i < 8 then (push_bit i 1, 0) else (push_bit 2 1, push_bit (i - 8) 1))"

lemma lessThan_16: "i < 16 \<Longrightarrow> i \<in> {0, 1, 2, 3, 4, 5, 6, 7, 8, 9, 10, 11, 12, 13, 14, 15}" for i :: nat
proof -
  assume "i < 16"
  then have "i \<in> {..<16}" by simp
  then show ?thesis unfolding lessThan_nat_numeral lessThan_0 pred_numeral_simps BitM.simps by auto
qed

lemma end_of_interrupt:
  assumes "i < 16" and "(in_service master, in_service slave) = servicing i" and "int_no regs = of_nat (32 + i)"
    and "pics_of p m = (master, slave)"
  shows "(let m = (if 40 \<le> int_no regs then port_out SLAVE_COMMS 0x20 m else m) in
      map_prod in_service in_service (pics_of p (port_out MASTER_COMMS 0x20 m))) = (0, 0)"
proof -
  show ?thesis
    using lessThan_16 [OF assms(1)] assms(2-4) by (elim insertE emptyE) (simp_all add: servicing_def pic_ports pic_command_def)
qed

lemma irq_handler_acknowledges:
  assumes "i < 16" and "int_no regs = of_nat (32 + i)"
    and "map_prod in_service in_service (pics_of p m) = servicing i"
    and "(case irq_routines m i of None \<Rightarrow> Inr m | Some handler \<Rightarrow> call handler regs m) = Inr m'"
    and "pics_of p m' = pics_of p m"
  shows "\<exists>c. irq_handler call regs m = Inr (m' \<lparr> console := c \<rparr>) \<and>
    vmem c = vmem (console m') \<and> screenX c = screenX (console m') \<and> screenY c = screenY (console m') \<and>
    map_prod in_service in_service (pics_of p (m' \<lparr> console := c \<rparr>)) = (0, 0)"
proof -
  have i: "unat (int_no regs - 32) = i" "\<not> irq_slots \<le> unat (int_no regs - 32)"
    using assms(1,2) by (simp_all add: irq_slots_def)
  let ?m = "if 40 \<le> int_no regs then port_out SLAVE_COMMS 0x20 m' else m'"
  obtain master slave where ps: "pics_of p m' = (master, slave)" by (cases "pics_of p m'")
  then have serv: "(in_service master, in_service slave) = servicing i"
    using assms(3,5) by (metis map_prod_simp)
  have "irq_handler call regs m = Inr (port_out MASTER_COMMS 0x20 ?m)"
    using assms(4) i by (simp add: irq_handler_def Let_def)
  moreover have "port_out MASTER_COMMS 0x20 ?m = m' \<lparr> console := console (port_out MASTER_COMMS 0x20 ?m) \<rparr>"
    by (simp add: port_out_def)
  moreover have "map_prod in_service in_service (pics_of p (port_out MASTER_COMMS 0x20 ?m)) = (0, 0)"
    using end_of_interrupt [OF assms(1) serv assms(2) ps] by (simp only: Let_def)
  moreover have "vmem (console (port_out MASTER_COMMS 0x20 ?m)) = vmem (console m')"
    "screenX (console (port_out MASTER_COMMS 0x20 ?m)) = screenX (console m')"
    "screenY (console (port_out MASTER_COMMS 0x20 ?m)) = screenY (console m')"
    by (simp_all add: port_out_def)
  ultimately show ?thesis by metis
qed


text \<open>
  The handler of interrupt request \<open>i\<close> runs the routine installed for \<open>i\<close>, on the machine as it is,
  and if that returns without a write to the controllers ends the interrupt: the controllers that
  serviced it, both of them for requests of the slave, have nothing in service afterwards.
\<close>

theorem irq_handler_ends_interrupt:
  assumes "i < 16" and "int_no regs = of_nat (32 + i)"
    and "map_prod in_service in_service (pics_of p m) = servicing i"
    and "(case irq_routines m i of None \<Rightarrow> Inr m | Some handler \<Rightarrow> call handler regs m) = Inr m'"
    and "pics_of p m' = pics_of p m"
  shows "\<exists>c. irq_handler call regs m = Inr (m' \<lparr> console := c \<rparr>) \<and>
    vmem c = vmem (console m') \<and> screenX c = screenX (console m') \<and> screenY c = screenY (console m') \<and>
    map_prod in_service in_service (pics_of p (m' \<lparr> console := c \<rparr>)) = (0, 0)"
  by (rule irq_handler_acknowledges [of i regs p m call m', OF assms])

section \<open>Requests\<close>

text \<open>
  How requests reach the processor.  A controller lets one through that is not masked while nothing of
  its priority or above is in service; requests 8 to 15 come through line 2 of the master.  When the
  processor accepts a request, the controllers that let it through have it in service, and give the vector.
\<close>

definition pic_lets :: "nat \<Rightarrow> pic \<Rightarrow> bool" where
  "pic_lets i p \<longleftrightarrow> icw p = 0 \<and> \<not> bit (pic_mask p) i \<and> take_bit (Suc i) (in_service p) = 0"

fun accepts :: "nat \<Rightarrow> pic \<times> pic \<Rightarrow> bool" where
  "accepts i (master, slave) \<longleftrightarrow>
     (if i < 8 then pic_lets i master else i < 16 \<and> pic_lets 2 master \<and> pic_lets (i - 8) slave)"

fun accept :: "nat \<Rightarrow> pic \<times> pic \<Rightarrow> pic \<times> pic" where
  "accept i (master, slave) =
     (master \<lparr> in_service := in_service master OR fst (servicing i) \<rparr>,
      slave \<lparr> in_service := in_service slave OR snd (servicing i) \<rparr>)"

fun vector_of :: "nat \<Rightarrow> pic \<times> pic \<Rightarrow> u8" where
  "vector_of i (master, slave) =
     (if i < 8 then vector_base master + of_nat i else vector_base slave + of_nat (i - 8))"

text \<open>The controllers as \<^verbatim>\<open>initIDT\<close> leaves them, with their masks, and what they let through.\<close>

definition programmed :: "u8 \<Rightarrow> u8 \<Rightarrow> pic \<times> pic" where
  "programmed mm ms =
    (\<lparr> icw = 0, vector_base = 32, cascade = 4, pic_mode = 1, pic_mask = mm, in_service = 0 \<rparr>,
     \<lparr> icw = 0, vector_base = 40, cascade = 2, pic_mode = 1, pic_mask = ms, in_service = 0 \<rparr>)"

definition unmasked :: "u8 \<Rightarrow> u8 \<Rightarrow> nat \<Rightarrow> bool" where
  "unmasked mm ms i \<longleftrightarrow> (if i < 8 then \<not> bit mm i else i < 16 \<and> \<not> bit mm 2 \<and> \<not> bit ms (i - 8))"

lemma accepts_programmed: "accepts i (programmed mm ms) \<longleftrightarrow> unmasked mm ms i"
  by (simp add: programmed_def unmasked_def pic_lets_def)

text \<open>The writes of \<^verbatim>\<open>irq_handler\<close> that end the interrupt, the newest first.\<close>

definition eoi_writes :: "nat \<Rightarrow> (u16 \<times> u8) list" where
  "eoi_writes i = (if 8 \<le> i then [(MASTER_COMMS, 0x20), (SLAVE_COMMS, 0x20)] else [(MASTER_COMMS, 0x20)])"

lemma eoi_accept: "i < 16 \<Longrightarrow> foldr pics_write (eoi_writes i) (accept i (programmed mm ms)) = programmed mm ms"
  by (drule lessThan_16, elim insertE emptyE)
    (simp_all add: eoi_writes_def programmed_def servicing_def pic_ports pic_command_def)

text \<open>The vector of a request leads to its stub.\<close>

lemma vector_stub:
  assumes "i < 16"
  shows "stub_of syms (vector_of i (programmed mm ms)) = Some (addr_isq syms i)"
proof -
  have "vector_of i (programmed mm ms) = of_nat (32 + i)"
    using assms by (auto simp: programmed_def of_nat_diff)
  moreover have "unat (of_nat (32 + i) :: u8) = 32 + i" using assms by (simp del: of_nat_add)
  ultimately show ?thesis
    using assms by (auto simp: stub_of_def word_less_nat_alt word_unat_eq_iff)
qed

definition fresh_pic :: pic where
  "fresh_pic = \<lparr> icw = 0, vector_base = 0x70, cascade = 0, pic_mode = 0, pic_mask = 0xFF, in_service = 0 \<rparr>"

definition blank_idt_machine :: "'w \<Rightarrow> ('w, 'h) idt_machine" where
  "blank_idt_machine w = gdt_machine.extend (blank_gdt_machine w)
     \<lparr> idt_entries = (\<lambda>i. zero_idt_entry), idt_ptr = \<lparr> idt_limit = 0, idt_offset = 0 \<rparr>,
       idtr = \<lparr> idt_limit = 0, idt_offset = 0 \<rparr>, interrupts_on = False, irq_routines = (\<lambda>i. None) \<rparr>"

lemma blank_idt_machine_sel [simp]:
  "console (blank_idt_machine w) = blank_console" "world (blank_idt_machine w) = w"
  "irq_routines (blank_idt_machine w) i = None"
  by (simp_all add: blank_idt_machine_def blank_gdt_machine_def gdt_machine.defs)

text \<open>A machine whose master lets requests 0, 1 and 3 to 7 through and whose slave lets none through.\<close>

theorem initIDT_remaps_pics_witness:
  "pics_of (fresh_pic, fresh_pic)
     (initIDT (\<lambda>port w. (if port = 0x21 then 0x04 else 0xFF, w))
       \<lparr> addr_idt_entries = 0xffffffffc0104000, addr_isr = (\<lambda>i. 0), addr_isq = (\<lambda>i. 0) \<rparr> (blank_idt_machine ())) =
    (\<lparr> icw = 0, vector_base = 32, cascade = 4, pic_mode = 1, pic_mask = 4, in_service = 0 \<rparr>,
     \<lparr> icw = 0, vector_base = 40, cascade = 2, pic_mode = 1, pic_mask = 4, in_service = 0 \<rparr>)"
  by (rule initIDT_remaps_pics [where w = "()" and w' = "()"]) (simp_all add: MASTER_DATA_def)

definition zero_registers :: InterruptRegisters where
  "zero_registers = \<lparr> rdx = 0, rcx = 0, rbx = 0, rax = 0, int_no = 0, err_no = 0, rip = 0, r_cs = 0,
     rflags = 0, rsp = 0, r_ss = 0 \<rparr>"

text \<open>A spurious request 10, for which no routine is installed.\<close>

theorem irq_handler_ends_interrupt_witness:
  "\<exists>c. irq_handler (\<lambda>h regs m. Inl NullPointer) (zero_registers \<lparr> int_no := 42 \<rparr>)
      (blank_idt_machine () :: (unit, unit) idt_machine) = Inr (blank_idt_machine () \<lparr> console := c \<rparr>) \<and>
    vmem c = vmem blank_console \<and> screenX c = screenX blank_console \<and> screenY c = screenY blank_console \<and>
    map_prod in_service in_service
      (pics_of (fresh_pic \<lparr> in_service := 4 \<rparr>, fresh_pic \<lparr> in_service := 4 \<rparr>)
        (blank_idt_machine () \<lparr> console := c \<rparr> :: (unit, unit) idt_machine)) = (0, 0)"
  using irq_handler_ends_interrupt [of 10 "zero_registers \<lparr> int_no := 42 \<rparr>"
      "(fresh_pic \<lparr> in_service := 4 \<rparr>, fresh_pic \<lparr> in_service := 4 \<rparr>)"
      "blank_idt_machine () :: (unit, unit) idt_machine" "\<lambda>h regs m. Inl NullPointer" "blank_idt_machine ()"]
  by (simp add: pics_of_def blank_console_def servicing_def)

section \<open>Entry and return\<close>

text \<open>
  The frame the processor pushes for an interrupt, and the exceptions it pushes an error code for.
\<close>

record frame =
  f_rip :: u64
  f_cs :: u64
  f_rflags :: u64
  f_rsp :: u64
  f_ss :: u64

definition frame_words :: "frame \<Rightarrow> u64 list" where
  "frame_words f = [f_rip f, f_cs f, f_rflags f, f_rsp f, f_ss f]"

definition cpu_error_codes :: "nat list" where
  "cpu_error_codes = [8, 10, 11, 12, 13, 14, 17, 21, 29, 30]"

definition cpu_push :: "nat \<Rightarrow> u64 \<Rightarrow> frame \<Rightarrow> u64 list \<Rightarrow> u64 list" where
  "cpu_push n err f stack =
     (if n \<in> set cpu_error_codes then err # frame_words f @ stack else frame_words f @ stack)"

text \<open>
  C34: For every vector but 17, 21, 29 and 30 the handler is given the interrupted program's RAX to RDX,
  the vector, the error code (or 0) and the processor's frame, and the return path restores these
  four registers and leaves exactly that frame for \<^verbatim>\<open>iretq\<close>.  For these four exceptions the stub pushes a
  second error code: the handler reads the real one as the instruction pointer, and \<^verbatim>\<open>iretq\<close> would
  return to it.
\<close>

theorem isr_entry_frame:
  "let s = pushall a b c d (isr_entry n (cpu_push n err f stack));
       code = (if n \<in> set cpu_error_codes then err else 0) in
   if n \<in> {17, 21, 29, 30}
   then err_no (regs_at s) = 0 \<and> rip (regs_at s) = err \<and> r_cs (regs_at s) = f_rip f \<and>
     popall s = ((a, b, c, d), err # frame_words f @ stack)
   else regs_at s = \<lparr> rdx = d, rcx = c, rbx = b, rax = a, int_no = of_nat n, err_no = code, rip = f_rip f,
       r_cs = f_cs f, rflags = f_rflags f, rsp = f_rsp f, r_ss = f_ss f \<rparr> \<and>
     popall s = ((a, b, c, d), frame_words f @ stack)"
  by (auto simp: isr_entry_def cpu_push_def frame_words_def pushall_def regs_at_def popall_def
      error_code_stubs_def cpu_error_codes_def)

text \<open>The same for interrupt requests, which never have an error code.\<close>

lemma irq_entry_frame:
  "regs_at (pushall a b c d (irq_entry i (frame_words f @ stack))) =
     \<lparr> rdx = d, rcx = c, rbx = b, rax = a, int_no = of_nat (32 + i), err_no = 0, rip = f_rip f,
       r_cs = f_cs f, rflags = f_rflags f, rsp = f_rsp f, r_ss = f_ss f \<rparr>"
  "popall (pushall a b c d (irq_entry i (frame_words f @ stack))) = ((a, b, c, d), frame_words f @ stack)"
  by (simp_all add: irq_entry_def frame_words_def pushall_def regs_at_def popall_def)

section \<open>The register dump\<close>

text \<open>A 64-bit value as \<^verbatim>\<open>%x\<close> shows it: that of its low 32 bits.\<close>

definition low_hex :: "u64 \<Rightarrow> u8 list" where
  "low_hex v = numeral_text 16 (unat (ucast v :: u32))"

definition dump_line :: "string \<Rightarrow> u64 \<Rightarrow> u8 list" where
  "dump_line name v = bytes_of (name @ '': 0x'') @ low_hex v @ [ch CHR ''\<newline>'']"

lemma render_hex_line:
  "render Kernel64 (parse_format (bytes_of (''%x'' @ [CHR ''\<newline>'']))) [Bits v] = Inr (low_hex v @ [ch CHR ''\<newline>''])"
  by (simp add: radix_of_def unsigned_arg_def low_hex_def)

lemma print_register_shows:
  assumes "name \<in> {''RAX'', ''RBX'', ''RCX'', ''RDX'', ''RIP''}"
  shows "print_register name v m = Inr (show_text Kernel64 (dump_line name v) m)"
proof -
  let ?t = "bytes_of (name @ '': 0x'')" and ?h = "bytes_of (''%x'' @ [CHR ''\<newline>''])"
  have fmt: "bytes_of (name @ '': 0x%x'' @ [CHR ''\<newline>'']) = ?t @ ?h" by (simp add: bytes_of_def)
  have "0 \<notin> set (?t @ ?h)" "ch CHR ''%'' \<notin> set ?t" using assms by auto
  then show ?thesis
    unfolding print_register_def
    by (intro print_renders; unfold fmt)
      (simp_all add: parse_format_literal render_literal render_hex_line [simplified append.simps] dump_line_def
        del: bytes_of_simps)
qed


definition dump_head :: "InterruptRegisters \<Rightarrow> u8 list" where
  "dump_head regs = bytes_of (CHR ''\<newline>'' # ''Interrupt! \"'') @
     bytes_of (exception_messages ! unat (int_no regs)) @ bytes_of (''\" err: 0x'') @
     low_hex (err_no regs) @ [ch CHR ''\<newline>'']"

lemma exception_messages_terminated: "t \<in> set exception_messages \<Longrightarrow> 0 \<notin> set (bytes_of t)"
  by (auto simp: exception_messages_def)

lemma print_head_shows:
  assumes "int_no regs < 32"
  shows "print Kernel64 (CHR ''\<newline>'' # ''Interrupt! \"%s\" err: 0x%x'' @ [CHR ''\<newline>''])
      [Str (bytes_of (exception_messages ! unat (int_no regs))), Bits (err_no regs)] m =
    Inr (show_text Kernel64 (dump_head regs) m)"
proof -
  have "unat (int_no regs) < length exception_messages"
    using assms by (simp add: exception_messages_def word_less_nat_alt)
  then have "0 \<notin> set (bytes_of (exception_messages ! unat (int_no regs)))"
    by (intro exception_messages_terminated nth_mem)
  then have "takeWhile (\<lambda>x. x \<noteq> 0) (bytes_of (exception_messages ! unat (int_no regs))) =
      bytes_of (exception_messages ! unat (int_no regs))"
    by (auto simp: takeWhile_eq_all_conv)
  then show ?thesis
    by (intro print_renders) (simp_all add: dump_head_def low_hex_def radix_of_def unsigned_arg_def)
qed

lemma isr_handler_eq:
  "isr_handler regs m = Inr (regs,
     if int_no regs < 32
     then show_text Kernel64 (dump_head regs @ dump_line ''RAX'' (rax regs) @ dump_line ''RBX'' (rbx regs) @
       dump_line ''RCX'' (rcx regs) @ dump_line ''RDX'' (rdx regs) @ dump_line ''RIP'' (rip regs)) m
     else m)"
  by (simp add: isr_handler_def print_head_shows [unfolded append.simps] print_register_shows show_text_append)

text \<open>
  C35: An exception is reported on the screen as its name and error code, then RAX, RBX, RCX, RDX and
  RIP line by line, and the interrupted program's registers are returned as they are; any other
  vector is ignored.  Of each 64-bit register the lower 32 bits are shown only, so that all kernel
  addresses lose the half that makes them kernel addresses.
\<close>

theorem isr_handler_reports:
  "isr_handler regs m = Inr (regs,
     if int_no regs < 32
     then show_text Kernel64 (dump_head regs @ dump_line ''RAX'' (rax regs) @ dump_line ''RBX'' (rbx regs) @
       dump_line ''RCX'' (rcx regs) @ dump_line ''RDX'' (rdx regs) @ dump_line ''RIP'' (rip regs)) m
     else m)"
  by (rule isr_handler_eq)

end
