(* ===== verification/Pager.thy ===== *)
theory Pager
  imports Idt
begin

text \<open>
  Paging in the kernel: \<^verbatim>\<open>memory/pager.c\<close>, and the placeholders of \<^verbatim>\<open>memory/manager.c\<close>.
\<close>

section \<open>State\<close>

text \<open>The four tables of 512 entries each, and the register that holds the address of the first.\<close>

record ('w, 'h) pager_machine = "('w, 'h) idt_machine" +
  pml4 :: "nat \<Rightarrow> u64"
  pageDirTab :: "nat \<Rightarrow> u64"
  basePageDir :: "nat \<Rightarrow> u64"
  kernelPageDir :: "nat \<Rightarrow> u64"
  cr3 :: u64

text \<open>The virtual addresses the linker gives to the tables.\<close>

record pager_symbols =
  addr_pml4 :: u64
  addr_pageDirTab :: u64
  addr_basePageDir :: u64
  addr_kernelPageDir :: u64

definition kernelPage :: u64 where "kernelPage = 0xffffffffc0000000"

section \<open>Operations\<close>

definition getAddress :: "u64 \<Rightarrow> u64" where
  "getAddress addr = addr - kernelPage"

text \<open>\<^verbatim>\<open>(i << 21) | 0b10000011\<close>: the shift is one of \<^verbatim>\<open>int\<close>, which the 16-bit \<^verbatim>\<open>i\<close> is promoted to.\<close>

definition large_page :: "u16 \<Rightarrow> u64" where
  "large_page i = scast (push_bit 21 (ucast i :: i32) OR 0x83)"

definition initPaging ::
  "pager_symbols \<Rightarrow> ('w, 'h, 'e) pager_machine_scheme \<Rightarrow> ('w, 'h, 'e) pager_machine_scheme" where
  "initPaging syms m =
     (let m = m \<lparr> pml4 := (pml4 m)(0 := getAddress (addr_pageDirTab syms) OR 1) \<rparr>;
          m = m \<lparr> pml4 := (pml4 m)(511 := getAddress (addr_pageDirTab syms) OR 1) \<rparr>;
          m = m \<lparr> pageDirTab := (pageDirTab m)(0 := getAddress (addr_basePageDir syms) OR 1) \<rparr>;
          m = m \<lparr> pageDirTab := (pageDirTab m)(511 := getAddress (addr_kernelPageDir syms) OR 1) \<rparr>;
          m = m \<lparr> basePageDir := (basePageDir m)(0 := push_bit 21 0 OR 0x83) \<rparr>;
          m = for_up (0 :: u16) 512 (\<lambda>i m. m \<lparr> kernelPageDir := (kernelPageDir m)(unat i := large_page i) \<rparr>) m
      in m \<lparr> cr3 := getAddress (addr_pml4 syms) \<rparr>)"

definition addPage :: "u64 \<Rightarrow> u64 \<Rightarrow> 's \<Rightarrow> 's" where
  "addPage src dst m = m"

definition kmalloc :: "u64 \<Rightarrow> 's \<Rightarrow> 's" where
  "kmalloc sz m = m"

definition kfree :: "u64 \<Rightarrow> 's \<Rightarrow> 's" where
  "kfree ptr m = m"

definition kmeminit :: "'s \<Rightarrow> 's" where
  "kmeminit m = m"

section \<open>Address translation\<close>

text \<open>
  The processor's walk through the tables.  \<open>table_word\<close> is what it finds at a physical address, which
  is known within the four tables only.  An entry is a physical page number and flags: bit 0 for
  present, bit 7 for a page of 2 MiB in the third table.
\<close>

fun table_word :: "(u64 \<times> (nat \<Rightarrow> u64)) list \<Rightarrow> u64 \<Rightarrow> u64 option" where
  "table_word [] a = None"
| "table_word ((base, t) # ts) a =
     (if base \<le> a \<and> a - base < 4096 then Some (t (unat (a - base) div 8)) else table_word ts a)"

definition tables :: "pager_symbols \<Rightarrow> ('w, 'h, 'e) pager_machine_scheme \<Rightarrow> (u64 \<times> (nat \<Rightarrow> u64)) list" where
  "tables syms m =
    [(getAddress (addr_pml4 syms), pml4 m), (getAddress (addr_pageDirTab syms), pageDirTab m),
     (getAddress (addr_basePageDir syms), basePageDir m), (getAddress (addr_kernelPageDir syms), kernelPageDir m)]"

definition page_base :: "u64 \<Rightarrow> u64" where
  "page_base e = e AND 0x000FFFFFFFFFF000"

definition table_index :: "nat \<Rightarrow> u64 \<Rightarrow> nat" where
  "table_index level va = unat va div 2 ^ (12 + 9 * level) mod 512"

text \<open>The present entry for a virtual address in the table at a physical address.\<close>

definition entry_at :: "(u64 \<times> (nat \<Rightarrow> u64)) list \<Rightarrow> u64 \<Rightarrow> nat \<Rightarrow> u64 option" where
  "entry_at ts base i = (case table_word ts (base + of_nat (8 * i)) of
     None \<Rightarrow> None | Some e \<Rightarrow> if bit e 0 then Some e else None)"

definition walk :: "(u64 \<times> (nat \<Rightarrow> u64)) list \<Rightarrow> u64 \<Rightarrow> u64 \<Rightarrow> u64 option" where
  "walk ts root va =
     (case entry_at ts (page_base root) (table_index 3 va) of None \<Rightarrow> None | Some e \<Rightarrow>
      case entry_at ts (page_base e) (table_index 2 va) of None \<Rightarrow> None | Some e \<Rightarrow>
      case entry_at ts (page_base e) (table_index 1 va) of None \<Rightarrow> None | Some e \<Rightarrow>
      if bit e 7 then Some ((e AND 0x000FFFFFFFE00000) + of_nat (unat va mod 2 ^ 21)) else None)"

definition translate :: "pager_symbols \<Rightarrow> ('w, 'h, 'e) pager_machine_scheme \<Rightarrow> u64 \<Rightarrow> u64 option" where
  "translate syms m va = walk (tables syms m) (cr3 m) va"

text \<open>A load of a byte: from the memory the tables lead to, or the fault of an address they do not map.\<close>

definition load8 :: "pager_symbols \<Rightarrow> u64 \<Rightarrow> ('w, 'h, 'e) pager_machine_scheme \<Rightarrow> u8 res" where
  "load8 syms va m = (case translate syms m va of
     None \<Rightarrow> Inl PageFault | Some pa \<Rightarrow> Inr (vmem (console m) (unat pa)))"

text \<open>Where the linker may put the tables: at different pages of the kernel's gigabyte.\<close>

definition table_addrs :: "pager_symbols \<Rightarrow> u64 list" where
  "table_addrs syms = [addr_pml4 syms, addr_pageDirTab syms, addr_basePageDir syms, addr_kernelPageDir syms]"

definition page_aligned :: "u64 \<Rightarrow> bool" where
  "page_aligned a \<longleftrightarrow> kernelPage \<le> a \<and> unat (getAddress a) mod 4096 = 0"

lemma getAddress_nat:
  assumes "kernelPage \<le> a"
  shows "unat (getAddress a) = unat a - 0xffffffffc0000000" and "unat (getAddress a) < 2 ^ 30"
proof -
  show "unat (getAddress a) = unat a - 0xffffffffc0000000"
    using assms by (simp add: getAddress_def unat_sub kernelPage_def)
  then show "unat (getAddress a) < 2 ^ 30" using unsigned_less [of a, where ?'a = nat] by simp
qed

lemma getAddress_inj: "getAddress a = getAddress a' \<longleftrightarrow> a = a'"
  by (simp add: getAddress_def)

lemma page_base_mask: "page_base e = push_bit 12 (take_bit 40 (drop_bit 12 e))"
proof -
  have mask: "(0x000FFFFFFFFFF000 :: u64) = push_bit 12 (mask 40)" by (simp add: mask_eq_exp_minus_1)
  show ?thesis
    unfolding page_base_def mask by (rule bit_word_eqI) (auto simp: bit_simps)
qed

text \<open>An entry that is made of a page-aligned address and flags leads to that address.\<close>

lemma unat_page_base: "unat e < 2 ^ 52 \<Longrightarrow> unat (page_base e) = unat e div 4096 * 4096"
proof -
  assume e: "unat e < 2 ^ 52"
  have "unat e div 4096 < 2 ^ 40" using e by (intro less_mult_imp_div_less) simp
  then have "take_bit 40 (unat e div 4096) = unat e div 4096" by (simp add: take_bit_nat_eq_self)
  moreover have "unat e div 4096 * 4096 \<le> unat e" by simp
  ultimately show ?thesis
    using unsigned_less [of e, where ?'a = nat] unfolding page_base_mask
    by (simp add: unsigned_push_bit_eq unsigned_take_bit_eq unsigned_drop_bit_eq push_bit_nat_def drop_bit_nat_def
        take_bit_nat_eq_self)
qed


lemma page_base_pointer:
  assumes "page_aligned a"
  shows "page_base (getAddress a OR 1) = getAddress a" and "page_base (getAddress a) = getAddress a"
    and "bit (getAddress a OR 1) 0"
proof -
  from assms have small: "unat (getAddress a) < 2 ^ 30" and aligned: "unat (getAddress a) mod 4096 = 0"
    using getAddress_nat(2) [of a] by (simp_all add: page_aligned_def)
  obtain k where k: "unat (getAddress a) = 4096 * k" using aligned by (auto simp: mod_eq_0_iff_dvd elim: dvdE)
  then have "unat (getAddress a) mod 2 = 0" by simp
  then have "getAddress a AND 1 = 0" by (simp add: and_one_eq word_unat_eq_iff unat_mod)
  then have "getAddress a OR 1 = getAddress a + 1" by (rule disjunctive_add_eq_or [symmetric])
  then have or_1: "unat (getAddress a OR 1) = unat (getAddress a) + 1"
    using small by (simp add: unat_word_ariths)
  have "(unat (getAddress a) + 1) div 4096 * 4096 = unat (getAddress a)" unfolding k by simp
  then show "page_base (getAddress a OR 1) = getAddress a"
    using small or_1 by (simp add: word_unat_eq_iff unat_page_base)
  have "unat (getAddress a) div 4096 * 4096 = unat (getAddress a)" unfolding k by simp
  then show "page_base (getAddress a) = getAddress a"
    using small by (simp add: word_unat_eq_iff unat_page_base)
  show "bit (getAddress a OR 1) 0" by (simp add: bit_simps)
qed

lemma table_word_at:
  assumes "(base, t) \<in> set ts" and "distinct (map fst ts)" and "i < 512"
    and "\<And>b t. (b, t) \<in> set ts \<Longrightarrow> unat b mod 4096 = 0 \<and> unat b < 2 ^ 30"
  shows "table_word ts (base + of_nat (8 * i)) = Some (t i)"
  using assms(1,2,4)
proof (induction ts)
  case (Cons bt ts)
  obtain b t' where bt: "bt = (b, t')" by (cases bt)
  have b: "unat b mod 4096 = 0" "unat b < 2 ^ 30" and base: "unat base mod 4096 = 0" "unat base < 2 ^ 30"
    using Cons.prems(1) Cons.prems(3) [of b t'] Cons.prems(3) [of base t] bt by auto
  have i8: "unat (of_nat (8 * i) :: u64) = 8 * i" using assms(3) by (intro unat_of_nat_small) simp
  have a: "unat (base + of_nat (8 * i)) = unat base + 8 * i"
    unfolding unat_word_ariths i8 using base(2) assms(3) by (intro mod_less) simp
  show ?case
  proof (cases "b = base")
    case True
    have "base + of_nat (8 * i) - base = of_nat (8 * i)" by simp
    moreover have "base \<le> base + of_nat (8 * i)" by (simp only: word_le_nat_alt a)
    moreover have "(of_nat (8 * i) :: u64) < 4096" unfolding word_less_nat_alt i8 using assms(3) by simp
    moreover have "t' = t"
    proof -
      have "(base, t) \<notin> set ts" using Cons.prems(2) bt True by (auto simp: image_iff)
      then show ?thesis using Cons.prems(1) bt by simp
    qed
    ultimately show ?thesis unfolding bt True by (simp only: table_word.simps i8 simp_thms if_True) simp
  next
    case False
    have "\<not> (b \<le> base + of_nat (8 * i) \<and> base + of_nat (8 * i) - b < 4096)"
    proof (rule notI, elim conjE)
      assume le: "b \<le> base + of_nat (8 * i)" and "base + of_nat (8 * i) - b < 4096"
      then have "unat base + 8 * i - unat b < 4096"
        unfolding word_less_nat_alt unat_sub [OF le] a by simp
      moreover have "unat b \<le> unat base + 8 * i" using le a by (simp only: word_le_nat_alt)
      ultimately have "unat b = unat base"
      proof -
        obtain k k' where "unat b = 4096 * k" "unat base = 4096 * k'"
          using b(1) base(1) by (auto simp: mod_eq_0_iff_dvd elim!: dvdE)
        moreover from this have "k = k'"
          using \<open>unat base + 8 * i - unat b < 4096\<close> \<open>unat b \<le> unat base + 8 * i\<close> assms(3) by linarith
        ultimately show ?thesis by simp
      qed
      then show False using False by (simp only: word_unat_eq_iff)
    qed
    moreover have "table_word ts (base + of_nat (8 * i)) = Some (t i)"
      using Cons False bt by auto
    ultimately show ?thesis unfolding bt by (simp only: table_word.simps if_False)
  qed
qed simp


text \<open>The tables after \<^verbatim>\<open>initPaging\<close>.\<close>

lemma unat_large_page:
  fixes w :: u16
  assumes "w < 512"
  shows "unat (large_page w) = unat w * 2 ^ 21 + 0x83"
proof -
  have w: "unat w < 512" using assms by (simp add: word_less_nat_alt)
  let ?a = "push_bit 21 (ucast w) :: i32"
  have "(0x83 :: i32) = take_bit 8 0x83" by simp
  then have lt: "bit (0x83 :: i32) n \<Longrightarrow> n < 8" for n by (metis bit_take_bit_iff)
  have "?a AND 0x83 = 0"
  proof (rule bit_word_eqI)
    show "bit (?a AND 0x83) n = bit 0 n" for n using lt [of n] by (auto simp: bit_simps)
  qed
  then have sum: "?a OR 0x83 = ?a + 0x83" by (rule disjunctive_add_eq_or [symmetric])
  have "unat ?a = unat w * 2 ^ 21"
    using w by (simp add: unsigned_push_bit_eq push_bit_nat_def take_bit_nat_eq_self unsigned_ucast_eq)
  then have x: "unat (?a OR 0x83) = unat w * 2 ^ 21 + 0x83"
    unfolding sum using w by (simp add: unat_word_ariths)
  then have "sint (?a OR 0x83) = int (unat (?a OR 0x83))"
    using w by (subst sint_eq_unat) simp
  then show ?thesis
    unfolding large_page_def scast_eq x using w by (simp del: of_nat_add of_nat_mult)
qed

lemma of_nat_if_unat: "unat w = n \<Longrightarrow> w = of_nat n"
  by auto

lemma large_page_entry:
  assumes "i < 512"
  shows "bit (large_page (of_nat i)) 0" and "bit (large_page (of_nat i)) 7"
    and "large_page (of_nat i) AND 0x000FFFFFFFE00000 = of_nat (i * 2 ^ 21)"
proof -
  let ?w = "of_nat i :: u16"
  have small: "unat ?w = i" using assms by simp
  then have "?w < 512" using assms by (simp only: word_less_nat_alt) simp
  then have e: "unat (large_page ?w) = i * 2 ^ 21 + 0x83" using unat_large_page small by simp
  have "i * 2 ^ 21 + 0x83 = 128 * (i * 2 ^ 14 + 1) + 3" by simp
  then have "(i * 2 ^ 21 + 0x83) div 2 ^ 7 = i * 2 ^ 14 + 1" by (simp only:) simp
  then have "bit (unat (large_page ?w)) 0" "bit (unat (large_page ?w)) 7"
    unfolding e by (simp_all add: bit_iff_odd del: power_numeral)
  then show "bit (large_page ?w) 0" "bit (large_page ?w) 7" by (simp_all add: bit_unsigned_iff)
  have mask: "(0x000FFFFFFFE00000 :: u64) = push_bit 21 (mask 31)" by (simp add: mask_eq_exp_minus_1)
  have "large_page ?w AND 0x000FFFFFFFE00000 = push_bit 21 (take_bit 31 (drop_bit 21 (large_page ?w)))"
    unfolding mask by (rule bit_word_eqI) (auto simp: bit_simps)
  moreover have "unat (push_bit 21 (take_bit 31 (drop_bit 21 (large_page ?w)))) = i * 2 ^ 21"
    using assms e by (simp add: unsigned_push_bit_eq unsigned_take_bit_eq unsigned_drop_bit_eq push_bit_nat_def
        drop_bit_nat_def take_bit_nat_eq_self)
  ultimately show "large_page ?w AND 0x000FFFFFFFE00000 = of_nat (i * 2 ^ 21)"
    by (simp only: of_nat_if_unat)
qed

text \<open>The directory as a store of its entries.\<close>

interpretation page_dir: cell_store kernelPageDir
  "\<lambda>i e m. m \<lparr> kernelPageDir := (kernelPageDir m)(i := e) \<rparr>" "\<lambda>i. True"
  by unfold_locales simp

lemma fold_kernelPageDir:
  "\<exists>t. fold (\<lambda>i m. m \<lparr> kernelPageDir := (kernelPageDir m)(i := f i) \<rparr>) is m = m \<lparr> kernelPageDir := t \<rparr>"
proof (induction "is" arbitrary: m)
  case Nil
  then show ?case by (intro exI [of _ "kernelPageDir m"]) simp
next
  case (Cons i "is")
  then show ?case using Cons [of "m \<lparr> kernelPageDir := (kernelPageDir m)(i := f i) \<rparr>"] by (auto simp del: fun_upd_apply)
qed

lemma kernelPageDir_loop:
  "\<exists>t. for_up (0 :: u16) 512 (\<lambda>i m. m \<lparr> kernelPageDir := (kernelPageDir m)(unat i := large_page i) \<rparr>) m =
      m \<lparr> kernelPageDir := t \<rparr> \<and> (\<forall>i < 512. t i = large_page (of_nat i))"
proof -
  let ?is = "[unat (0 :: u16)..<unat (512 :: u16)]"
  let ?body = "\<lambda>i m. m \<lparr> kernelPageDir := (kernelPageDir m)(i := large_page (of_nat i)) \<rparr>"
  have set: "set ?is = {0..<512}" by (simp del: upt_rec_numeral)
  have "for_up (0 :: u16) 512 (\<lambda>i m. m \<lparr> kernelPageDir := (kernelPageDir m)(unat i := large_page i) \<rparr>) m =
      fold ?body ?is m"
    unfolding for_up_fold by (rule fold_cong) (auto simp del: upt_rec_numeral)
  moreover obtain t where t: "fold ?body ?is m = m \<lparr> kernelPageDir := t \<rparr>" 
    using fold_kernelPageDir [of "\<lambda>i. large_page (of_nat i)" ?is m] by (elim exE)
  moreover have "kernelPageDir (fold ?body ?is m) i = large_page (of_nat i)" if "i < 512" for i
    using that set page_dir.fetch_fold_store [of ?is "\<lambda>i. large_page (of_nat i)" m i] by auto
  ultimately show ?thesis by auto
qed


lemma initPaging_frame:
  "\<exists>t. initPaging syms m = m \<lparr>
    pml4 := (pml4 m)(0 := getAddress (addr_pageDirTab syms) OR 1, 511 := getAddress (addr_pageDirTab syms) OR 1),
    pageDirTab := (pageDirTab m)(0 := getAddress (addr_basePageDir syms) OR 1, 511 := getAddress (addr_kernelPageDir syms) OR 1),
    basePageDir := (basePageDir m)(0 := 0x83), kernelPageDir := t, cr3 := getAddress (addr_pml4 syms) \<rparr> \<and>
    (\<forall>i < 512. t i = large_page (of_nat i))"
proof -
  let ?m = "m \<lparr> pml4 := (pml4 m)(0 := getAddress (addr_pageDirTab syms) OR 1, 511 := getAddress (addr_pageDirTab syms) OR 1),
    pageDirTab := (pageDirTab m)(0 := getAddress (addr_basePageDir syms) OR 1, 511 := getAddress (addr_kernelPageDir syms) OR 1),
    basePageDir := (basePageDir m)(0 := 0x83) \<rparr>"
  obtain t where t: "for_up (0 :: u16) 512 (\<lambda>i m. m \<lparr> kernelPageDir := (kernelPageDir m)(unat i := large_page i) \<rparr>) ?m =
      ?m \<lparr> kernelPageDir := t \<rparr>" and large: "\<forall>i < 512. t i = large_page (of_nat i)"
    using kernelPageDir_loop [of ?m] by (elim exE conjE)
  have "initPaging syms m = ?m \<lparr> kernelPageDir := t, cr3 := getAddress (addr_pml4 syms) \<rparr>"
    unfolding initPaging_def Let_def using t by (simp del: fun_upd_apply)
  then show ?thesis using large by (intro exI [of _ t]) simp
qed

lemma initPaging_tables:
  assumes "m' = initPaging syms m"
  shows "cr3 m' = getAddress (addr_pml4 syms)"
    and "pml4 m' 0 = getAddress (addr_pageDirTab syms) OR 1" "pml4 m' 511 = getAddress (addr_pageDirTab syms) OR 1"
    and "pageDirTab m' 0 = getAddress (addr_basePageDir syms) OR 1"
      "pageDirTab m' 511 = getAddress (addr_kernelPageDir syms) OR 1"
    and "basePageDir m' 0 = 0x83"
    and "i < 512 \<Longrightarrow> kernelPageDir m' i = large_page (of_nat i)"
  using initPaging_frame [of syms m] unfolding assms by (elim exE conjE; simp)+

text \<open>Tables at different pages below the first gigabyte.\<close>

definition tables_apart :: "(u64 \<times> (nat \<Rightarrow> u64)) list \<Rightarrow> bool" where
  "tables_apart ts \<longleftrightarrow> distinct (map fst ts) \<and> list_all (\<lambda>(b, t). unat b mod 4096 = 0 \<and> unat b < 2 ^ 30) ts"

lemma entry_at_apart:
  assumes "tables_apart ts" and "(b, t) \<in> set ts" and "i < 512"
  shows "entry_at ts b i = (if bit (t i) 0 then Some (t i) else None)"
proof -
  have "table_word ts (b + of_nat (8 * i)) = Some (t i)"
    using assms by (intro table_word_at) (auto simp: tables_apart_def list_all_iff)
  then show ?thesis by (simp add: entry_at_def)
qed

lemma pager_tables_apart:
  assumes "distinct (table_addrs syms)" and "list_all page_aligned (table_addrs syms)"
  shows "tables_apart (tables syms m)"
  using assms getAddress_nat(2)
  by (simp add: tables_apart_def tables_def table_addrs_def getAddress_inj page_aligned_def)

lemma entry_at_table:
  assumes "distinct (table_addrs syms)" and "list_all page_aligned (table_addrs syms)" and "i < 512"
    and "(a, t) \<in> {(addr_pml4 syms, pml4 m), (addr_pageDirTab syms, pageDirTab m),
      (addr_basePageDir syms, basePageDir m), (addr_kernelPageDir syms, kernelPageDir m)}"
  shows "entry_at (tables syms m) (getAddress a) i = (if bit (t i) 0 then Some (t i) else None)"
  using assms(3,4) by (intro entry_at_apart [OF pager_tables_apart [OF assms(1,2)]]) (auto simp: tables_def)

lemmas entry_at_tables =
  entry_at_table [OF _ _ _ insertI1]
  entry_at_table [OF _ _ _ insertI2 [OF insertI1]]
  entry_at_table [OF _ _ _ insertI2 [OF insertI2 [OF insertI1]]]
  entry_at_table [OF _ _ _ insertI2 [OF insertI2 [OF insertI2 [OF insertI1]]]]

text \<open>The indices of a kernel address and of one in the first 2 MiB.\<close>

lemma kernel_index:
  assumes "kernelPage \<le> va"
  shows "table_index 3 va = 511" and "table_index 2 va = 511"
    and "table_index 1 va * 2 ^ 21 + unat va mod 2 ^ 21 = unat (getAddress va)"
proof -
  define x where "x = unat (getAddress va)"
  have va: "unat va = 0xffffffffc0000000 + x" and x: "x < 2 ^ 30"
    using getAddress_nat [OF assms] assms by (simp_all add: x_def word_le_nat_alt kernelPage_def)
  have "unat va div 2 ^ 39 = 0x1FFFFFF" "unat va div 2 ^ 30 = 0x3FFFFFFFF"
    using x unfolding va by (intro div_nat_eqI; simp)+
  then show "table_index 3 va = 511" "table_index 2 va = 511" by (simp_all add: table_index_def)
  have va': "unat va = 0x7fffffffe00 * 2 ^ 21 + x" unfolding va by simp
  have "unat va div 2 ^ 21 = 0x7fffffffe00 + x div 2 ^ 21" "unat va mod 2 ^ 21 = x mod 2 ^ 21"
    unfolding va' by (simp_all only: div_mult_self3 mod_mult_self3) simp_all
  moreover have "x div 2 ^ 21 < 512" using x by (intro less_mult_imp_div_less) simp
  ultimately show "table_index 1 va * 2 ^ 21 + unat va mod 2 ^ 21 = unat (getAddress va)"
    unfolding x_def [symmetric] by (simp add: table_index_def mod_add_eq [symmetric] mod_mod_trivial)
qed

lemma base_index:
  assumes "unat va < 2 ^ 21"
  shows "table_index 3 va = 0" and "table_index 2 va = 0" and "table_index 1 va = 0"
  using assms by (simp_all add: table_index_def)

text \<open>So do the two ranges the tables are made for.\<close>

lemma initPaging_translation:
  assumes "distinct (table_addrs syms)" and "list_all page_aligned (table_addrs syms)"
  shows "(kernelPage \<le> va \<longrightarrow> translate syms (initPaging syms m) va = Some (va - kernelPage)) \<and>
    (va < 0x200000 \<longrightarrow> translate syms (initPaging syms m) va = Some va)"
proof -
  let ?m' = "initPaging syms m"
  note tabs = initPaging_tables [of ?m' syms m, OF refl]
  note entry = entry_at_tables [OF assms]
  have aligned: "page_aligned (addr_pml4 syms)" "page_aligned (addr_pageDirTab syms)"
    "page_aligned (addr_basePageDir syms)" "page_aligned (addr_kernelPageDir syms)"
    using assms(2) by (simp_all add: table_addrs_def)
  note ptr = aligned [THEN page_base_pointer(1)] aligned [THEN page_base_pointer(2)]
    aligned [THEN page_base_pointer(3)]
  have "translate syms ?m' va = Some (va - kernelPage)" if "kernelPage \<le> va"
  proof -
    note i = kernel_index [OF that]
    have lt: "table_index 1 va < 512" by (simp add: table_index_def)
    have "(of_nat (table_index 1 va * 2 ^ 21) + of_nat (unat va mod 2 ^ 21) :: u64) = getAddress va"
      unfolding of_nat_add [symmetric] i(3) by simp
    moreover have "va - kernelPage = getAddress va" by (simp add: getAddress_def)
    ultimately show ?thesis
      using lt by (simp add: translate_def walk_def i tabs entry ptr large_page_entry del: of_nat_mult)
  qed
  moreover have "translate syms ?m' va = Some va" if "va < 0x200000"
  proof -
    have "unat va < 2 ^ 21" using that by (simp add: word_less_nat_alt)
    note i = base_index [OF this]
    have "bit (0x83 :: u64) 0" "bit (0x83 :: u64) 7" by (simp_all add: bit_numeral_rec)
    then show ?thesis
      using \<open>unat va < 2 ^ 21\<close> by (simp add: translate_def walk_def i tabs entry ptr del: One_nat_def)
  qed
  ultimately show ?thesis by blast
qed


text \<open>The rest of the first gigabyte is not mapped, as far as the other entries of \<^verbatim>\<open>basePageDir\<close> are not.\<close>

lemma low_index:
  assumes "unat va < 2 ^ 30"
  shows "table_index 3 va = 0" and "table_index 2 va = 0"
    and "table_index 1 va * 2 ^ 21 + unat va mod 2 ^ 21 = unat va"
proof -
  show "table_index 3 va = 0" "table_index 2 va = 0" using assms by (simp_all add: table_index_def)
  have "unat va div 2 ^ 21 < 512" using assms by (intro less_mult_imp_div_less) simp
  then show "table_index 1 va * 2 ^ 21 + unat va mod 2 ^ 21 = unat va"
    by (simp add: table_index_def)
qed

lemma initPaging_unmapped:
  assumes "distinct (table_addrs syms)" and "list_all page_aligned (table_addrs syms)"
    and "\<forall>i. 1 \<le> i \<and> i < 512 \<longrightarrow> \<not> bit (basePageDir m i) 0"
    and "0x200000 \<le> va" and "va < 0x40000000"
  shows "translate syms (initPaging syms m) va = None"
proof -
  have va: "2 ^ 21 \<le> unat va" "unat va < 2 ^ 30"
    using assms(4,5) by (simp_all add: word_le_nat_alt word_less_nat_alt)
  note i = low_index(1,2) [OF va(2)]
  have "1 \<le> unat va div 2 ^ 21" using div_le_mono [OF va(1), of "2 ^ 21"] by simp
  moreover have "unat va div 2 ^ 21 < 512" using va(2) by (intro less_mult_imp_div_less) simp
  ultimately have index: "1 \<le> table_index 1 va" "table_index 1 va < 512" by (simp_all add: table_index_def)
  then have "basePageDir (initPaging syms m) (table_index 1 va) = basePageDir m (table_index 1 va)"
    using initPaging_frame [of syms m] by auto
  then have free: "\<not> bit (basePageDir (initPaging syms m) (table_index 1 va)) 0"
    using assms(3) index by simp
  have aligned: "page_aligned (addr_pml4 syms)" "page_aligned (addr_pageDirTab syms)" "page_aligned (addr_basePageDir syms)"
    using assms(2) by (simp_all add: table_addrs_def)
  note ptr = aligned [THEN page_base_pointer(1)] aligned [THEN page_base_pointer(2)] aligned [THEN page_base_pointer(3)]
  note tabs = initPaging_tables [of "initPaging syms m" syms m, OF refl]
  note entry = entry_at_tables [OF assms(1,2)]
  show ?thesis
    using free index
    by (simp add: translate_def walk_def i tabs entry ptr del: One_nat_def)
qed

text \<open>
  C19: With the four tables at different page-aligned addresses of the kernel's gigabyte, the processor
  translates every address of that gigabyte, the last of the address space, to its offset in it, and
  every address of the first 2 MiB to itself, once \<^verbatim>\<open>initPaging\<close> has run; no matter what the other
  entries of the tables hold.
\<close>

theorem initPaging_translates:
  assumes "distinct (table_addrs syms)" and "list_all page_aligned (table_addrs syms)"
  shows "(kernelPage \<le> va \<longrightarrow> translate syms (initPaging syms m) va = Some (va - kernelPage)) \<and>
    (va < 0x200000 \<longrightarrow> translate syms (initPaging syms m) va = Some va)"
  using initPaging_translation [OF assms] by blast

definition kernel_tables :: pager_symbols where
  "kernel_tables = \<lparr> addr_pml4 = 0xffffffffc0110000, addr_pageDirTab = 0xffffffffc0111000,
     addr_basePageDir = 0xffffffffc0112000, addr_kernelPageDir = 0xffffffffc0113000 \<rparr>"

definition blank_pager_machine :: "'w \<Rightarrow> ('w, 'h) pager_machine" where
  "blank_pager_machine w = idt_machine.extend (blank_idt_machine w)
     \<lparr> pml4 = (\<lambda>i. 0), pageDirTab = (\<lambda>i. 0), basePageDir = (\<lambda>i. 0), kernelPageDir = (\<lambda>i. 0), cr3 = 0 \<rparr>"

theorem initPaging_translates_witness:
  "translate kernel_tables (initPaging kernel_tables (blank_pager_machine () :: (unit, unit) pager_machine))
     0xffffffffc0101234 = Some 0x101234 \<and>
   translate kernel_tables (initPaging kernel_tables (blank_pager_machine () :: (unit, unit) pager_machine))
     0xb8000 = Some 0xb8000"
  using initPaging_translates [of kernel_tables "0xffffffffc0101234" "blank_pager_machine () :: (unit, unit) pager_machine"]
    initPaging_translates [of kernel_tables "0xb8000" "blank_pager_machine () :: (unit, unit) pager_machine"]
  by (simp add: kernel_tables_def table_addrs_def page_aligned_def getAddress_def kernelPage_def)

text \<open>
  The alignment of 32 bytes the source asks for \<^verbatim>\<open>pml4\<close> and \<^verbatim>\<open>pageDirTab\<close> is not enough: the
  processor takes its first table to be \<^verbatim>\<open>pml4\<close>, and the one it finds for a kernel address in
  \<^verbatim>\<open>pml4\<close> to be \<^verbatim>\<open>pageDirTab\<close>, exactly if these lie at multiples of 4096.
\<close>

theorem initPaging_needs_pages:
  assumes "kernelPage \<le> addr_pml4 syms" and "kernelPage \<le> addr_pageDirTab syms"
  shows "(page_base (cr3 (initPaging syms m)) = getAddress (addr_pml4 syms) \<longleftrightarrow> 4096 dvd unat (addr_pml4 syms)) \<and>
    (page_base (pml4 (initPaging syms m) 511) = getAddress (addr_pageDirTab syms) \<longleftrightarrow>
      4096 dvd unat (addr_pageDirTab syms))"
proof -
  have aligned: "page_aligned a \<longleftrightarrow> 4096 dvd unat a" if "kernelPage \<le> a" for a
  proof -
    have "unat a = 0xffffffffc0000000 + unat (getAddress a)"
      using getAddress_nat(1) [OF that] that by (simp add: word_le_nat_alt kernelPage_def)
    moreover have "(4096 :: nat) dvd 0xffffffffc0000000" by simp
    ultimately have "4096 dvd unat a \<longleftrightarrow> 4096 dvd unat (getAddress a)" by (simp only: dvd_add_right_iff)
    then show ?thesis using that by (simp add: page_aligned_def dvd_eq_mod_eq_0)
  qed
  have "page_base (getAddress a OR 1) = page_base (getAddress a)" for a
    by (simp add: page_base_def bit.conj_disj_distrib2)
  moreover have "page_base (getAddress a) = getAddress a \<longleftrightarrow> page_aligned a" if "kernelPage \<le> a" for a
  proof
    show "page_aligned a" if base: "page_base (getAddress a) = getAddress a"
    proof -
      have "unat (getAddress a) < 2 ^ 52" using getAddress_nat(2) [OF \<open>kernelPage \<le> a\<close>] by simp
      from unat_page_base [OF this, unfolded base] show ?thesis
        using \<open>kernelPage \<le> a\<close> by (metis page_aligned_def mod_mult_self2_is_0)
    qed
  qed (rule page_base_pointer(2))
  ultimately show ?thesis
    using assms aligned initPaging_tables [of "initPaging syms m" syms m, OF refl] by simp
qed

theorem initPaging_needs_pages_witness:
  "page_base (cr3 (initPaging (kernel_tables \<lparr> addr_pml4 := 0xffffffffc0110020 \<rparr>)
      (blank_pager_machine () :: (unit, unit) pager_machine))) \<noteq> 0x110020"
  using initPaging_needs_pages [of "kernel_tables \<lparr> addr_pml4 := 0xffffffffc0110020 \<rparr>"
      "blank_pager_machine () :: (unit, unit) pager_machine"]
  by (simp add: kernel_tables_def getAddress_def kernelPage_def)

end
