(* ===== verification/Keyboard.thy ===== *)
theory Keyboard
  imports Pager
begin

text \<open>
  The keyboard driver, \<^verbatim>\<open>drivers/keyboard/keyboard.c\<close>: the two tables, the interrupt routine that turns
  scan codes into characters, and the layout they are meant to implement.
\<close>

section \<open>Data\<close>

text \<open>The functions the kernel installs as interrupt routines.\<close>

datatype routine = KeyboardHandler | OnIrq0

record 'w keyboard_machine = "('w, routine) pager_machine" +
  capsOn :: bool

definition KEYBOARD_IN :: u16 where "KEYBOARD_IN = 0x60"

record Scancode =
  scanCode :: u8
  ascii :: u8

definition scancodes :: "(u8 \<times> u8) list \<Rightarrow> Scancode list" where
  "scancodes = map (\<lambda>(s, a). \<lparr> scanCode = s, ascii = a \<rparr>)"

definition scancodeMap :: "Scancode list" where
  "scancodeMap = scancodes
    [(0x01, 0), (0x02, ch CHR ''1''), (0x03, ch CHR ''2''), (0x04, ch CHR ''3''), (0x05, ch CHR ''4''), (0x06, ch CHR ''5''),
     (0x07, ch CHR ''6''), (0x08, ch CHR ''7''), (0x09, ch CHR ''8''), (0x0A, ch CHR ''9''), (0x0B, ch CHR ''0''), (0x0C, ch CHR ''-''),
     (0x0D, ch CHR ''=''), (0x0E, 0x08), (0x0F, 0x09), (0x10, ch CHR ''q''), (0x11, ch CHR ''w''), (0x12, ch CHR ''e''),
     (0x13, ch CHR ''r''), (0x14, ch CHR ''t''), (0x15, ch CHR ''y''), (0x16, ch CHR ''u''), (0x17, ch CHR ''i''), (0x18, ch CHR ''o''),
     (0x19, ch CHR ''p''), (0x1A, ch CHR ''[''), (0x1B, ch CHR '']''), (0x1C, 0x0A), (0x1D, 0), (0x1E, ch CHR ''a''),
     (0x1F, ch CHR ''s''), (0x20, ch CHR ''d''), (0x21, ch CHR ''f''), (0x22, ch CHR ''g''), (0x23, ch CHR ''h''), (0x24, ch CHR ''j''),
     (0x25, ch CHR ''k''), (0x26, ch CHR ''l''), (0x27, ch CHR '';''), (0x28, 0x27), (0x29, ch CHR ''`''), (0x2A, 0),
     (0x2B, 0x5C), (0x2C, ch CHR ''z''), (0x2D, ch CHR ''x''), (0x2E, ch CHR ''c''), (0x2F, ch CHR ''v''), (0x30, ch CHR ''b''),
     (0x31, ch CHR ''n''), (0x32, ch CHR ''m''), (0x33, ch CHR '',''), (0x34, ch CHR ''.''), (0x35, ch CHR ''/''), (0x36, 0),
     (0x37, ch CHR ''*''), (0x38, 0), (0x39, ch CHR '' ''), (0x3A, 0), (0x3B, 0), (0x3C, 0),
     (0x3D, 0), (0x3E, 0), (0x3F, 0), (0x40, 0), (0x41, 0), (0x42, 0),
     (0x43, 0), (0x44, 0), (0x45, 0), (0x46, 0), (0x47, 0), (0x48, 0),
     (0x49, 0), (0x4A, ch CHR ''-''), (0x4B, 0), (0x4C, 0), (0x4D, 0), (0x4E, ch CHR ''+''),
     (0x4F, 0), (0x50, 0), (0x51, 0), (0x52, 0), (0x53, ch CHR ''.''), (0x54, 0),
     (0x55, 0), (0x56, 0), (0x57, 0), (0x58, 0)]"

definition numShiftMap :: "Scancode list" where
  "numShiftMap = scancodes
    [(0x60, ch CHR ''~''), (ch CHR ''1'', ch CHR ''!''), (ch CHR ''2'', ch CHR ''@''), (ch CHR ''3'', ch CHR ''#''),
     (ch CHR ''4'', ch CHR ''$''), (ch CHR ''5'', ch CHR ''%''), (ch CHR ''6'', ch CHR ''^''), (ch CHR ''7'', ch CHR ''&''),
     (ch CHR ''8'', ch CHR ''*''), (ch CHR ''9'', ch CHR ''(''), (ch CHR ''0'', ch CHR '')''), (ch CHR ''-'', ch CHR ''_''),
     (ch CHR ''='', ch CHR ''+'')]"

section \<open>Operations\<close>

definition initKeyboard :: "('w, 'e) keyboard_machine_scheme \<Rightarrow> ('w, 'e) keyboard_machine_scheme res" where
  "initKeyboard m = irq_install_handler 1 (Some KeyboardHandler) (m \<lparr> capsOn := False \<rparr>)"

text \<open>
  The comparison promotes an unsigned and a signed \<^verbatim>\<open>char\<close> to \<^verbatim>\<open>int\<close>.
\<close>

fun getAscii_loop :: "Scancode list \<Rightarrow> u8 \<Rightarrow> u8" where
  "getAscii_loop [] code = 0"
| "getAscii_loop (e # es) code =
     (if (ucast (scanCode e) :: i32) = scast code then ascii e else getAscii_loop es code)"

definition getAscii :: "u8 \<Rightarrow> u8" where
  "getAscii code = getAscii_loop scancodeMap code"

text \<open>The loop over \<^verbatim>\<open>numShiftMap\<close>, which goes on after a match.\<close>

definition put_shifted :: "u8 \<Rightarrow> ('w, 'e) machine_scheme \<Rightarrow> ('w, 'e) machine_scheme" where
  "put_shifted c m = fold (\<lambda>e m.
     if (ucast (scanCode e) :: i32) = scast c then put_char Kernel64 (ascii e) m else m) numShiftMap m"

definition keyboardHandler ::
  "(u16 \<Rightarrow> 'w \<Rightarrow> u8 \<times> 'w) \<Rightarrow> InterruptRegisters
    \<Rightarrow> ('w, 'e) keyboard_machine_scheme \<Rightarrow> ('w, 'e) keyboard_machine_scheme" where
  "keyboardHandler devices regs m =
     (let (v, m) = inb devices KEYBOARD_IN m;
          code = v AND 0x7F;
          (v, m) = inb devices KEYBOARD_IN m;
          pressed = (v AND 0x80 = 0)
      in if code = 0x2A \<or> code = 0x36 then m \<lparr> capsOn := pressed \<rparr>
         else if 0x02 \<le> code \<and> code \<le> 0x0D \<or> code = 0x29 then
           if pressed then
             (let c = getAscii code in if capsOn m then put_shifted c m else put_char Kernel64 c m)
           else m
         else if 0x10 \<le> code \<and> code \<le> 0x28 \<or> 0x2B \<le> code \<and> code \<le> 0x35 \<or> code = 0x39 then
           if pressed then
             (let c = getAscii code in
              if capsOn m then put_char Kernel64 (c - 32) m else put_char Kernel64 c m)
           else m
         else if code = 0x0E then
           if pressed then put_char Kernel64 0x08 m else m
         else m)"

section \<open>What a key types\<close>

text \<open>The characters the handler puts for a key that is pressed.\<close>

definition typed :: "bool \<Rightarrow> u8 \<Rightarrow> u8 list" where
  "typed shift code =
     (if 0x02 \<le> code \<and> code \<le> 0x0D \<or> code = 0x29 then
        if shift then map ascii (filter (\<lambda>e. (ucast (scanCode e) :: i32) = scast (getAscii code)) numShiftMap)
        else [getAscii code]
      else if 0x10 \<le> code \<and> code \<le> 0x28 \<or> 0x2B \<le> code \<and> code \<le> 0x35 \<or> code = 0x39 then
        [if shift then getAscii code - 32 else getAscii code]
      else if code = 0x0E then [0x08] else [])"

lemma put_shifted_eq:
  "put_shifted c m = show_text Kernel64 (map ascii (filter (\<lambda>e. (ucast (scanCode e) :: i32) = scast c) numShiftMap)) m"
proof -
  have "fold (\<lambda>e m. if (ucast (scanCode e) :: i32) = scast c then put_char Kernel64 (ascii e) m else m) es m =
    show_text Kernel64 (map ascii (filter (\<lambda>e. (ucast (scanCode e) :: i32) = scast c) es)) m" for es
    by (induction es arbitrary: m) (simp_all add: show_text_def put_char_def)
  then show ?thesis unfolding put_shifted_def .
qed

text \<open>Is a scan code one of a shift key?\<close>

definition shift_key :: "u8 \<Rightarrow> bool" where
  "shift_key code \<longleftrightarrow> code = 0x2A \<or> code = 0x36"

text \<open>
  The handler reads the port twice: it acts on the key of the first byte and the direction, up or
  down, of the second.
\<close>

lemma keyboardHandler_eq:
  assumes "devices KEYBOARD_IN (world m) = (v, w)" and "devices KEYBOARD_IN w = (v', w')"
  shows "keyboardHandler devices regs m =
    (let code = v AND 0x7F; pressed = (v' AND 0x80 = 0); m = m \<lparr> world := w' \<rparr> in
     if shift_key code then m \<lparr> capsOn := pressed \<rparr>
     else if pressed then show_text Kernel64 (typed (capsOn m) code) m else m)"
  using assms
  by (simp add: keyboardHandler_def inb_def shift_key_def typed_def put_shifted_eq Let_def)
    (auto simp: show_text_def put_char_def)


section \<open>The layout\<close>

text \<open>
  The characters of a US keyboard, without and with shift, by runs of consecutive scan codes: the
  row of digits, the three rows of letters, the key left of the digits, space and backspace.
\<close>

definition us_rows :: "(nat \<times> string \<times> string) list" where
  "us_rows =
    [(0x02, ''1234567890-='', ''!@#$%^&*()_+''),
     (0x10, ''qwertyuiop[]'' @ [CHR ''\<newline>''], ''QWERTYUIOP{}'' @ [CHR ''\<newline>'']),
     (0x1E, ''asdfghjkl;'' @ [CHR 0x27, CHR 0x60], ''ASDFGHJKL:'' @ [CHR 0x22, CHR 0x7E]),
     (0x2B, [CHR 0x5C] @ ''zxcvbnm,./'', ''|ZXCVBNM<>?''),
     (0x39, '' '', '' ''), (0x0E, [CHR 0x08], [CHR 0x08])]"

fun us_find :: "(nat \<times> string \<times> string) list \<Rightarrow> bool \<Rightarrow> nat \<Rightarrow> u8 list" where
  "us_find [] shift code = []"
| "us_find ((start, plain, shifted) # rs) shift code =
     (if start \<le> code \<and> code < start + length plain
      then [of_nat (of_char ((if shift then shifted else plain) ! (code - start)))]
      else us_find rs shift code)"

definition us_typed :: "bool \<Rightarrow> u8 \<Rightarrow> u8 list" where
  "us_typed shift code = us_find us_rows shift (unat code)"

text \<open>The keys the handler gets wrong: the left control key, and with shift the keys that are no letters or digits.\<close>

definition mistyped :: "bool \<Rightarrow> u8 list" where
  "mistyped shift =
     (if shift then [0x1A, 0x1B, 0x1C, 0x1D, 0x27, 0x28, 0x2B, 0x33, 0x34, 0x35, 0x39] else [0x1D])"

text \<open>The map holds the scan codes 1 to 88 in order, so that the search is an index into its characters.\<close>

definition ascii_row :: "u8 list" where
  "ascii_row = map ascii scancodeMap"

lemma getAscii_loop_consecutive:
  assumes "map scanCode es = map of_nat [k..<k + length es]" and "k + length es \<le> 128" and "code < 128"
  shows "getAscii_loop es code =
    (if k \<le> unat code \<and> unat code < k + length es then map ascii es ! (unat code - k) else 0)"
  using assms(1,2)
proof (induction es arbitrary: k)
  case (Cons e es)
  have upt: "[k..<k + length (e # es)] = k # [Suc k..<Suc k + length es]"
    by (simp add: upt_conv_Cons del: upt_Suc)
  have code: "unat code < 128" using assms(3) by (simp add: word_less_nat_alt)
  then have "sint code = int (unat code)" by (subst sint_eq_unat) simp
  then have "(ucast (scanCode e) :: i32) = scast code \<longleftrightarrow> scanCode e = code"
    unfolding scast_eq by (simp add: ucast_u8_eq_iff)
  moreover have k: "scanCode e = of_nat k" "map scanCode es = map of_nat [Suc k..<Suc k + length es]"
    using Cons.prems(1) upt by (simp_all del: upt_Suc of_nat_Suc)
  moreover have "of_nat k = code \<longleftrightarrow> k = unat code"
    using Cons.prems(2) by (auto simp: word_unat_eq_iff)
  moreover have "getAscii_loop es code =
      (if Suc k \<le> unat code \<and> unat code < Suc k + length es then map ascii es ! (unat code - Suc k) else 0)"
    using Cons.IH [OF k(2)] Cons.prems(2) by simp
  moreover have "unat code - k = Suc (unat code - Suc k)" if "Suc k \<le> unat code" using that by simp
  ultimately show ?case by auto
qed auto

lemma getAscii_row:
  assumes "code < 128"
  shows "getAscii code = (if 1 \<le> unat code \<and> unat code < 89 then ascii_row ! (unat code - 1) else 0)"
proof -
  have len: "length scancodeMap = 88" by (simp add: scancodeMap_def scancodes_def)
  have "map scanCode scancodeMap = map of_nat [1..<89]"
    by (simp add: scancodeMap_def scancodes_def upt_rec)
  then show ?thesis
    using getAscii_loop_consecutive [of scancodeMap 1 code] len assms by (simp add: getAscii_def ascii_row_def del: upt_rec_numeral)
qed


lemma le_one_u8: "\<not> (2 :: u8) \<le> 1" "\<not> (16 :: u8) \<le> 1" "\<not> (43 :: u8) \<le> 1"
  by (simp_all add: word_le_nat_alt)

lemmas typed_facts =
  typed_def us_typed_def us_rows_def getAscii_row ascii_row_def scancodeMap_def scancodes_def numShiftMap_def le_one_u8

definition well_typed_codes :: "bool \<Rightarrow> nat list" where
  "well_typed_codes shift =
     (if shift then [0..<0x1A] @ [0x1E..<0x27] @ [0x29..<0x2B] @ [0x2C..<0x33] @ [0x36..<0x39] @ [0x3A..<128]
      else [0..<0x1D] @ [0x1E..<128])"

lemma typed_table:
  "map (\<lambda>n. typed shift (of_nat n)) (well_typed_codes shift) = map (\<lambda>n. us_typed shift (of_nat n)) (well_typed_codes shift)"
  by (cases shift; simp add: well_typed_codes_def typed_facts upt_rec)

lemma typed_us:
  assumes "code < 128" and "code \<notin> set (mistyped shift)"
  shows "typed shift code = us_typed shift code"
proof -
  have "unat code < 128" using assms(1) by (simp add: word_less_nat_alt)
  then have "unat code \<in> set (well_typed_codes shift)"
    using assms(2) by (cases shift; simp add: well_typed_codes_def mistyped_def word_unat_eq_iff del: upt_rec_numeral; arith)
  then have "typed shift (of_nat (unat code)) = us_typed shift (of_nat (unat code))"
    using typed_table by (simp only: map_eq_conv)
  then show ?thesis by simp
qed

lemma typed_cases:
  assumes "code < 128"
  shows "typed shift code =
    (if code \<in> set (mistyped shift) then [getAscii code - (if shift then 32 else 0)] else us_typed shift code)"
  using typed_us [OF assms] by (cases shift) (auto simp: mistyped_def typed_def)

lemma and_7F_less: "v AND 0x7F < 128" for v :: u8
proof -
  have "v AND 0x7F \<le> 0x7F" by (rule word_and_le1)
  then show ?thesis by (simp add: word_le_nat_alt word_less_nat_alt)
qed

text \<open>
  The handler takes the key from a first read of the port and the direction from a second one.
  Shift keys set the shift state, releases of other keys do nothing, and the press of a key puts the
  character a US keyboard has on it; except that the left control key puts a null byte, and that with
  shift Enter, space and nine keys of punctuation put the byte 32 below their character.
\<close>

theorem keyboardHandler_types:
  assumes "devices KEYBOARD_IN (world m) = (v, w)" and "devices KEYBOARD_IN w = (v', w')"
  shows "keyboardHandler devices regs m =
    (let code = v AND 0x7F; pressed = (v' AND 0x80 = 0); m = m \<lparr> world := w' \<rparr> in
     if shift_key code then m \<lparr> capsOn := pressed \<rparr>
     else if \<not> pressed then m
     else show_text Kernel64 (if code \<in> set (mistyped (capsOn m))
       then [getAscii code - (if capsOn m then 32 else 0)] else us_typed (capsOn m) code) m)"
  using keyboardHandler_eq [of devices m v w v' w' regs, OF assms]
  by (simp add: Let_def typed_cases [OF and_7F_less])

definition blank_keyboard_machine :: "'w \<Rightarrow> 'w keyboard_machine" where
  "blank_keyboard_machine w = pager_machine.extend (blank_pager_machine w) \<lparr> capsOn = False \<rparr>"

lemma blank_keyboard_machine_sel [simp]:
  "console (blank_keyboard_machine w) = blank_console" "world (blank_keyboard_machine w) = w"
  "capsOn (blank_keyboard_machine w) = False" "irq_routines (blank_keyboard_machine w) i = None"
  by (simp_all add: blank_keyboard_machine_def blank_pager_machine_def blank_idt_machine_def blank_gdt_machine_def
      pager_machine.defs idt_machine.defs gdt_machine.defs)

text \<open>The release of A arrives between the two reads of the press of S.\<close>

theorem keyboardHandler_types_witness:
  "keyboardHandler (\<lambda>port vs. (List.hd vs, tl vs)) zero_registers (blank_keyboard_machine [0x1F, 0x9E]) =
     blank_keyboard_machine [0x1F, 0x9E] \<lparr> world := [] \<rparr>"
  using keyboardHandler_types [of "\<lambda>port vs. (List.hd vs, tl vs)" "blank_keyboard_machine [0x1F, 0x9E]" "0x1F" "[0x9E]"
      "0x9E" "[]" zero_registers]
  by (simp add: shift_key_def)

section \<open>Sessions\<close>

text \<open>
  The bytes of the keyboard, one interrupt each: while a byte is being handled every read of the port
  yields it.
\<close>

definition held_byte :: "u16 \<Rightarrow> u8 \<Rightarrow> u8 \<times> u8" where
  "held_byte port v = (v, v)"

definition key_events :: "u8 list \<Rightarrow> (u8, 'e) keyboard_machine_scheme \<Rightarrow> (u8, 'e) keyboard_machine_scheme" where
  "key_events vs m = fold (\<lambda>v m. keyboardHandler held_byte zero_registers (m \<lparr> world := v \<rparr>)) vs m"

text \<open>The text typed by a sequence of bytes on a US keyboard: bit 7 marks the release of a key.\<close>

fun us_text :: "bool \<Rightarrow> u8 list \<Rightarrow> u8 list" where
  "us_text shift [] = []"
| "us_text shift (v # vs) =
     (let code = v AND 0x7F; pressed = (v AND 0x80 = 0) in
      if shift_key code then us_text pressed vs
      else (if pressed then us_typed shift code else []) @ us_text shift vs)"

text \<open>The bytes of a sequence none of which is a press of a mistyped key.\<close>

fun well_typed :: "bool \<Rightarrow> u8 list \<Rightarrow> bool" where
  "well_typed shift [] \<longleftrightarrow> True"
| "well_typed shift (v # vs) \<longleftrightarrow>
     (let code = v AND 0x7F; pressed = (v AND 0x80 = 0) in
      if shift_key code then well_typed pressed vs
      else (pressed \<longrightarrow> code \<notin> set (mistyped shift)) \<and> well_typed shift vs)"

text \<open>
  Over any sequence of key presses and releases without a mistyped key the console shows exactly
  the text a US keyboard types, with shift in force between the press and the release of a shift key.
\<close>

theorem key_events_type:
  assumes "well_typed (capsOn m) vs"
  shows "console (key_events vs m) = fold (putc Kernel64) (us_text (capsOn m) vs) (console m)"
  using assms
proof (induction vs arbitrary: m)
  case (Cons v vs)
  let ?m = "keyboardHandler held_byte zero_registers (m \<lparr> world := v \<rparr>)"
  have "key_events (v # vs) m = key_events vs ?m" by (simp add: key_events_def)
  moreover have "?m = (let code = v AND 0x7F; pressed = (v AND 0x80 = 0); m = m \<lparr> world := v \<rparr> in
     if shift_key code then m \<lparr> capsOn := pressed \<rparr>
     else if pressed then show_text Kernel64 (typed (capsOn m) code) m else m)"
    using keyboardHandler_eq [of held_byte "m \<lparr> world := v \<rparr>" v v v v]
    by (simp add: held_byte_def)
  ultimately show ?case
    using Cons.IH [of ?m] Cons.prems typed_us [OF and_7F_less, of v "capsOn m"]
    by (auto simp: Let_def show_text_def split: if_splits)
qed (simp add: key_events_def)


text \<open>Shift down, H, shift up, I.\<close>

theorem key_events_type_witness:
  "console (key_events [0x2A, 0x23, 0xA3, 0xAA, 0x17, 0x97] (blank_keyboard_machine 0)) =
     fold (putc Kernel64) (bytes_of ''Hi'') blank_console"
proof -
  have "well_typed False [0x2A, 0x23, 0xA3, 0xAA, 0x17, 0x97]"
    by (simp add: shift_key_def mistyped_def)
  moreover have "us_text False [0x2A, 0x23, 0xA3, 0xAA, 0x17, 0x97] = bytes_of ''Hi''"
    by (simp add: shift_key_def us_typed_def us_rows_def)
  ultimately show ?thesis
    using key_events_type [of "blank_keyboard_machine 0" "[0x2A, 0x23, 0xA3, 0xAA, 0x17, 0x97]"]
    by (simp del: well_typed.simps us_text.simps bytes_of_simps)
qed

end
