(* ===== verification/Pit.thy ===== *)
theory Pit
  imports Keyboard
begin

text \<open>
  The interval timer, \<^verbatim>\<open>drivers/pit/pit.c\<close>.
\<close>

section \<open>State and operations\<close>

record 'w pit_machine = "'w keyboard_machine" +
  ticks :: u64

definition freq :: u32 where "freq = 10"

definition PIT_CH0 :: u16 where "PIT_CH0 = 0x40"
definition PIT_CH1 :: u16 where "PIT_CH1 = 0x41"
definition PIT_CH2 :: u16 where "PIT_CH2 = 0x42"
definition PIT_COMMS :: u16 where "PIT_COMMS = 0x43"

definition pit_divisor :: u32 where
  "pit_divisor = 1191380 div freq"

definition initPIT :: "('w, 'e) pit_machine_scheme \<Rightarrow> ('w, 'e) pit_machine_scheme res" where
  "initPIT m =
     bindE (irq_install_handler 0 (Some OnIrq0) (m \<lparr> ticks := 0 \<rparr>)) (\<lambda>m.
       let m = port_out PIT_COMMS 0x36 m;
           m = port_out PIT_CH0 (ucast (pit_divisor AND 0xFF)) m
       in Inr (port_out PIT_CH0 (ucast (drop_bit 8 pit_divisor AND 0xFF)) m))"

definition onIrq0 ::
  "InterruptRegisters \<Rightarrow> ('w, 'e) pit_machine_scheme \<Rightarrow> ('w, 'e) pit_machine_scheme res" where
  "onIrq0 regs m =
     (let m = m \<lparr> ticks := ticks m + 1 \<rparr>
      in print Kernel64 (''Tick! (%d)'' @ [CHR ''\<newline>'']) [Bits (ticks m)] m)"

section \<open>The timer\<close>

text \<open>
  Channel 0 as the timer chip sees the writes: the command 0x36 selects it with a low and a high byte to
  follow, which make up the 16-bit value it counts down from.
\<close>

record channel =
  low_byte :: "u8 option"
  reload :: u16

fun channel_write :: "u16 \<times> u8 \<Rightarrow> channel \<Rightarrow> channel" where
  "channel_write (port, v) c =
     (if port = PIT_COMMS \<and> v = 0x36 then c \<lparr> low_byte := None \<rparr>
      else if port = PIT_CH0 then
        (case low_byte c of
           None \<Rightarrow> c \<lparr> low_byte := Some v \<rparr>
         | Some lo \<Rightarrow> c \<lparr> low_byte := None, reload := le16 lo v \<rparr>)
      else c)"

definition channel_of :: "channel \<Rightarrow> ('w, 'e) machine_scheme \<Rightarrow> channel" where
  "channel_of c m = foldr channel_write (ports (console m)) c"

text \<open>
  The divisor for 10 interrupts per second is 119138, which has 17 bits.  What \<^verbatim>\<open>initPIT\<close> programs
  are the lower 16, that is 53602, so that the timer interrupts more than 22 times per second, and
  the interrupts go to \<^verbatim>\<open>onIrq0\<close> with the count of ticks at 0.
\<close>

theorem initPIT_truncates_divisor:
  "\<exists>m'. initPIT m = Inr m' \<and> ticks m' = 0 \<and> irq_routines m' 0 = Some OnIrq0 \<and>
    unat pit_divisor = 119138 \<and> reload (channel_of c m') = 53602 \<and>
    1191380 div unat (reload (channel_of c m')) = 22"
proof -
  let ?m = "m \<lparr> ticks := 0, irq_routines := (irq_routines m)(0 := Some OnIrq0) \<rparr>"
  let ?m' = "port_out PIT_CH0 0xD1 (port_out PIT_CH0 0x62 (port_out PIT_COMMS 0x36 ?m))"
  have divisor: "pit_divisor = 119138" by (simp add: pit_divisor_def freq_def)
  have bytes: "ucast (pit_divisor AND 0xFF) = (0x62 :: u8)" "ucast (drop_bit 8 pit_divisor AND 0xFF) = (0xD1 :: u8)"
    unfolding divisor by simp_all
  have "initPIT m = Inr ?m'"
    by (simp add: initPIT_def irq_install_handler_def irq_slots_def bytes Let_def)
  moreover have "reload (channel_of c ?m') = 53602"
    by (simp add: channel_of_def port_out_def PIT_COMMS_def PIT_CH0_def le16_def)
  moreover have "ticks ?m' = 0" "irq_routines ?m' 0 = Some OnIrq0" by (simp_all add: port_out_def)
  ultimately show ?thesis by (intro exI [of _ ?m']) (simp add: divisor)
qed

section \<open>Ticks\<close>

definition tick_line :: "u64 \<Rightarrow> u8 list" where
  "tick_line n = bytes_of ''Tick! ('' @ signed_text 10 (sint (ucast n :: u32)) @ bytes_of ('')'' @ [CHR ''\<newline>''])"

lemma onIrq0_eq: "onIrq0 regs m = Inr (show_text Kernel64 (tick_line (ticks m + 1)) (m \<lparr> ticks := ticks m + 1 \<rparr>))"
  unfolding onIrq0_def Let_def
  by (intro print_renders) (simp_all add: signed_arg_def tick_line_def)

fun run_ticks :: "nat \<Rightarrow> ('w, 'e) pit_machine_scheme \<Rightarrow> ('w, 'e) pit_machine_scheme res" where
  "run_ticks 0 m = Inr m"
| "run_ticks (Suc n) m = bindE (onIrq0 zero_registers m) (run_ticks n)"

lemma run_ticks_eq:
  "run_ticks n m = Inr (show_text Kernel64 (concat (map (\<lambda>i. tick_line (ticks m + of_nat (Suc i))) [0..<n]))
     (m \<lparr> ticks := ticks m + of_nat n \<rparr>))"
proof (induction n arbitrary: m)
  case 0
  then show ?case by (simp add: show_text_def)
next
  case (Suc n)
  have "map (\<lambda>i. tick_line (t + of_nat (Suc i))) [0..<Suc n] =
      tick_line (t + 1) # map (\<lambda>i. tick_line (t + 1 + of_nat (Suc i))) [0..<n]" for t
    by (simp add: map_upt_Suc ac_simps del: upt_Suc)
  then show ?case
    using Suc by (simp add: onIrq0_eq show_text_def add.assoc del: upt_Suc)
qed

text \<open>
  From a fresh count, \<open>n\<close> timer interrupts show the lines for 1 to \<open>n\<close> in order, each with its
  number in decimal, as long as that is below \<open>2 ^ 31\<close>; the count itself is \<open>n\<close>.
\<close>

theorem run_ticks_counts:
  assumes "ticks m = 0" and "n < 2 ^ 31"
  shows "\<exists>m'. run_ticks n m = Inr m' \<and> unat (ticks m') = n \<and>
    console m' = fold (putc Kernel64) (concat (map (\<lambda>i. bytes_of ''Tick! ('' @ numeral_text 10 (Suc i) @
      bytes_of ('')'' @ [CHR ''\<newline>''])) [0..<n])) (console m)"
proof -
  have "tick_line (of_nat (Suc i)) = bytes_of ''Tick! ('' @ numeral_text 10 (Suc i) @ bytes_of ('')'' @ [CHR ''\<newline>''])"
    if "i < n" for i
  proof -
    have "Suc i < 2 ^ 31" using that assms(2) by simp
    then have "unat (ucast (of_nat (Suc i) :: u64) :: u32) = Suc i"
      by (simp add: unsigned_ucast_eq take_bit_nat_eq_self del: of_nat_Suc)
    then have "sint (ucast (of_nat (Suc i) :: u64) :: u32) = int (Suc i)"
      using \<open>Suc i < 2 ^ 31\<close> by (subst sint_eq_unat) (simp del: of_nat_Suc)
    then show ?thesis by (simp add: tick_line_def signed_text_def del: of_nat_Suc)
  qed
  then have lines: "map (\<lambda>i. tick_line (of_nat (Suc i))) [0..<n] = map (\<lambda>i. bytes_of ''Tick! ('' @
      numeral_text 10 (Suc i) @ bytes_of ('')'' @ [CHR ''\<newline>''])) [0..<n]" (is "_ = ?lines")
    by (intro map_cong refl) simp
  have "run_ticks n m = Inr (show_text Kernel64 (concat ?lines) (m \<lparr> ticks := of_nat n \<rparr>))"
    by (simp only: run_ticks_eq assms(1) add_0 lines)
  moreover have "unat (of_nat n :: u64) = n" using assms(2) by simp
  ultimately show ?thesis
    by (intro exI [of _ "show_text Kernel64 (concat ?lines) (m \<lparr> ticks := of_nat n \<rparr>)"])
      (simp add: show_text_def del: bytes_of_simps)
qed

definition blank_pit_machine :: "'w \<Rightarrow> 'w pit_machine" where
  "blank_pit_machine w = keyboard_machine.extend (blank_keyboard_machine w) \<lparr> ticks = 0 \<rparr>"

lemma blank_pit_machine_sel [simp]:
  "console (blank_pit_machine w) = blank_console" "world (blank_pit_machine w) = w" "ticks (blank_pit_machine w) = 0"
  by (simp_all add: blank_pit_machine_def blank_keyboard_machine_def blank_pager_machine_def blank_idt_machine_def
      blank_gdt_machine_def keyboard_machine.defs pager_machine.defs idt_machine.defs gdt_machine.defs)

theorem run_ticks_counts_witness:
  "\<exists>m'. run_ticks 2 (blank_pit_machine ()) = Inr m' \<and> unat (ticks m') = 2 \<and>
    console m' = fold (putc Kernel64) (concat (map (\<lambda>i. bytes_of ''Tick! ('' @ numeral_text 10 (Suc i) @
      bytes_of ('')'' @ [CHR ''\<newline>''])) [0..<2])) blank_console"
  using run_ticks_counts [of "blank_pit_machine ()" 2] by (simp del: bytes_of_simps)

end
