(* ===== verification/Kernel.thy ===== *)
theory Kernel
  imports Pit
begin

text \<open>
  The kernel as a whole: \<^verbatim>\<open>kernel/main.c\<close>, the common part of the interrupt stubs with the functions
  behind them, the requests that arrive while \<^verbatim>\<open>main\<close> runs, and the machine the kernel leaves to its
  interrupts.
\<close>

section \<open>State\<close>

text \<open>
  What the two interrupt controllers are is the matter of the bytes written to them and of the requests
  the processor has accepted: \<open>pics\<close> is their state after the last accepted request, and \<open>seen\<close> the
  number of port writes it accounts for.
\<close>

record 'w kernel_machine = "'w pit_machine" +
  pics :: "pic \<times> pic"
  seen :: nat

definition controllers :: "('w, 'e) kernel_machine_scheme \<Rightarrow> pic \<times> pic" where
  "controllers m = foldr pics_write (take (length (ports (console m)) - seen m) (ports (console m))) (pics m)"

section \<open>Boot parameters\<close>

text \<open>
  The fields of \<^verbatim>\<open>bootParamsStruct\<close> as the 64-bit compiler lays them out: \<^verbatim>\<open>Memory.RegionCount\<close>, 4
  bytes of padding, the 8-byte pointer \<^verbatim>\<open>Memory.Regions\<close> and \<^verbatim>\<open>BootDevice\<close>.  \<open>RegionCount\<close> and
  \<open>BootDevice\<close> read them from memory; the loads of \<^verbatim>\<open>main\<close> go through the page tables.
\<close>

definition peek :: "('w, 'e) machine_scheme \<Rightarrow> u64 \<Rightarrow> u8" where
  "peek m a = vmem (console m) (unat a)"

definition RegionCount :: "u64 \<Rightarrow> ('w, 'e) machine_scheme \<Rightarrow> i32" where
  "RegionCount p m = le32 (peek m p) (peek m (p + 1)) (peek m (p + 2)) (peek m (p + 3))"

definition BootDevice :: "u64 \<Rightarrow> ('w, 'e) machine_scheme \<Rightarrow> u8" where
  "BootDevice p m = peek m (p + 16)"

definition load_RegionCount :: "pager_symbols \<Rightarrow> u64 \<Rightarrow> ('w, 'h, 'e) pager_machine_scheme \<Rightarrow> i32 res" where
  "load_RegionCount syms p m =
     bindE (load8 syms p m) (\<lambda>b0. bindE (load8 syms (p + 1) m) (\<lambda>b1.
     bindE (load8 syms (p + 2) m) (\<lambda>b2. bindE (load8 syms (p + 3) m) (\<lambda>b3. Inr (le32 b0 b1 b2 b3)))))"

definition load_BootDevice :: "pager_symbols \<Rightarrow> u64 \<Rightarrow> ('w, 'h, 'e) pager_machine_scheme \<Rightarrow> u8 res" where
  "load_BootDevice syms p m = load8 syms (p + 16) m"

section \<open>The stubs\<close>

text \<open>A call of the function behind a pointer in \<^verbatim>\<open>irq_routines\<close>.\<close>

fun call_routine ::
  "(u16 \<Rightarrow> 'w \<Rightarrow> u8 \<times> 'w) \<Rightarrow> routine \<Rightarrow> InterruptRegisters
    \<Rightarrow> ('w, 'e) pit_machine_scheme \<Rightarrow> ('w, 'e) pit_machine_scheme res" where
  "call_routine devices KeyboardHandler regs m = Inr (keyboardHandler devices regs m)"
| "call_routine devices OnIrq0 regs m = onIrq0 regs m"

text \<open>
  The common part of the stubs, up to \<^verbatim>\<open>iretq\<close>, on the registers and the stack the processor enters the
  stub with: what they are for \<^verbatim>\<open>iretq\<close>, and the machine.  \<^verbatim>\<open>isr_handler\<close> returns a pointer to the
  structure it is given, from which the registers are popped.
\<close>

definition isr_common_stub ::
  "(scratch_regs \<Rightarrow> scratch_regs) \<Rightarrow> nat \<Rightarrow> cpu_regs \<Rightarrow> u64 list \<Rightarrow> ('w, 'e) machine_scheme
    \<Rightarrow> (cpu_regs \<times> u64 list \<times> ('w, 'e) machine_scheme) res" where
  "isr_common_stub left n r stack m =
     (let s = pushall (RAX r) (RBX r) (RCX r) (RDX r) (isr_entry n stack) in
      bindE (isr_handler (regs_at s) m) (\<lambda>(regs, m).
        let (r, stack) = popall_regs (regs_words regs @ drop 11 s) (handler_call left (pushed_regs s stack r))
        in Inr (r, stack, m)))"

definition irq_common_stub ::
  "(u16 \<Rightarrow> 'w \<Rightarrow> u8 \<times> 'w) \<Rightarrow> (scratch_regs \<Rightarrow> scratch_regs) \<Rightarrow> nat \<Rightarrow> cpu_regs \<Rightarrow> u64 list
    \<Rightarrow> ('w, 'e) pit_machine_scheme \<Rightarrow> (cpu_regs \<times> u64 list \<times> ('w, 'e) pit_machine_scheme) res" where
  "irq_common_stub devices left i r stack m =
     (let s = pushall (RAX r) (RBX r) (RCX r) (RDX r) (irq_entry i stack) in
      bindE (irq_handler (call_routine devices) (regs_at s) m) (\<lambda>m.
        let (r, stack) = popall_regs s (handler_call left (pushed_regs s stack r))
        in Inr (r, stack, m)))"

section \<open>Requests\<close>

text \<open>
  A program is interrupted with registers and a stack of its own, on which the processor pushes its
  frame; \<open>leaves\<close> is what the compiled handler leaves in the scratch registers.
\<close>

record interrupted =
  at_regs :: cpu_regs
  at_frame :: frame
  at_stack :: "u64 list"
  leaves :: "scratch_regs \<Rightarrow> scratch_regs"

definition take_request ::
  "(u16 \<Rightarrow> 'w \<Rightarrow> u8 \<times> 'w) \<Rightarrow> nat \<Rightarrow> interrupted \<Rightarrow> ('w, 'e) kernel_machine_scheme
    \<Rightarrow> (cpu_regs \<times> u64 list \<times> ('w, 'e) kernel_machine_scheme) res" where
  "take_request devices i c m =
     irq_common_stub devices (leaves c) i (at_regs c) (frame_words (at_frame c) @ at_stack c)
       (m \<lparr> pics := accept i (controllers m), seen := length (ports (console m)) \<rparr>)"

text \<open>Requests that arrive one after the other; one that is not let through is not delivered.\<close>

fun arrive ::
  "(u16 \<Rightarrow> 'w \<Rightarrow> u8 \<times> 'w) \<Rightarrow> (nat \<times> interrupted) list \<Rightarrow> ('w, 'e) kernel_machine_scheme
    \<Rightarrow> ('w, 'e) kernel_machine_scheme res" where
  "arrive devices [] m = Inr m"
| "arrive devices ((i, c) # rs) m =
     (if interrupts_on m \<and> accepts i (controllers m)
      then bindE (take_request devices i c m) (\<lambda>(r, stack, m). arrive devices rs m)
      else arrive devices rs m)"

section \<open>\<^verbatim>\<open>main\<close>\<close>

record kernel_symbols =
  gdt_syms :: gdt_symbols
  idt_syms :: idt_symbols
  pager_syms :: pager_symbols

text \<open>
  Interrupts are on from \<^verbatim>\<open>initIDT\<close> on.  Requests may arrive after each statement of \<^verbatim>\<open>main\<close>: at these
  points the caller holds nothing in the registers the stubs do not restore, as it has just been
  returned to from a function.
\<close>

datatype point = AfterIDT | AfterPaging | AfterDevice | AfterRegions | AfterMark i32 | AfterHello

type_synonym arrivals = "point \<Rightarrow> (nat \<times> interrupted) list"

text \<open>A \<^verbatim>\<open>printf\<close> of \<^verbatim>\<open>main\<close> and the requests that arrive after it.\<close>

definition say ::
  "(u16 \<Rightarrow> 'w \<Rightarrow> u8 \<times> 'w) \<Rightarrow> (nat \<times> interrupted) list \<Rightarrow> string \<Rightarrow> va_list
    \<Rightarrow> ('w, 'e) kernel_machine_scheme \<Rightarrow> ('w, 'e) kernel_machine_scheme res" where
  "say devices rs fmt args m = bindE (print Kernel64 fmt args m) (arrive devices rs)"

text \<open>The loop over the regions of the memory map, which reads their number in every round.\<close>

lemma sint_inc:
  fixes i n :: i32
  assumes "i <s n"
  shows "sint (i + 1) = sint i + 1"
proof -
  have "sint i < sint n" using assms by (simp add: word_sless_alt)
  moreover have "- (2 ^ 31) \<le> sint i" "sint n < 2 ^ 31"
    using sint_greater_eq [of i] sint_less [of n] by simp_all
  ultimately show ?thesis by (simp add: signed_take_bit_int_eq_self sint_word_ariths)
qed

function region_marks ::
  "(u16 \<Rightarrow> 'w \<Rightarrow> u8 \<times> 'w) \<Rightarrow> pager_symbols \<Rightarrow> arrivals \<Rightarrow> u64 \<Rightarrow> i32
    \<Rightarrow> ('w, 'e) kernel_machine_scheme \<Rightarrow> ('w, 'e) kernel_machine_scheme res" where
  "region_marks devices syms arrivals p i m =
     (case load_RegionCount syms p m of
        Inl e \<Rightarrow> Inl e
      | Inr n \<Rightarrow>
          if i <s n then bindE (say devices (arrivals (AfterMark i)) ''!'' [] m) (region_marks devices syms arrivals p (i + 1))
          else Inr m)"
  by pat_completeness auto
termination
proof (relation "measure (\<lambda>(devices, syms, arrivals, p, i, m). nat (2 ^ 31 - sint i))")
  show "((devices, syms, arrivals, p, i + 1, x), devices, syms, arrivals, p, i, m) \<in>
      measure (\<lambda>(devices, syms, arrivals, p, i, m). nat (2 ^ 31 - sint i))"
    if "i <s n"
    for devices :: "u16 \<Rightarrow> 'a \<Rightarrow> u8 \<times> 'a" and syms and arrivals :: arrivals and p :: u64 and i n :: i32
      and m x :: "('a, 'b) kernel_machine_scheme"
    using sint_inc [OF that] sint_less [of i] by simp
qed simp

declare region_marks.simps [simp del]

text \<open>The statements of \<^verbatim>\<open>main\<close> after \<^verbatim>\<open>initPaging\<close>, up to its last loop.\<close>

definition main_prints ::
  "(u16 \<Rightarrow> 'w \<Rightarrow> u8 \<times> 'w) \<Rightarrow> pager_symbols \<Rightarrow> arrivals \<Rightarrow> u64
    \<Rightarrow> ('w, 'e) kernel_machine_scheme \<Rightarrow> ('w, 'e) kernel_machine_scheme res" where
  "main_prints devices syms arrivals bootParams m =
     bindE (load_BootDevice syms bootParams m) (\<lambda>d.
     bindE (say devices (arrivals AfterDevice) (''Boot device: 0x%x'' @ [CHR ''\<newline>'']) [Bits (ucast d)] m) (\<lambda>m.
     bindE (load_RegionCount syms bootParams m) (\<lambda>n.
     bindE (say devices (arrivals AfterRegions) (''%i regions'' @ [CHR ''\<newline>'']) [Bits (ucast n)] m) (\<lambda>m.
     bindE (region_marks devices syms arrivals bootParams 0 m) (\<lambda>m.
     bindE (say devices (arrivals AfterHello) (''Hello world from the kernel!'' @ [CHR ''\<newline>'']) [] m)
       initKeyboard)))))"

text \<open>\<^verbatim>\<open>main\<close> up to its last loop, in which the processor halts until the next interrupt.\<close>

definition kernel_main ::
  "(u16 \<Rightarrow> 'w \<Rightarrow> u8 \<times> 'w) \<Rightarrow> kernel_symbols \<Rightarrow> arrivals \<Rightarrow> u64
    \<Rightarrow> ('w, 'e) kernel_machine_scheme \<Rightarrow> ('w, 'e) kernel_machine_scheme res" where
  "kernel_main devices syms arrivals bootParams m =
     (let m = m \<lparr> console := clrscr Kernel64 (console m) \<rparr> in
      bindE (initGDT (gdt_syms syms) m) (\<lambda>m.
      bindE (arrive devices (arrivals AfterIDT) (initIDT devices (idt_syms syms) m)) (\<lambda>m.
      bindE (arrive devices (arrivals AfterPaging) (initPaging (pager_syms syms) m))
        (main_prints devices (pager_syms syms) arrivals bootParams))))"

section \<open>What the stubs do\<close>

text \<open>What is pushed is popped: the registers \<^verbatim>\<open>pushall\<close> saves and the processor's frame survive, the others need not.\<close>

lemma irq_common_stub_frame:
  "irq_common_stub devices left i r (frame_words f @ stack) m =
     bindE (irq_handler (call_routine devices)
        \<lparr> rdx = RDX r, rcx = RCX r, rbx = RBX r, rax = RAX r, int_no = of_nat (32 + i), err_no = 0, rip = f_rip f,
          r_cs = f_cs f, rflags = f_rflags f, rsp = f_rsp f, r_ss = f_ss f \<rparr> m)
       (\<lambda>m. Inr (r \<lparr> scratch := left (scratch r \<lparr> RDI := RSP r - 48 \<rparr>) \<rparr>, frame_words f @ stack, m))"
proof -
  let ?s = "pushall (RAX r) (RBX r) (RCX r) (RDX r) (irq_entry i (frame_words f @ stack))"
  have "length ?s = length (frame_words f @ stack) + 6" by (simp add: pushall_def irq_entry_def)
  then have "popall_regs ?s (handler_call left (pushed_regs ?s (frame_words f @ stack) r)) =
      (r \<lparr> scratch := left (scratch r \<lparr> RDI := RSP r - 48 \<rparr>) \<rparr>, frame_words f @ stack)"
    by (simp add: popall_regs_def irq_entry_frame pushed_regs_def handler_call_def)
  then show ?thesis by (simp add: irq_common_stub_def irq_entry_frame Let_def)
qed

lemma regs_words_at: "11 \<le> length s \<Longrightarrow> regs_words (regs_at s) @ drop 11 s = s"
proof -
  assume "11 \<le> length s"
  then have "take 11 s = map ((!) s) [0..<11]" by (intro nth_equalityI) (simp_all del: upt_rec_numeral)
  moreover have "[0..<11] = [0, 1, 2, 3, 4, 5, 6, 7, 8, 9, 10 :: nat]" by (simp add: upt_rec)
  ultimately have "regs_words (regs_at s) = take 11 s" by (simp add: regs_words_def regs_at_def)
  then show ?thesis by simp
qed

text \<open>Printing a number shows neither backspace nor tab.\<close>

lemma numeral_text_chars:
  assumes "2 \<le> r" and "r \<le> 16"
  shows "set (numeral_text r n) \<subseteq> set digit_chars"
proof
  fix c assume "c \<in> set (numeral_text r n)"
  then obtain d where d: "d \<in> set (to_digits r n)" "digit_chars ! d = c" by (auto simp: numeral_text_def)
  then have "d < length digit_chars" using to_digits_bound [OF assms(1) d(1)] assms(2) by simp
  then show "c \<in> set digit_chars" using d(2) nth_mem by metis
qed

lemma digits_printable:
  "2 \<le> r \<Longrightarrow> r \<le> 16 \<Longrightarrow> 0x08 \<notin> set (numeral_text r n)"
  "2 \<le> r \<Longrightarrow> r \<le> 16 \<Longrightarrow> 0x09 \<notin> set (numeral_text r n)"
  using numeral_text_chars [of r n] by (auto simp: digit_chars_def)

lemma dump_printable: "0x08 \<notin> set (dump_head regs)" if "int_no regs < 32"
proof -
  have "unat (int_no regs) < length exception_messages" using that by (simp add: exception_messages_def word_less_nat_alt)
  moreover have "\<forall>t \<in> set exception_messages. 0x08 \<notin> set (bytes_of t)" by (simp add: exception_messages_def)
  ultimately have "0x08 \<notin> set (bytes_of (exception_messages ! unat (int_no regs)))" using nth_mem by blast
  then show ?thesis by (simp add: dump_head_def low_hex_def digits_printable)
qed

lemma dump_line_printable: "0x08 \<notin> set (bytes_of name) \<Longrightarrow> 0x08 \<notin> set (dump_line name v)"
  by (simp add: dump_line_def low_hex_def digits_printable) (simp add: bytes_of_def)

lemma isr_common_stub_shows:
  "\<exists>t. 0x08 \<notin> set t \<and> isr_common_stub left n r (cpu_push n err f stack) m =
    Inr (r \<lparr> RSP := RSP r + (if n \<in> set error_code_stubs then 8 else 0),
        scratch := left (scratch r \<lparr> RDI := RSP r - (if n \<in> set error_code_stubs then 40 else 48) \<rparr>) \<rparr>,
      (if n \<in> set error_code_stubs then frame_words f @ stack else cpu_push n err f stack), show_text Kernel64 t m)"
proof -
  let ?stack = "cpu_push n err f stack"
  let ?s = "pushall (RAX r) (RBX r) (RCX r) (RDX r) (isr_entry n ?stack)"
  have "set error_code_stubs \<subseteq> set cpu_error_codes" by (simp add: error_code_stubs_def cpu_error_codes_def)
  then have words: "11 \<le> length ?s" "length ?s = length ?stack + (if n \<in> set error_code_stubs then 5 else 6)"
      "popall ?s = ((RAX r, RBX r, RCX r, RDX r), if n \<in> set error_code_stubs then frame_words f @ stack else ?stack)"
    by (auto simp: pushall_def isr_entry_def cpu_push_def frame_words_def popall_def)
  obtain t where "isr_handler (regs_at ?s) m = Inr (regs_at ?s, show_text Kernel64 t m)" "0x08 \<notin> set t"
  proof (cases "int_no (regs_at ?s) < 32")
    case True
    then show ?thesis
      using that [of "dump_head (regs_at ?s) @ dump_line ''RAX'' (rax (regs_at ?s)) @ dump_line ''RBX'' (rbx (regs_at ?s)) @
          dump_line ''RCX'' (rcx (regs_at ?s)) @ dump_line ''RDX'' (rdx (regs_at ?s)) @ dump_line ''RIP'' (rip (regs_at ?s))"]
      by (simp add: isr_handler_eq dump_printable dump_line_printable)
  next
    case False
    then show ?thesis using that [of "[]"] by (simp add: isr_handler_eq show_text_def)
  qed
  then show ?thesis
    using words regs_words_at [OF words(1)]
    by (intro exI [of _ t]) (simp add: isr_common_stub_def Let_def popall_regs_def pushed_regs_def handler_call_def)
qed

text \<open>
  Neither stub saves RDI, and both overwrite it: what an interrupted program had in it makes no
  difference to what it finds there afterwards.
\<close>

theorem stubs_lose_RDI:
  "isr_common_stub left n (r \<lparr> scratch := scratch r \<lparr> RDI := v \<rparr> \<rparr>) stack m = isr_common_stub left n r stack m \<and>
   irq_common_stub devices left i (r \<lparr> scratch := scratch r \<lparr> RDI := v \<rparr> \<rparr>) stack m' =
     irq_common_stub devices left i r stack m'"
proof -
  have "popall_regs s' (handler_call left (pushed_regs s stack (r \<lparr> scratch := scratch r \<lparr> RDI := v \<rparr> \<rparr>))) =
      popall_regs s' (handler_call left (pushed_regs s stack r))" for s s'
    by (simp add: popall_regs_def handler_call_def pushed_regs_def split: prod.split)
  then show ?thesis by (simp add: isr_common_stub_def irq_common_stub_def Let_def)
qed

section \<open>Requests and the controllers\<close>

text \<open>The record of the controllers is of writes that were made; then every further write reaches them.\<close>

definition watched :: "u8 \<Rightarrow> u8 \<Rightarrow> ('w, 'e) kernel_machine_scheme \<Rightarrow> bool" where
  "watched mm ms m \<longleftrightarrow> seen m \<le> length (ports (console m)) \<and> controllers m = programmed mm ms"

lemma controllers_writes:
  assumes "seen m \<le> length (ports (console m))" and "ports (console m') = ws @ ports (console m)"
    and "pics m' = pics m" and "seen m' = seen m"
  shows "controllers m' = foldr pics_write ws (controllers m)" and "seen m' \<le> length (ports (console m'))"
  using assms by (simp_all add: controllers_def)

lemma display_controllers: "fst ` set ws \<subseteq> {0x3D4, 0x3D5} \<Longrightarrow> foldr pics_write ws ps = ps"
  by (induction ws; cases ps) (auto simp: MASTER_COMMS_def MASTER_DATA_def SLAVE_COMMS_def SLAVE_DATA_def)

lemma watched_display:
  assumes "watched mm ms m" and "display_writes (console m) (console m')" and "pics m' = pics m" and "seen m' = seen m"
  shows "watched mm ms m'"
proof -
  obtain ws where ws: "ports (console m') = ws @ ports (console m)" "fst ` set ws \<subseteq> {0x3D4, 0x3D5}"
    using assms(2) by (auto simp: display_writes_def)
  have seen: "seen m \<le> length (ports (console m))" using assms(1) by (simp add: watched_def)
  note ctl = controllers_writes [OF seen ws(1) assms(3,4)]
  show ?thesis using assms(1) ctl display_controllers [OF ws(2)] by (simp add: watched_def)
qed

text \<open>
  What the machine is once it has shown a text and requests have been served: the screen is that of the
  text, up to the writes to ports made in between.
\<close>

definition shown :: "u8 list \<Rightarrow> ('w, 'e) kernel_machine_scheme \<Rightarrow> ('w, 'e) kernel_machine_scheme \<Rightarrow> bool" where
  "shown t m m' \<longleftrightarrow>
     (\<exists>ps pc n. m' = m \<lparr> console := fold (putc Kernel64) t (console m) \<lparr> ports := ps \<rparr>, pics := pc, seen := n \<rparr>)"

lemma shown_refl: "shown [] m m"
  unfolding shown_def by (intro exI [of _ "ports (console m)"] exI [of _ "pics m"] exI [of _ "seen m"]) simp

lemma shown_text: "shown t m (show_text Kernel64 t m)"
  unfolding shown_def
  by (intro exI [of _ "ports (fold (putc Kernel64) t (console m))"] exI [of _ "pics m"] exI [of _ "seen m"])
    (simp add: show_text_def)

lemma shown_trans:
  assumes "shown t m m'" and "shown u m' m''"
  shows "shown (t @ u) m m''"
proof -
  obtain ps pc n where m': "m' = m \<lparr> console := fold (putc Kernel64) t (console m) \<lparr> ports := ps \<rparr>, pics := pc, seen := n \<rparr>"
    using assms(1) by (auto simp: shown_def)
  obtain ps' pc' n' where
    m'': "m'' = m' \<lparr> console := fold (putc Kernel64) u (console m') \<lparr> ports := ps' \<rparr>, pics := pc', seen := n' \<rparr>"
    using assms(2) by (auto simp: shown_def)
  let ?c = "fold (putc Kernel64) t (console m)"
  have "shows_same (?c \<lparr> ports := ps \<rparr>) ?c" by (simp add: shows_same_def)
  from text_same [OF this, of Kernel64 u] obtain ps'' where
    "fold (putc Kernel64) u (?c \<lparr> ports := ps \<rparr>) = fold (putc Kernel64) u ?c \<lparr> ports := ps'' \<rparr>"
    by (auto simp: shows_same_ports)
  then show ?thesis
    unfolding shown_def m'' m' by (intro exI [of _ ps'] exI [of _ pc'] exI [of _ n']) simp
qed

lemma shown_sel:
  assumes "shown t m m'"
  shows "console m' = fold (putc Kernel64) t (console m) \<lparr> ports := ports (console m') \<rparr>"
    and "irq_routines m' = irq_routines m" "interrupts_on m' = interrupts_on m" "capsOn m' = capsOn m"
    and "cr3 m' = cr3 m" "tables s m' = tables s m" "gdtr m' = gdtr m" "code_segment m' = code_segment m"
    and "basePageDir m' = basePageDir m" "gdt_entries m' = gdt_entries m" "idtr m' = idtr m" "idt_entries m' = idt_entries m"
  using assms by (auto simp: shown_def tables_def)

lemma shown_same: "shown [] m m' \<Longrightarrow> shows_same (console m') (console m)"
  by (auto simp: shown_def shows_same_def)

text \<open>The handler of a request calls the routine installed for it and ends the interrupt.\<close>

lemma irq_handler_eq:
  assumes "i < 16" and "int_no regs = of_nat (32 + i)"
  shows "irq_handler call regs m =
    bindE (case irq_routines m i of None \<Rightarrow> Inr m | Some handler \<Rightarrow> call handler regs m)
      (\<lambda>m. Inr (m \<lparr> console := console m \<lparr> ports := eoi_writes i @ ports (console m) \<rparr> \<rparr>))"
proof -
  have i: "unat (int_no regs - 32) = i" "\<not> irq_slots \<le> i"
    using assms by (simp_all add: irq_slots_def)
  have "unat (int_no regs) = 32 + i"
    unfolding assms(2) using assms(1) by (intro unat_of_nat_small) simp
  moreover have "unat (40 :: u64) = 40" by simp
  ultimately have "40 \<le> int_no regs \<longleftrightarrow> 8 \<le> i"
    by (simp only: word_le_nat_alt) simp
  then show ?thesis
    by (simp add: irq_handler_def i Let_def port_out_def outb_def eoi_writes_def)
qed

lemma accepted_line: "accepts i ps \<Longrightarrow> i < 16"
  by (cases ps) (auto split: if_splits)

lemma take_request_eq:
  assumes "i < 16"
  shows "\<exists>regs. take_request devices i c m =
    bindE (case irq_routines m i of None \<Rightarrow> Inr (m \<lparr> pics := accept i (controllers m), seen := length (ports (console m)) \<rparr>)
        | Some handler \<Rightarrow> call_routine devices handler regs (m \<lparr> pics := accept i (controllers m), seen := length (ports (console m)) \<rparr>))
      (\<lambda>m. Inr (at_regs c \<lparr> scratch := leaves c (scratch (at_regs c) \<lparr> RDI := RSP (at_regs c) - 48 \<rparr>) \<rparr>,
        frame_words (at_frame c) @ at_stack c, m \<lparr> console := console m \<lparr> ports := eoi_writes i @ ports (console m) \<rparr> \<rparr>))"
proof -
  let ?f = "at_frame c"
  define regs where "regs = \<lparr> rdx = RDX (at_regs c), rcx = RCX (at_regs c), rbx = RBX (at_regs c), rax = RAX (at_regs c),
    int_no = of_nat (32 + i), err_no = 0, rip = f_rip ?f, r_cs = f_cs ?f, rflags = f_rflags ?f, rsp = f_rsp ?f, r_ss = f_ss ?f \<rparr>"
  have "int_no regs = of_nat (32 + i)" by (simp add: regs_def)
  from irq_handler_eq [OF assms this, of "call_routine devices"
      "m \<lparr> pics := accept i (controllers m), seen := length (ports (console m)) \<rparr>"]
  show ?thesis
    unfolding take_request_def irq_common_stub_frame regs_def [symmetric]
    by (intro exI [of _ regs]) (auto simp: bindE_def split: option.split sum.split)
qed

text \<open>The end of an interrupt restores the controllers, if all that was written since was text.\<close>

lemma watched_eoi:
  assumes "watched mm ms m" and "i < 16"
    and "display_writes (console m) (console m')" and "pics m' = accept i (controllers m)"
    and "seen m' = length (ports (console m))"
  shows "watched mm ms (m' \<lparr> console := console m' \<lparr> ports := eoi_writes i @ ports (console m') \<rparr> \<rparr>)"
proof -
  obtain ws where ws: "ports (console m') = ws @ ports (console m)" "fst ` set ws \<subseteq> {0x3D4, 0x3D5}"
    using assms(3) by (auto simp: display_writes_def)
  have "controllers m' = foldr pics_write ws (accept i (controllers m))"
    unfolding controllers_def [of m'] using ws(1) assms(4,5) by simp
  then have "controllers m' = accept i (programmed mm ms)"
    using display_controllers [OF ws(2)] assms(1) by (simp add: watched_def)
  moreover have "seen m' \<le> length (ports (console m'))" using ws(1) assms(5) by simp
  ultimately show ?thesis
    using controllers_writes [of m' "m' \<lparr> console := console m' \<lparr> ports := eoi_writes i @ ports (console m') \<rparr> \<rparr>" "eoi_writes i"]
      eoi_accept [OF assms(2)] by (simp add: watched_def)
qed

text \<open>Without a routine a request changes nothing but the record of the controllers.\<close>

lemma idle_request:
  assumes "watched mm ms m" and "irq_routines m i = None" and "i < 16"
  shows "\<exists>r stack m'. take_request devices i c m = Inr (r, stack, m') \<and> shown [] m m' \<and> watched mm ms m'"
proof -
  let ?m = "m \<lparr> pics := accept i (controllers m), seen := length (ports (console m)) \<rparr>"
  let ?m' = "?m \<lparr> console := console ?m \<lparr> ports := eoi_writes i @ ports (console ?m) \<rparr> \<rparr>"
  have "watched mm ms ?m'"
    by (rule watched_eoi [OF assms(1,3)]) (simp_all add: display_writes_refl)
  moreover have "shown [] m ?m'"
    unfolding shown_def by (intro exI [of _ "eoi_writes i @ ports (console m)"] exI [of _ "accept i (controllers m)"]
      exI [of _ "length (ports (console m))"]) simp
  ultimately show ?thesis
    using take_request_eq [OF assms(3), of devices c m] assms(2) by auto
qed

lemma arrive_idle:
  assumes "watched mm ms m" and "\<forall>i. irq_routines m i = None"
  shows "\<exists>m'. arrive devices rs m = Inr m' \<and> shown [] m m' \<and> watched mm ms m'"
  using assms
proof (induction rs arbitrary: m)
  case Nil
  then show ?case by (simp add: shown_refl)
next
  case (Cons e rs)
  obtain i c where e: "e = (i, c)" by (cases e)
  show ?case
  proof (cases "interrupts_on m \<and> accepts i (controllers m)")
    case True
    then have "i < 16" using accepted_line by blast
    then obtain r stack m1 where m1: "take_request devices i c m = Inr (r, stack, m1)" "shown [] m m1" "watched mm ms m1"
      using idle_request [OF Cons.prems(1)] Cons.prems(2) by blast
    then obtain m2 where m2: "arrive devices rs m1 = Inr m2" "shown [] m1 m2" "watched mm ms m2"
      using Cons.IH [OF m1(3)] Cons.prems(2) shown_sel(2) [OF m1(2)] by auto
    have "arrive devices (e # rs) m = Inr m2" using True m1(1) m2(1) by (simp add: e)
    then show ?thesis using shown_trans [OF m1(2) m2(2)] m2(3) by auto
  qed (use Cons.IH [OF Cons.prems] in \<open>auto simp: e\<close>)
qed

section \<open>The start of the kernel\<close>

text \<open>Memory the console does not write.\<close>

definition off_screen :: "u64 \<Rightarrow> bool" where
  "off_screen p \<longleftrightarrow> (\<forall>k \<in> {0, 1, 2, 3, 16}. \<not> in_buffer Kernel64 (unat (p + k)))"

text \<open>The boot parameters are what they were as long as memory off the screen is.\<close>

lemma params_cong:
  assumes "off_screen p" and "\<And>a. \<not> in_buffer Kernel64 a \<Longrightarrow> vmem (console m') a = vmem (console m) a"
  shows "RegionCount p m' = RegionCount p m" and "BootDevice p m' = BootDevice p m"
proof -
  have "peek m' (p + k) = peek m (p + k)" if "k \<in> {0, 1, 2, 3, 16}" for k
    using assms that by (auto simp: peek_def off_screen_def)
  from this [of 0] this [of 1] this [of 2] this [of 3] this [of 16]
  show "RegionCount p m' = RegionCount p m" "BootDevice p m' = BootDevice p m"
    by (simp_all add: RegionCount_def BootDevice_def)
qed

text \<open>
  Where the boot parameters may be for \<^verbatim>\<open>main\<close> to reach them through the tables of \<^verbatim>\<open>initPaging\<close>, and the
  physical address they are then read from.
\<close>

definition params_at :: "u64 \<Rightarrow> u64 \<Rightarrow> bool" where
  "params_at p q \<longleftrightarrow> q = p \<and> unat p + 16 < 0x200000 \<or> kernelPage \<le> p \<and> p \<le> - 17 \<and> q = p - kernelPage"

text \<open>What \<^verbatim>\<open>main\<close> relies on while it prints: the tables, the cursor, and no routine that a request would call.\<close>

definition mapped :: "pager_symbols \<Rightarrow> ('w, 'e) kernel_machine_scheme \<Rightarrow> bool" where
  "mapped syms m \<longleftrightarrow> (\<forall>va. (kernelPage \<le> va \<longrightarrow> translate syms m va = Some (va - kernelPage)) \<and>
     (va < 0x200000 \<longrightarrow> translate syms m va = Some va))"

definition printing :: "u8 \<Rightarrow> u8 \<Rightarrow> pager_symbols \<Rightarrow> ('w, 'e) kernel_machine_scheme \<Rightarrow> bool" where
  "printing mm ms syms m \<longleftrightarrow>
     watched mm ms m \<and> mapped syms m \<and> cursor_ok Kernel64 (console m) \<and> (\<forall>i. irq_routines m i = None)"

lemma translate_cong:
  assumes "cr3 m' = cr3 m" and "tables syms m' = tables syms m"
  shows "translate syms m' = translate syms m"
  by (simp add: translate_def assms fun_eq_iff)

lemma shown_outside:
  assumes "shown t m m'" and "cursor_ok Kernel64 (console m)" and "0x08 \<notin> set t"
  shows "\<not> in_buffer Kernel64 a \<Longrightarrow> vmem (console m') a = vmem (console m) a"
    and "cursor_ok Kernel64 (console m')"
proof -
  note kept = text_outside [OF _ assms(2) home_safe_no_backspace [OF assms(3)]]
  have same: "shows_same (console m') (fold (putc Kernel64) t (console m))"
    unfolding shows_same_ports using shown_sel(1) [OF assms(1)] by blast
  show "vmem (console m') a = vmem (console m) a" if "\<not> in_buffer Kernel64 a"
    using kept [OF that] same by (simp add: shows_same_def)
  have "\<not> in_buffer Kernel64 0" by (simp add: in_buffer_def screenBuffer_def)
  from kept [OF this] show "cursor_ok Kernel64 (console m')"
    using same by (simp add: shows_same_def cursor_ok_def)
qed

lemma printing_shown:
  assumes "printing mm ms syms m" and "shown t m m'" and "watched mm ms m'" and "0x08 \<notin> set t"
  shows "printing mm ms syms m'"
proof -
  have cursor: "cursor_ok Kernel64 (console m)" using assms(1) by (simp add: printing_def)
  have "translate syms m' = translate syms m" by (rule translate_cong) (rule shown_sel [OF assms(2)])+
  then show ?thesis
    using assms(1,3) shown_outside(2) [OF assms(2) cursor assms(4)] shown_sel(2) [OF assms(2)]
    by (simp add: printing_def mapped_def)
qed

lemma say_shows:
  assumes "printing mm ms syms m" and "print Kernel64 fmt args m = Inr (show_text Kernel64 t m)" and "0x08 \<notin> set t"
  shows "\<exists>m'. say devices rs fmt args m = Inr m' \<and> shown t m m' \<and> printing mm ms syms m'"
proof -
  let ?m = "show_text Kernel64 t m"
  have ready: "watched mm ms m" "\<forall>i. irq_routines m i = None" using assms(1) by (simp_all add: printing_def)
  have "watched mm ms ?m"
    by (rule watched_display [OF ready(1)]) (simp_all add: show_text_def display_writes_text)
  moreover have "\<forall>i. irq_routines ?m i = None" using ready(2) by (simp add: show_text_def)
  ultimately obtain m' where m': "arrive devices rs ?m = Inr m'" "shown [] ?m m'" "watched mm ms m'"
    using arrive_idle by blast
  have "shown t m m'" using shown_trans [OF shown_text m'(2)] by simp
  then show ?thesis
    using m'(1,3) assms printing_shown [OF assms(1) \<open>shown t m m'\<close> m'(3)] by (auto simp: say_def)
qed

text \<open>The loads of \<^verbatim>\<open>main\<close>.\<close>

lemma load8_mapped:
  assumes "mapped syms m" and "params_at p q" and "unat k \<le> 16"
  shows "load8 syms (p + k) m = Inr (peek m (q + k))"
proof (cases "q = p \<and> unat p + 16 < 0x200000")
  case True
  then have "unat (p + k) = unat p + unat k" using assms(3) by (intro unat_plus_simple [THEN iffD1]) (simp add: no_olen_add_nat)
  then have "p + k < 0x200000" using True assms(3) by (simp add: word_less_nat_alt)
  then show ?thesis using True assms(1) by (simp add: load8_def mapped_def peek_def)
next
  case False
  then have p: "kernelPage \<le> p" "p \<le> - 17" "q = p - kernelPage" using assms(2) by (auto simp: params_at_def)
  have "unat (- 17 :: u64) = 2 ^ 64 - 17" by simp
  then have "unat p \<le> 2 ^ 64 - 17" using p(2) by (simp add: word_le_nat_alt)
  then have "unat p + unat k < 2 ^ 64" using assms(3) by simp
  then have "p \<le> p + k" by (simp add: no_olen_add_nat)
  then have "kernelPage \<le> p + k" using p(1) by (rule order_trans [rotated])
  moreover have "p + k - kernelPage = q + k" using p(3) by simp
  ultimately have "translate syms m (p + k) = Some (q + k)" using assms(1) by (metis mapped_def)
  then show ?thesis by (simp add: load8_def peek_def)
qed

lemma load_params:
  assumes "mapped syms m" and "params_at p q"
  shows "load_RegionCount syms p m = Inr (RegionCount q m)" and "load_BootDevice syms p m = Inr (BootDevice q m)"
  using load8_mapped [OF assms, of 0] load8_mapped [OF assms, of 1] load8_mapped [OF assms, of 2]
    load8_mapped [OF assms, of 3] load8_mapped [OF assms, of 16]
  by (simp_all add: load_RegionCount_def load_BootDevice_def RegionCount_def BootDevice_def)

lemma params_shown:
  assumes "shown t m m'" and "printing mm ms syms m" and "0x08 \<notin> set t" and "off_screen q"
  shows "RegionCount q m' = RegionCount q m" and "BootDevice q m' = BootDevice q m"
  using assms(2) by (intro params_cong [OF assms(4)] shown_outside(1) [OF assms(1) _ assms(3)]; simp add: printing_def)+

section \<open>What \<^verbatim>\<open>main\<close> prints\<close>

lemma signed_printable: "0x08 \<notin> set (signed_text 10 k)"
  by (simp add: signed_text_def digits_printable)

text \<open>The lines the kernel starts with.\<close>

definition device_line :: "u8 \<Rightarrow> u8 list" where
  "device_line d = bytes_of ''Boot device: 0x'' @ numeral_text 16 (unat d) @ [ch CHR ''\<newline>'']"

definition regions_line :: "int \<Rightarrow> u8 list" where
  "regions_line n = signed_text 10 n @ bytes_of '' regions'' @ [ch CHR ''\<newline>'']"

definition hello_line :: "u8 list" where
  "hello_line = bytes_of ''Hello world from the kernel!'' @ [ch CHR ''\<newline>'']"

lemma unat_promoted: "unat (ucast (ucast d :: u64) :: u32) = unat d" for d :: u8
proof -
  have "ucast (ucast d :: u64) = (ucast d :: u32)" by (rule bit_word_eqI) (simp add: bit_simps)
  then show ?thesis by simp
qed

lemma ucast_promoted: "ucast (ucast n :: u64) = n" for n :: u32
  by (rule bit_word_eqI) (simp add: bit_simps)

lemma print_lines:
  fixes d :: u8 and n :: i32
  shows
  "print Kernel64 (''Boot device: 0x%x'' @ [CHR ''\<newline>'']) [Bits (ucast d)] m = Inr (show_text Kernel64 (device_line d) m)"
  "print Kernel64 (''%i regions'' @ [CHR ''\<newline>'']) [Bits (ucast n)] m = Inr (show_text Kernel64 (regions_line (sint n)) m)"
  "print Kernel64 (''Hello world from the kernel!'' @ [CHR ''\<newline>'']) [] m = Inr (show_text Kernel64 hello_line m)"
  by ((rule print_renders; simp add: device_line_def regions_line_def hello_line_def radix_of_def unsigned_arg_def
      signed_arg_def unat_promoted ucast_promoted))+


lemma clrscr_result:
  assumes "\<not> in_buffer Kernel64 a"
  shows "vmem (clrscr Kernel64 s) a = vmem s a" and "cursor_ok Kernel64 (clrscr Kernel64 s)"
  using fold_cell_put_outside [OF assms row_cells_on_screen [OF le_refl], of "\<lambda>i s. blank i" 0 s]
  by (simp_all add: clrscr_def Let_def blank_loop cursor_ok_def)

text \<open>The text \<^verbatim>\<open>main\<close> shows.\<close>

definition start_text :: "u8 \<Rightarrow> i32 \<Rightarrow> u8 list" where
  "start_text d n = device_line d @ regions_line (sint n) @ replicate (nat (sint n)) (ch CHR ''!'') @ hello_line"

lemma start_lines_printable: "0x08 \<notin> set (device_line d)" "0x08 \<notin> set (regions_line k)"
  by (simp_all add: device_line_def regions_line_def digits_printable signed_printable)

lemma start_text_no_backspace: "0x08 \<notin> set (start_text d n)"
  by (simp add: start_text_def start_lines_printable hello_line_def)

lemma region_marks_shows:
  assumes "params_at p q" and "off_screen q" and "printing mm ms syms m"
    and "sint i \<le> max 0 (sint (RegionCount q m))" and "0 \<le> sint i"
  shows "\<exists>m'. region_marks devices syms arrivals p i m = Inr m' \<and>
    shown (replicate (nat (sint (RegionCount q m)) - nat (sint i)) (ch CHR ''!'')) m m' \<and> printing mm ms syms m'"
  using assms(3-5)
proof (induction "nat (sint (RegionCount q m)) - nat (sint i)" arbitrary: i m)
  case 0
  have "load_RegionCount syms p m = Inr (RegionCount q m)"
    using 0 by (intro load_params [OF _ assms(1)]) (simp add: printing_def)
  moreover have "\<not> i <s RegionCount q m" using 0 by (simp add: word_sless_alt)
  ultimately show ?case using 0 by (simp add: region_marks.simps [of devices syms arrivals p i m] shown_refl)
next
  case (Suc k)
  let ?n = "RegionCount q m"
  have load: "load_RegionCount syms p m = Inr ?n"
    using Suc.prems(1) by (intro load_params [OF _ assms(1)]) (simp add: printing_def)
  have less: "i <s ?n" using Suc.hyps(2) by (simp add: word_sless_alt)
  note inc = sint_inc [OF less]
  have "print Kernel64 ''!'' [] m = Inr (show_text Kernel64 [ch CHR ''!''] m)" by (rule print_renders) simp_all
  then obtain m1 where m1: "say devices (arrivals (AfterMark i)) ''!'' [] m = Inr m1" "shown [ch CHR ''!''] m m1"
      "printing mm ms syms m1"
    using say_shows [OF Suc.prems(1)] by fastforce
  have n: "RegionCount q m1 = ?n" using Suc.prems(1) by (intro params_shown [OF m1(2) _ _ assms(2)]) simp_all
  have left: "nat (sint ?n) - nat (sint i) = Suc (nat (sint ?n) - nat (sint (i + 1)))"
    using inc less Suc.prems(3) by (simp add: word_sless_alt)
  obtain m2 where m2: "region_marks devices syms arrivals p (i + 1) m1 = Inr m2"
      "shown (replicate (nat (sint ?n) - nat (sint (i + 1))) (ch CHR ''!'')) m1 m2" "printing mm ms syms m2"
    using Suc.hyps(1) [of m1 "i + 1"] Suc.hyps(2) Suc.prems(2,3) m1(3) n left inc less
    by (auto simp: word_sless_alt)
  have "shown (replicate (nat (sint ?n) - nat (sint i)) (ch CHR ''!'')) m m2"
    using shown_trans [OF m1(2) m2(2)] left by simp
  moreover have "region_marks devices syms arrivals p i m = Inr m2"
    using less m1(1) m2(1) by (simp add: region_marks.simps [of devices syms arrivals p i m] load)
  ultimately show ?case using m2(3) by blast
qed

lemma hello_printable: "0x08 \<notin> set hello_line" "0x08 \<notin> set (replicate k (ch CHR ''!''))"
  by (simp_all add: hello_line_def)

lemma main_prints_shows:
  assumes "params_at p q" and "off_screen q" and "printing mm ms syms m"
  shows "\<exists>m'. main_prints devices syms arrivals p m = initKeyboard m' \<and>
    shown (start_text (BootDevice q m) (RegionCount q m)) m m' \<and> printing mm ms syms m'"
proof -
  let ?d = "BootDevice q m" and ?n = "RegionCount q m"
  have load: "load_RegionCount syms p x = Inr (RegionCount q x)" "load_BootDevice syms p x = Inr (BootDevice q x)"
    if "printing mm ms syms x" for x :: "('a, 'b) kernel_machine_scheme"
    using that by (intro load_params [OF _ assms(1)]; simp add: printing_def)+
  note same = params_shown(1) [OF _ _ _ assms(2)]
  obtain m1 where m1: "say devices (arrivals AfterDevice) (''Boot device: 0x%x'' @ [CHR ''\<newline>'']) [Bits (ucast ?d)] m = Inr m1"
      "shown (device_line ?d) m m1" "printing mm ms syms m1"
    using say_shows [OF assms(3) print_lines(1) start_lines_printable(1)] by blast
  have n1: "RegionCount q m1 = ?n" by (rule same [OF m1(2) assms(3) start_lines_printable(1)])
  obtain m2 where m2: "say devices (arrivals AfterRegions) (''%i regions'' @ [CHR ''\<newline>'']) [Bits (ucast ?n)] m1 = Inr m2"
      "shown (regions_line (sint ?n)) m1 m2" "printing mm ms syms m2"
    using say_shows [OF m1(3) print_lines(2) start_lines_printable(2)] by blast
  have n2: "RegionCount q m2 = ?n" using same [OF m2(2) m1(3) start_lines_printable(2)] n1 by simp
  obtain m3 where m3: "region_marks devices syms arrivals p 0 m2 = Inr m3"
      "shown (replicate (nat (sint ?n)) (ch CHR ''!'')) m2 m3" "printing mm ms syms m3"
    using region_marks_shows [OF assms(1,2) m2(3), of 0] n2 by auto
  obtain m4 where m4: "say devices (arrivals AfterHello) (''Hello world from the kernel!'' @ [CHR ''\<newline>'']) [] m3 = Inr m4"
      "shown hello_line m3 m4" "printing mm ms syms m4"
    using say_shows [OF m3(3) print_lines(3) hello_printable(1)] by blast
  have "shown (start_text ?d ?n) m m4"
    using shown_trans [OF m1(2) shown_trans [OF m2(2) shown_trans [OF m3(2) m4(2)]]] by (simp add: start_text_def)
  moreover have "main_prints devices syms arrivals p m = initKeyboard m4"
    unfolding main_prints_def
    by (simp only: load [OF assms(3)] load(1) [OF m1(3)] n1 m1(1) m2(1) m3(1) m4(1) bindE_simps)
  ultimately show ?thesis using m4(3) by blast
qed

lemma initKeyboard_eq:
  "initKeyboard m = Inr (m \<lparr> capsOn := False, irq_routines := (irq_routines m)(1 := Some KeyboardHandler) \<rparr>)"
  by (simp add: initKeyboard_def irq_install_handler_def irq_slots_def)

lemma init_pics_writes:
  assumes "devices MASTER_DATA (world m) = (mm, w)" and "devices MASTER_DATA w = (ms, w')"
  shows "\<exists>ws. ports (console (init_pics devices m)) = ws @ ports (console m) \<and> (\<forall>ps. foldr pics_write ws ps = programmed mm ms)"
proof -
  let ?ws = "[(SLAVE_DATA, ms), (MASTER_DATA, mm), (SLAVE_DATA, 0x01), (MASTER_DATA, 0x01), (SLAVE_DATA, 0x02),
    (MASTER_DATA, 0x04), (SLAVE_DATA, 0x28), (MASTER_DATA, 0x20), (SLAVE_COMMS, 0x11), (MASTER_COMMS, 0x11)]"
  have "foldr pics_write ?ws ps = programmed mm ms" for ps
    by (cases ps) (simp add: programmed_def pic_ports pic_command_def pic_data_def)
  moreover have "ports (console (init_pics devices m)) = ?ws @ ports (console m)"
    using assms by (simp add: init_pics_def inb_def port_out_def outb_def Let_def)
  ultimately show ?thesis by blast
qed

lemma initIDT_watched:
  assumes "devices MASTER_DATA (world m) = (mm, w)" and "devices MASTER_DATA w = (ms, w')"
    and "seen m \<le> length (ports (console m))"
  shows "watched mm ms (initIDT devices syms m)"
proof -
  let ?ptr = "\<lparr> idt_limit = 256 * 16 - 1, idt_offset = addr_idt_entries syms \<rparr>"
  let ?m = "m \<lparr> idt_ptr := ?ptr, idt_entries := (\<lambda>i. zero_idt_entry) \<rparr>"
  obtain e w1 c where init: "init_pics devices ?m = ?m \<lparr> world := w1, console := c \<rparr>"
      "initIDT devices syms m = m \<lparr> idt_ptr := ?ptr, idt_entries := e, world := w1, console := c, idtr := ?ptr, interrupts_on := True \<rparr>"
    using initIDT_result [where devices = devices and m = m and syms = syms] by (elim exE conjE)
  obtain ws where ws: "ports (console (init_pics devices ?m)) = ws @ ports (console ?m)"
      "\<forall>ps. foldr pics_write ws ps = programmed mm ms"
    using init_pics_writes [of devices ?m mm w ms w'] assms(1,2) by auto
  have "ports c = ws @ ports (console m)" using ws(1) unfolding init(1) by simp
  then have "ports (console (initIDT devices syms m)) = ws @ ports (console m)" "pics (initIDT devices syms m) = pics m"
    "seen (initIDT devices syms m) = seen m" unfolding init(2) by simp_all
  from controllers_writes [OF assms(3) this] show ?thesis using ws(2) by (simp add: watched_def)
qed

section \<open>The start of the kernel\<close>

text \<open>What the processor finds in the tables of the machine, whatever else its state is.\<close>

definition tables_ready :: "kernel_symbols \<Rightarrow> ('w, 'e) pit_machine_scheme \<Rightarrow> bool" where
  "tables_ready syms m \<longleftrightarrow>
     gdtr m = \<lparr> ptr_limit = 47, ptr_base = addr_gdt_entries (gdt_syms syms) \<rparr> \<and> code_segment m = 0x8 \<and>
     map (\<lambda>i. descriptor (gdt_entries m i)) [0, 1, 2, 3, 4] = kernel_descriptors \<and>
     idtr m = \<lparr> idt_limit = 256 * 16 - 1, idt_offset = addr_idt_entries (idt_syms syms) \<rparr> \<and>
     (\<forall>v. gate (idt_entries m v) = (case stub_of (idt_syms syms) v of Some a \<Rightarrow> (a, 8, 0, 0x8E) | None \<Rightarrow> (0, 0, 0, 0))) \<and>
     (\<forall>va. (kernelPage \<le> va \<longrightarrow> translate (pager_syms syms) m va = Some (va - kernelPage)) \<and>
       (va < 0x200000 \<longrightarrow> translate (pager_syms syms) m va = Some va))"

lemma tables_ready_shown:
  assumes "shown t m m'"
  shows "tables_ready syms m' \<longleftrightarrow> tables_ready syms m"
proof -
  have "translate (pager_syms syms) m' = translate (pager_syms syms) m"
    by (rule translate_cong) (rule shown_sel [OF assms])+
  then show ?thesis by (simp add: tables_ready_def shown_sel [OF assms])
qed

text \<open>What is installed once \<^verbatim>\<open>main\<close> has started.\<close>

definition keyboard_only :: "nat \<Rightarrow> routine option" where
  "keyboard_only = (\<lambda>_. None)(1 := Some KeyboardHandler)"

text \<open>
  The machine \<^verbatim>\<open>main\<close> is entered with: no routine is installed, the record of the controllers is one of
  writes that were made, and the two reads of the master's mask yield \<open>mm\<close> and \<open>ms\<close>.
\<close>

definition fresh_kernel ::
  "(u16 \<Rightarrow> 'w \<Rightarrow> u8 \<times> 'w) \<Rightarrow> u8 \<Rightarrow> u8 \<Rightarrow> ('w, 'e) kernel_machine_scheme \<Rightarrow> bool" where
  "fresh_kernel devices mm ms m \<longleftrightarrow>
     irq_routines m = (\<lambda>_. None) \<and> seen m \<le> length (ports (console m)) \<and>
     mm = fst (devices MASTER_DATA (world m)) \<and>
     ms = fst (devices MASTER_DATA (snd (devices MASTER_DATA (world m))))"

text \<open>Where the linker may put the four tables: at the start of different pages of the kernel's gigabyte.\<close>

definition tables_placed :: "pager_symbols \<Rightarrow> bool" where
  "tables_placed syms \<longleftrightarrow> distinct (table_addrs syms) \<and> list_all page_aligned (table_addrs syms)"

lemma kernel_main_tables:
  assumes "fresh_kernel devices mm ms m" and "tables_placed (pager_syms syms)"
  shows "\<exists>m' ps. kernel_main devices syms arrivals p m = main_prints devices (pager_syms syms) arrivals p m' \<and>
    console m' = clrscr Kernel64 (console m) \<lparr> ports := ps \<rparr> \<and> printing mm ms (pager_syms syms) m' \<and>
    tables_ready syms m' \<and> interrupts_on m' \<and>
    ((\<forall>i. 1 \<le> i \<and> i < 512 \<longrightarrow> \<not> bit (basePageDir m i) 0) \<longrightarrow>
      (\<forall>va. 0x200000 \<le> va \<and> va < 0x40000000 \<longrightarrow> translate (pager_syms syms) m' va = None))"
proof -
  note placed = assms(2) [unfolded tables_placed_def, THEN conjunct1] assms(2) [unfolded tables_placed_def, THEN conjunct2]
  let ?s = "clrscr Kernel64 (console m)"
  let ?gp = "\<lparr> ptr_limit = 47, ptr_base = addr_gdt_entries (gdt_syms syms) \<rparr>"
  let ?ip = "\<lparr> idt_limit = 256 * 16 - 1, idt_offset = addr_idt_entries (idt_syms syms) \<rparr>"
  define ma where "ma = m \<lparr> console := ?s \<rparr>"
  obtain ge where gdt: "initGDT (gdt_syms syms) ma = Inr (ma \<lparr> gdt_ptr := ?gp, gdt_entries := ge, gdtr := ?gp,
        data_segments := 0x10, code_segment := 0x8 \<rparr>)"
      and ge: "map (\<lambda>i. descriptor (ge i)) [0, 1, 2, 3, 4] = kernel_descriptors"
    using initGDT_result [where m = ma and syms = "gdt_syms syms"] by (elim exE conjE)
  define mb where "mb = ma \<lparr> gdt_ptr := ?gp, gdt_entries := ge, gdtr := ?gp, data_segments := 0x10, code_segment := 0x8 \<rparr>"
  define mc where "mc = initIDT devices (idt_syms syms) mb"
  obtain ie w c where c: "vmem c = vmem (console mb)" "screenX c = screenX (console mb)" "screenY c = screenY (console mb)"
      and mc: "mc = mb \<lparr> idt_ptr := ?ip, idt_entries := ie, world := w, console := c, idtr := ?ip, interrupts_on := True \<rparr>"
      and ie: "\<forall>v. gate (ie v) = (case stub_of (idt_syms syms) v of Some a \<Rightarrow> (a, 8, 0, 0x8E) | None \<Rightarrow> (0, 0, 0, 0))"
    using initIDT_result [where m = mb and syms = "idt_syms syms" and devices = devices] unfolding mc_def by (elim exE conjE)
  have mb: "world mb = world m" "irq_routines mb = (\<lambda>_. None)" "seen mb \<le> length (ports (console mb))"
    using assms(1) display_writes_clrscr [of "console m" Kernel64]
    by (auto simp: mb_def ma_def fresh_kernel_def display_writes_def)
  have "watched mm ms mc"
    unfolding mc_def using assms(1) mb by (intro initIDT_watched) (auto simp: fresh_kernel_def prod_eq_iff)
  moreover have "\<forall>i. irq_routines mc i = None" using mb(2) by (simp add: mc)
  ultimately obtain md where md: "arrive devices (arrivals AfterIDT) mc = Inr md" "shown [] mc md" "watched mm ms md"
    using arrive_idle by blast
  define me where "me = initPaging (pager_syms syms) md"
  obtain t where me: "me = md \<lparr>
    pml4 := (pml4 md)(0 := getAddress (addr_pageDirTab (pager_syms syms)) OR 1, 511 := getAddress (addr_pageDirTab (pager_syms syms)) OR 1),
    pageDirTab := (pageDirTab md)(0 := getAddress (addr_basePageDir (pager_syms syms)) OR 1, 511 := getAddress (addr_kernelPageDir (pager_syms syms)) OR 1),
    basePageDir := (basePageDir md)(0 := 0x83), kernelPageDir := t, cr3 := getAddress (addr_pml4 (pager_syms syms)) \<rparr>"
    using initPaging_frame [of "pager_syms syms" md] unfolding me_def by (elim exE conjE)
  have "watched mm ms me" using md(3) by (simp add: watched_def controllers_def me)
  moreover have "\<forall>i. irq_routines me i = None" using mb(2) shown_sel(2) [OF md(2)] by (simp add: mc me)
  ultimately obtain mf where mf: "arrive devices (arrivals AfterPaging) me = Inr mf" "shown [] me mf" "watched mm ms mf"
    using arrive_idle by blast
  have run: "kernel_main devices syms arrivals p m = main_prints devices (pager_syms syms) arrivals p mf"
    by (simp only: kernel_main_def Let_def ma_def [symmetric] gdt mb_def [symmetric] bindE_simps mc_def [symmetric]
      md(1) me_def [symmetric] mf(1))
  have "shows_same c ?s" using c by (simp add: shows_same_def mb_def ma_def)
  moreover have "shows_same (console mf) c"
    using shown_same [OF mf(2)] shown_same [OF md(2)] by (simp add: shows_same_def me mc)
  ultimately have console: "shows_same (console mf) ?s" by (simp add: shows_same_def)
  have nb: "\<not> in_buffer Kernel64 0" by (simp add: in_buffer_def screenBuffer_def)
  have cursor: "cursor_ok Kernel64 (console mf)"
    using clrscr_result(2) [OF nb, of "console m"] console by (simp add: shows_same_def cursor_ok_def)
  have trans: "translate (pager_syms syms) mf = translate (pager_syms syms) me"
    by (rule translate_cong) (rule shown_sel [OF mf(2)])+
  note after = initPaging_translation [OF placed, of _ md, folded me_def, folded trans]
  have "tables_ready syms mf"
    unfolding tables_ready_shown [OF mf(2)] using after ge ie
    by (simp add: tables_ready_def me shown_sel [OF md(2)] mc mb_def trans del: list.map)
  moreover have "translate (pager_syms syms) mf va = None"
    if "\<forall>i. 1 \<le> i \<and> i < 512 \<longrightarrow> \<not> bit (basePageDir m i) 0" "0x200000 \<le> va" "va < 0x40000000" for va
  proof -
    have "basePageDir md = basePageDir m" using shown_sel [OF md(2)] by (simp add: mc mb_def ma_def)
    then show ?thesis
      using initPaging_unmapped [OF placed, of md va] that by (simp only: trans me_def)
  qed
  moreover have "interrupts_on mf" using shown_sel(3) [OF mf(2)] shown_sel(3) [OF md(2)] by (simp add: me mc)
  moreover have "irq_routines mf = (\<lambda>_. None)" using mb(2) shown_sel(2) [OF mf(2)] shown_sel(2) [OF md(2)] by (simp add: mc me)
  ultimately show ?thesis
    using run console mf(3) cursor after
    by (intro exI [of _ mf]) (auto simp: shows_same_ports printing_def mapped_def)
qed

lemma kernel_main_result:
  assumes "fresh_kernel devices mm ms m" and "tables_placed (pager_syms syms)" and "params_at p q" and "off_screen q"
  shows "\<exists>m' ps. kernel_main devices syms arrivals p m = Inr m' \<and>
    console m' = fold (putc Kernel64) (start_text (BootDevice q m) (RegionCount q m)) (clrscr Kernel64 (console m)) \<lparr> ports := ps \<rparr> \<and>
    tables_ready syms m' \<and> interrupts_on m' \<and> irq_routines m' = keyboard_only \<and> \<not> capsOn m' \<and> watched mm ms m'"
proof -
  obtain ma ps where ma: "kernel_main devices syms arrivals p m = main_prints devices (pager_syms syms) arrivals p ma"
      "console ma = clrscr Kernel64 (console m) \<lparr> ports := ps \<rparr>" "printing mm ms (pager_syms syms) ma"
      "tables_ready syms ma" "interrupts_on ma"
    using kernel_main_tables [OF assms(1,2), of arrivals p] by (elim exE conjE)
  obtain mb where mb: "main_prints devices (pager_syms syms) arrivals p ma = initKeyboard mb"
      "shown (start_text (BootDevice q ma) (RegionCount q ma)) ma mb" "printing mm ms (pager_syms syms) mb"
    using main_prints_shows [OF assms(3,4) ma(3)] by blast
  have params: "RegionCount q ma = RegionCount q m" "BootDevice q ma = BootDevice q m"
    by (rule params_cong [OF assms(4)]; simp add: ma(2) clrscr_result(1))+
  let ?t = "start_text (BootDevice q m) (RegionCount q m)"
  let ?m = "mb \<lparr> capsOn := False, irq_routines := (irq_routines mb)(1 := Some KeyboardHandler) \<rparr>"
  have "shows_same (console mb) (fold (putc Kernel64) ?t (console ma))"
    using shown_sel(1) [OF mb(2)] unfolding params shows_same_ports by blast
  moreover have "shows_same (console ma) (clrscr Kernel64 (console m))" by (simp add: ma(2) shows_same_def)
  note text_same [OF this, of Kernel64 ?t]
  ultimately have "shows_same (console ?m) (fold (putc Kernel64) ?t (clrscr Kernel64 (console m)))"
    by (simp add: shows_same_def)
  then obtain ps' where "console ?m = fold (putc Kernel64) ?t (clrscr Kernel64 (console m)) \<lparr> ports := ps' \<rparr>"
    by (auto simp: shows_same_ports)
  moreover have "tables_ready syms mb" using tables_ready_shown [OF mb(2)] ma(4) by blast
  then have "tables_ready syms ?m"
    using translate_cong [of ?m mb "pager_syms syms"] by (simp add: tables_ready_def tables_def)
  moreover have "interrupts_on ?m" using shown_sel(3) [OF mb(2)] ma(5) by simp
  moreover have "irq_routines ?m = keyboard_only"
    using mb(3) by (auto simp: printing_def keyboard_only_def)
  moreover have "watched mm ms ?m" using mb(3) by (simp add: printing_def watched_def controllers_def)
  ultimately show ?thesis
    using ma(1) mb(1) by (intro exI [of _ ?m] exI [of _ ps']) (simp add: initKeyboard_eq)
qed


text \<open>
  C9: Let \<^verbatim>\<open>main\<close> be entered with no interrupt routine installed, and let the linker have put the four page
  tables at the start of different pages.  If the boot parameters are mapped by the tables of
  \<^verbatim>\<open>initPaging\<close> (below 2 MiB, or in the kernel's gigabyte) and off the screen, then \<^verbatim>\<open>main\<close> reaches its
  last loop, whatever interrupt requests arrive after its statements: the screen has been cleared and
  shows the boot device, the number of regions, as many exclamation marks and the greeting; the
  processor reads the tables of \<^verbatim>\<open>initGDT\<close>, \<^verbatim>\<open>initIDT\<close> and \<^verbatim>\<open>initPaging\<close>; interrupts are on, the
  controllers have nothing in service, and request 1 goes to the keyboard driver.  If the parameters
  are between 2 MiB and 1 GiB, which the tables of the boot loader map and those of \<^verbatim>\<open>initPaging\<close> do
  not, then \<^verbatim>\<open>main\<close> faults when it reads the boot device.
\<close>

theorem kernel_main_starts:
  assumes "fresh_kernel devices mm ms m" and "tables_placed (pager_syms syms)"
  shows "(params_at p q \<and> off_screen q \<longrightarrow>
      (\<exists>m' ps. kernel_main devices syms arrivals p m = Inr m' \<and>
        console m' = fold (putc Kernel64) (start_text (BootDevice q m) (RegionCount q m)) (clrscr Kernel64 (console m)) \<lparr> ports := ps \<rparr> \<and>
        tables_ready syms m' \<and> interrupts_on m' \<and> irq_routines m' = keyboard_only \<and> \<not> capsOn m' \<and>
        controllers m' = programmed mm ms)) \<and>
    ((\<forall>i. 1 \<le> i \<and> i < 512 \<longrightarrow> \<not> bit (basePageDir m i) 0) \<and> 0x200000 \<le> p + 16 \<and> p + 16 < 0x40000000 \<longrightarrow>
      kernel_main devices syms arrivals p m = Inl PageFault)"
proof (intro conjI impI)
  assume "params_at p q \<and> off_screen q"
  then show "\<exists>m' ps. kernel_main devices syms arrivals p m = Inr m' \<and>
      console m' = fold (putc Kernel64) (start_text (BootDevice q m) (RegionCount q m)) (clrscr Kernel64 (console m)) \<lparr> ports := ps \<rparr> \<and>
      tables_ready syms m' \<and> interrupts_on m' \<and> irq_routines m' = keyboard_only \<and> \<not> capsOn m' \<and>
      controllers m' = programmed mm ms"
    using kernel_main_result [OF assms, of p q arrivals] unfolding watched_def by blast
next
  assume high: "(\<forall>i. 1 \<le> i \<and> i < 512 \<longrightarrow> \<not> bit (basePageDir m i) 0) \<and> 0x200000 \<le> p + 16 \<and> p + 16 < 0x40000000"
  then obtain ma where "kernel_main devices syms arrivals p m = main_prints devices (pager_syms syms) arrivals p ma"
      "translate (pager_syms syms) ma (p + 16) = None"
    using kernel_main_tables [OF assms, of arrivals p] by blast
  then show "kernel_main devices syms arrivals p m = Inl PageFault"
    by (simp add: main_prints_def load_BootDevice_def load8_def)
qed

definition kernel_image :: kernel_symbols where
  "kernel_image = \<lparr> gdt_syms = \<lparr> addr_gdt_entries = 0xffffffffc0104000, addr_tss_entry = 0xffffffffc0105000 \<rparr>,
     idt_syms = \<lparr> addr_idt_entries = 0xffffffffc0106000, addr_isr = (\<lambda>n. 0xffffffffc0101000 + 16 * of_nat n),
       addr_isq = (\<lambda>i. 0xffffffffc0102000 + 16 * of_nat i) \<rparr>,
     pager_syms = kernel_tables \<rparr>"

lemma kernel_image_ok: "tables_placed (pager_syms kernel_image)"
  by (simp add: tables_placed_def kernel_image_def kernel_tables_def table_addrs_def page_aligned_def getAddress_def kernelPage_def)

definition blank_kernel_machine :: "'w \<Rightarrow> 'w kernel_machine" where
  "blank_kernel_machine w = pit_machine.extend (blank_pit_machine w) \<lparr> pics = (fresh_pic, fresh_pic), seen = 0 \<rparr>"

lemma blank_kernel_machine_sel [simp]:
  "console (blank_kernel_machine w) = blank_console" "world (blank_kernel_machine w) = w"
  "irq_routines (blank_kernel_machine w) = (\<lambda>_. None)" "basePageDir (blank_kernel_machine w) = (\<lambda>_. 0)"
  "seen (blank_kernel_machine w) = 0"
  by (simp_all add: blank_kernel_machine_def blank_pit_machine_def blank_keyboard_machine_def blank_pager_machine_def
      blank_idt_machine_def blank_gdt_machine_def pit_machine.defs keyboard_machine.defs pager_machine.defs
      idt_machine.defs gdt_machine.defs)

lemma fresh_blank: "fresh_kernel (\<lambda>port w. (v port, w)) (v 0x21) (v 0x21) (blank_kernel_machine w)"
  by (simp add: fresh_kernel_def MASTER_DATA_def)

lemma low_params: "params_at 0x9000 0x9000" "off_screen 0x9000"
  by (simp_all add: params_at_def off_screen_def in_buffer_def screenBuffer_def)

text \<open>A program that is interrupted, and a request of the slave's line 8 after each statement of \<^verbatim>\<open>main\<close>.\<close>

definition some_regs :: cpu_regs where
  "some_regs = \<lparr> RAX = 1, RBX = 2, RCX = 3, RDX = 4, RSP = 0x7000,
     scratch = \<lparr> RDI = 5, RSI = 6, R8 = 8, R9 = 9, R10 = 10, R11 = 11 \<rparr> \<rparr>"

definition at_main :: interrupted where
  "at_main = \<lparr> at_regs = some_regs, at_frame = \<lparr> f_rip = 0xffffffffc0101000, f_cs = 8, f_rflags = 0x202, f_rsp = 0x7030, f_ss = 0x10 \<rparr>,
     at_stack = [], leaves = (\<lambda>s. s \<lparr> R11 := 0 \<rparr>) \<rparr>"

definition clock_arrivals :: arrivals where
  "clock_arrivals pt = [(8, at_main)]"

theorem kernel_main_starts_witness:
  "(\<exists>m' ps. kernel_main (\<lambda>port w. (0, w)) kernel_image clock_arrivals 0x9000 (blank_kernel_machine ()) = Inr m' \<and>
    console m' = fold (putc Kernel64) (start_text (BootDevice 0x9000 (blank_kernel_machine ())) (RegionCount 0x9000 (blank_kernel_machine ())))
      (clrscr Kernel64 blank_console) \<lparr> ports := ps \<rparr> \<and>
    tables_ready kernel_image m' \<and> interrupts_on m' \<and> irq_routines m' = keyboard_only \<and> \<not> capsOn m' \<and>
    controllers m' = programmed 0 0) \<and>
   kernel_main (\<lambda>port w. (0, w)) kernel_image clock_arrivals 0x300000 (blank_kernel_machine ()) = Inl PageFault"
  using kernel_main_starts [OF fresh_blank [of "\<lambda>_. 0" "()"] kernel_image_ok, of "0x9000" "0x9000" clock_arrivals]
    kernel_main_starts [OF fresh_blank [of "\<lambda>_. 0" "()"] kernel_image_ok, of "0x300000" _ clock_arrivals] low_params
  by simp

section \<open>The kernel at work\<close>

text \<open>What can happen to the machine in the last loop of \<^verbatim>\<open>main\<close>.\<close>

inductive kernel_step ::
  "(u16 \<Rightarrow> 'w \<Rightarrow> u8 \<times> 'w) \<Rightarrow> ('w, 'e) kernel_machine_scheme \<Rightarrow> ('w, 'e) kernel_machine_scheme \<Rightarrow> bool"
  for devices where
  exception: "isr_common_stub left n r (cpu_push n err f stack) m = Inr (r', stack', m') \<Longrightarrow> kernel_step devices m m'"
| request: "interrupts_on m \<Longrightarrow> accepts i (controllers m) \<Longrightarrow> take_request devices i c m = Inr (r', stack', m') \<Longrightarrow>
    kernel_step devices m m'"
| device: "kernel_step devices m (m \<lparr> world := w \<rparr>)"

text \<open>What every step keeps.\<close>

definition at_work :: "kernel_symbols \<Rightarrow> u8 \<Rightarrow> u8 \<Rightarrow> ('w, 'e) kernel_machine_scheme \<Rightarrow> bool" where
  "at_work syms mm ms m \<longleftrightarrow>
     tables_ready syms m \<and> interrupts_on m \<and> irq_routines m = keyboard_only \<and> watched mm ms m"

lemma tables_ready_frame:
  "tables_ready syms (m \<lparr> world := w, capsOn := b, console := c, pics := pc, seen := k \<rparr>) \<longleftrightarrow> tables_ready syms m"
proof -
  have "translate (pager_syms syms) (m \<lparr> world := w, capsOn := b, console := c, pics := pc, seen := k \<rparr>) = translate (pager_syms syms) m"
    by (rule translate_cong) (simp_all add: tables_def)
  then show ?thesis by (simp add: tables_ready_def)
qed

text \<open>Of the texts the keyboard driver puts only that of the backspace key has a backspace.\<close>

lemma typed_backspace: "0x08 \<notin> set (typed shift code) \<or> typed shift code = [0x08]"
proof -
  have "0x08 \<notin> set (map ascii numShiftMap)" by (simp add: numShiftMap_def scancodes_def)
  then have "0x08 \<notin> set (map ascii (filter P numShiftMap))" for P by auto
  then show ?thesis by (auto simp: typed_def)
qed

lemma keyboardHandler_shows:
  "\<exists>t w b. (t = [0x08] \<or> 0x08 \<notin> set t) \<and> keyboardHandler devices regs m = show_text Kernel64 t (m \<lparr> world := w, capsOn := b \<rparr>)"
proof -
  obtain v w v' w' where reads: "devices KEYBOARD_IN (world m) = (v, w)" "devices KEYBOARD_IN w = (v', w')"
    by (metis surj_pair)
  let ?code = "v AND 0x7F" and ?pressed = "v' AND 0x80 = 0"
  have "keyboardHandler devices regs m = show_text Kernel64
      (if shift_key ?code \<or> \<not> ?pressed then [] else typed (capsOn m) ?code)
      (m \<lparr> world := w', capsOn := (if shift_key ?code then ?pressed else capsOn m) \<rparr>)"
    using keyboardHandler_eq [of devices m v w v' w' regs, OF reads] by (simp add: Let_def show_text_def)
  moreover have "u = [0x08] \<or> 0x08 \<notin> set u" if "u = (if shift_key ?code \<or> \<not> ?pressed then [] else typed (capsOn m) ?code)" for u
    using that typed_backspace [of "capsOn m" ?code] by (cases "shift_key ?code \<or> \<not> ?pressed") auto
  ultimately show ?thesis by blast
qed

lemma take_request_works:
  fixes c :: interrupted
  assumes "at_work syms mm ms m" and "i < 16"
  shows "\<exists>m'. take_request devices i c m =
      Inr (at_regs c \<lparr> scratch := leaves c (scratch (at_regs c) \<lparr> RDI := RSP (at_regs c) - 48 \<rparr>) \<rparr>,
        frame_words (at_frame c) @ at_stack c, m') \<and> at_work syms mm ms m' \<and>
    (\<exists>t. shows_same (console m') (fold (putc Kernel64) t (console m)) \<and> (t = [0x08] \<and> i = 1 \<or> 0x08 \<notin> set t))"
proof -
  let ?m = "m \<lparr> pics := accept i (controllers m), seen := length (ports (console m)) \<rparr>"
  have ready: "tables_ready syms m" "interrupts_on m" "irq_routines m = keyboard_only" "watched mm ms m"
    using assms(1) by (simp_all add: at_work_def)
  obtain regs where eq: "take_request devices i c m =
    bindE (case irq_routines m i of None \<Rightarrow> Inr ?m | Some handler \<Rightarrow> call_routine devices handler regs ?m)
      (\<lambda>m. Inr (at_regs c \<lparr> scratch := leaves c (scratch (at_regs c) \<lparr> RDI := RSP (at_regs c) - 48 \<rparr>) \<rparr>,
        frame_words (at_frame c) @ at_stack c, m \<lparr> console := console m \<lparr> ports := eoi_writes i @ ports (console m) \<rparr> \<rparr>))"
    using take_request_eq [OF assms(2), of devices c m] by (elim exE)
  have "\<exists>t w b. (t = [0x08] \<and> i = 1 \<or> 0x08 \<notin> set t) \<and>
      (case irq_routines m i of None \<Rightarrow> Inr ?m | Some handler \<Rightarrow> call_routine devices handler regs ?m) =
        Inr (show_text Kernel64 t (?m \<lparr> world := w, capsOn := b \<rparr>))"
  proof (cases "i = 1")
    case True
    then show ?thesis using keyboardHandler_shows [of devices regs ?m] by (simp add: ready(3) keyboard_only_def)
  next
    case False
    have "?m = show_text Kernel64 [] (?m \<lparr> world := world m, capsOn := capsOn m \<rparr>)" by (simp add: show_text_def)
    moreover have "irq_routines m i = None" using False by (simp add: ready(3) keyboard_only_def)
    ultimately show ?thesis by (intro exI [of _ "[]"] exI [of _ "world m"] exI [of _ "capsOn m"]) simp
  qed
  then obtain t w b where put: "t = [0x08] \<and> i = 1 \<or> 0x08 \<notin> set t" and run: "(case irq_routines m i of None \<Rightarrow> Inr ?m | Some handler \<Rightarrow> call_routine devices handler regs ?m) =
      Inr (show_text Kernel64 t (?m \<lparr> world := w, capsOn := b \<rparr>))" by (elim exE conjE)
  let ?h = "show_text Kernel64 t (?m \<lparr> world := w, capsOn := b \<rparr>)"
  let ?m' = "?h \<lparr> console := console ?h \<lparr> ports := eoi_writes i @ ports (console ?h) \<rparr> \<rparr>"
  have "watched mm ms ?m'"
    by (rule watched_eoi [OF ready(4) assms(2)]) (simp_all add: show_text_def display_writes_text)
  moreover have "?m' = m \<lparr> world := w, capsOn := b, console := console ?m', pics := pics ?m', seen := seen ?m' \<rparr>"
    by (simp add: show_text_def)
  then have "tables_ready syms ?m'" using ready(1) tables_ready_frame by metis
  moreover have "interrupts_on ?m'" "irq_routines ?m' = keyboard_only" using ready by (simp_all add: show_text_def)
  moreover have "shows_same (console ?m') (fold (putc Kernel64) t (console m))" by (simp add: show_text_def shows_same_def)
  ultimately show ?thesis
    unfolding eq run bindE_simps using put by (intro exI [of _ ?m']) (auto simp: at_work_def)
qed

text \<open>
  What the handlers store goes to the screen, but for a backspace that is typed with the cursor in the top
  left corner; that one leaves the cursor off the screen.
\<close>

definition at_home :: "('w, 'e) machine_scheme \<Rightarrow> bool" where
  "at_home m \<longleftrightarrow> screenX (console m) = 0 \<and> screenY (console m) = 0"

lemma text_on_screen:
  assumes "shows_same c (fold (putc Kernel64) t (console m))" and "t = [0x08] \<and> i = 1 \<or> 0x08 \<notin> set t"
    and "cursor_ok Kernel64 (console m)"
  shows "cursor_ok Kernel64 c \<or> i = (1 :: nat) \<and> at_home m"
    and "cursor_ok Kernel64 c \<Longrightarrow> \<not> in_buffer Kernel64 a \<Longrightarrow> vmem c a = vmem (console m) a"
proof -
  have same: "cursor_ok Kernel64 c \<longleftrightarrow> cursor_ok Kernel64 (fold (putc Kernel64) t (console m))"
    "vmem c = vmem (fold (putc Kernel64) t (console m))"
    using assms(1) by (simp_all add: shows_same_def cursor_ok_def)
  have nb: "\<not> in_buffer Kernel64 0" by (simp add: in_buffer_def screenBuffer_def)
  have unsafe: "i = 1 \<and> at_home m \<and> \<not> cursor_ok Kernel64 c" if "\<not> home_safe Kernel64 t (console m)"
    using assms(2) that home_safe_no_backspace [of t Kernel64 "console m"] backspace_at_home [of "console m" Kernel64]
    by (auto simp: at_home_def same(1))
  note safe = text_outside [OF _ assms(3), of _ t]
  show "cursor_ok Kernel64 c \<or> i = 1 \<and> at_home m" using unsafe safe [OF nb] same(1) by blast
  show "cursor_ok Kernel64 c \<Longrightarrow> \<not> in_buffer Kernel64 a \<Longrightarrow> vmem c a = vmem (console m) a"
    using unsafe safe same(2) by metis
qed

lemma at_work_text:
  assumes "at_work syms mm ms m"
  shows "at_work syms mm ms (show_text Kernel64 t m)"
proof -
  let ?m = "show_text Kernel64 t m"
  have "watched mm ms ?m"
    by (rule watched_display) (use assms in \<open>simp_all add: at_work_def show_text_def display_writes_text\<close>)
  moreover have "?m = m \<lparr> world := world m, capsOn := capsOn m, console := console ?m, pics := pics m, seen := seen m \<rparr>"
    by (simp add: show_text_def)
  then have "tables_ready syms ?m \<longleftrightarrow> tables_ready syms m" using tables_ready_frame by metis
  ultimately show ?thesis using assms by (simp add: at_work_def show_text_def)
qed

lemma kernel_step_works:
  assumes "kernel_step devices m m'" and "at_work syms mm ms m"
  shows "at_work syms mm ms m'"
  using assms
proof (cases rule: kernel_step.cases)
  case (exception left n r err f stack r' stack')
  then obtain t where "m' = show_text Kernel64 t m"
    using isr_common_stub_shows [of left n r err f stack m] by auto
  then show ?thesis using at_work_text [OF assms(2)] by simp
next
  case (request i c r' stack')
  then have "i < 16" using accepted_line by blast
  then show ?thesis using take_request_works [OF assms(2), of i devices c] request by auto
next
  case (device w)
  have "m' = m \<lparr> world := w, capsOn := capsOn m, console := console m, pics := pics m, seen := seen m \<rparr>"
    using device by simp
  then have "tables_ready syms m' \<longleftrightarrow> tables_ready syms m" using tables_ready_frame by metis
  then show ?thesis using assms(2) device by (simp add: at_work_def watched_def controllers_def)
qed

lemma kernel_steps_work:
  "(kernel_step devices)\<^sup>*\<^sup>* m m' \<Longrightarrow> at_work syms mm ms m \<Longrightarrow> at_work syms mm ms m'"
  by (induction rule: rtranclp_induct) (auto intro: kernel_step_works)

text \<open>Steps after which the cursor is on the screen: all but the one after which it is not.\<close>

definition screen_step ::
  "(u16 \<Rightarrow> 'w \<Rightarrow> u8 \<times> 'w) \<Rightarrow> ('w, 'e) kernel_machine_scheme \<Rightarrow> ('w, 'e) kernel_machine_scheme \<Rightarrow> bool" where
  "screen_step devices m m' \<longleftrightarrow> kernel_step devices m m' \<and> cursor_ok Kernel64 (console m')"

lemma screen_steps_work:
  "(screen_step devices)\<^sup>*\<^sup>* m m' \<Longrightarrow> at_work syms mm ms m \<Longrightarrow> cursor_ok Kernel64 (console m) \<Longrightarrow>
    at_work syms mm ms m' \<and> cursor_ok Kernel64 (console m')"
  by (induction rule: rtranclp_induct) (auto simp: screen_step_def intro: kernel_step_works)

text \<open>
  C5: In every state the kernel can reach once \<^verbatim>\<open>main\<close> has started (with boot parameters it can reach, see
  \<open>kernel_main_starts\<close>), through any sequence of exceptions, accepted interrupt requests and changes of the
  devices in which no backspace is typed with the cursor in the top left corner: the processor's tables
  and the installed routines are those of the start.  Every exception is handled without a fault, and
  RAX to RDX and, but for the four exceptions whose error code the stubs do not expect, the processor's
  frame are restored.  The controllers let through exactly the requests that are not masked; they give
  such a request a vector whose gate leads to its stub, and have it in service while it is handled; it is
  handled without a fault, RAX to RDX, the stack pointer and the processor's frame are restored, and it is
  acknowledged: afterwards nothing is in service in either controller.  All that is stored by the
  handlers is stored on the screen, which is mapped, with one exception: the backspace named above, a
  request of line 1, which leaves the cursor off the screen and stores at 0x1000B7FFE
  (\<open>backspace_at_home_leaves_screen\<close>), outside the ranges the page tables are made for.
\<close>

theorem kernel_serves_interrupts:
  fixes c :: interrupted
  assumes "fresh_kernel devices mm ms m" and "tables_placed (pager_syms syms)" and "params_at p q" and "off_screen q"
    and "kernel_main devices syms arrivals p m = Inr start" and "(screen_step devices)\<^sup>*\<^sup>* start m'"
  shows "tables_ready syms m' \<and> interrupts_on m' \<and> irq_routines m' = keyboard_only \<and> controllers m' = programmed mm ms \<and>
    (\<exists>r' stack' t. isr_common_stub left n r (cpu_push n err f stack) m' = Inr (r', stack', show_text Kernel64 t m') \<and>
      (RAX r', RBX r', RCX r', RDX r') = (RAX r, RBX r, RCX r, RDX r) \<and>
      (n \<notin> {17, 21, 29, 30} \<longrightarrow> stack' = frame_words f @ stack) \<and>
      cursor_ok Kernel64 (console (show_text Kernel64 t m')) \<and>
      (\<forall>a. \<not> in_buffer Kernel64 a \<longrightarrow> vmem (console (show_text Kernel64 t m')) a = vmem (console m') a)) \<and>
    (accepts i (controllers m') \<longleftrightarrow> unmasked mm ms i) \<and>
    (accepts i (controllers m') \<longrightarrow>
      gate (idt_entries m' (vector_of i (controllers m'))) = (addr_isq (idt_syms syms) i, 8, 0, 0x8E) \<and>
      map_prod in_service in_service (accept i (controllers m')) = servicing i \<and>
      (\<exists>r' m''. take_request devices i c m' = Inr (r', frame_words (at_frame c) @ at_stack c, m'') \<and>
        (RAX r', RBX r', RCX r', RDX r', RSP r') =
          (RAX (at_regs c), RBX (at_regs c), RCX (at_regs c), RDX (at_regs c), RSP (at_regs c)) \<and>
        controllers m'' = programmed mm ms \<and>
        (cursor_ok Kernel64 (console m'') \<or> i = 1 \<and> at_home m') \<and>
        (cursor_ok Kernel64 (console m'') \<longrightarrow>
          (\<forall>a. \<not> in_buffer Kernel64 a \<longrightarrow> vmem (console m'') a = vmem (console m') a))))"
proof -
  obtain ps where start: "at_work syms mm ms start" "console start =
      fold (putc Kernel64) (start_text (BootDevice q m) (RegionCount q m)) (clrscr Kernel64 (console m)) \<lparr> ports := ps \<rparr>"
    using kernel_main_result [OF assms(1-4), of arrivals] assms(5) by (auto simp: at_work_def)
  have nb: "\<not> in_buffer Kernel64 0" by (simp add: in_buffer_def screenBuffer_def)
  from text_outside [OF nb clrscr_result(2) [OF nb] home_safe_no_backspace, OF start_text_no_backspace]
  have "cursor_ok Kernel64 (console start)" unfolding start(2) by (simp add: cursor_ok_def)
  from screen_steps_work [OF assms(6) start(1) this]
  have work: "at_work syms mm ms m'" and cursor: "cursor_ok Kernel64 (console m')" by blast+
  then have state: "tables_ready syms m'" "interrupts_on m'" "irq_routines m' = keyboard_only" "controllers m' = programmed mm ms"
    by (simp_all add: at_work_def watched_def)
  obtain r' stack' t where isr: "isr_common_stub left n r (cpu_push n err f stack) m' = Inr (r', stack', show_text Kernel64 t m')"
      "(RAX r', RBX r', RCX r', RDX r') = (RAX r, RBX r, RCX r, RDX r)" "n \<notin> {17, 21, 29, 30} \<longrightarrow> stack' = frame_words f @ stack"
      "0x08 \<notin> set t"
    using isr_common_stub_shows [of left n r err f stack m']
    by (auto simp: cpu_push_def error_code_stubs_def cpu_error_codes_def)
  have "cursor_ok Kernel64 (console (show_text Kernel64 t m'))"
    "\<not> in_buffer Kernel64 a \<Longrightarrow> vmem (console (show_text Kernel64 t m')) a = vmem (console m') a" for a
    using text_outside [OF _ cursor home_safe_no_backspace [OF isr(4)]] nb by (simp_all add: show_text_def)
  with isr have "\<exists>r' stack' t. isr_common_stub left n r (cpu_push n err f stack) m' = Inr (r', stack', show_text Kernel64 t m') \<and>
      (RAX r', RBX r', RCX r', RDX r') = (RAX r, RBX r, RCX r, RDX r) \<and>
      (n \<notin> {17, 21, 29, 30} \<longrightarrow> stack' = frame_words f @ stack) \<and>
      cursor_ok Kernel64 (console (show_text Kernel64 t m')) \<and>
      (\<forall>a. \<not> in_buffer Kernel64 a \<longrightarrow> vmem (console (show_text Kernel64 t m')) a = vmem (console m') a)" by blast
  moreover have "gate (idt_entries m' (vector_of i (programmed mm ms))) = (addr_isq (idt_syms syms) i, 8, 0, 0x8E)" if "i < 16"
    using state(1) vector_stub [OF that, of "idt_syms syms" mm ms] by (simp add: tables_ready_def)
  moreover have "map_prod in_service in_service (accept i (programmed mm ms)) = servicing i"
    by (simp add: programmed_def)
  moreover have "\<exists>r' m''. take_request devices i c m' = Inr (r', frame_words (at_frame c) @ at_stack c, m'') \<and>
        (RAX r', RBX r', RCX r', RDX r', RSP r') =
          (RAX (at_regs c), RBX (at_regs c), RCX (at_regs c), RDX (at_regs c), RSP (at_regs c)) \<and>
        controllers m'' = programmed mm ms \<and>
        (cursor_ok Kernel64 (console m'') \<or> i = 1 \<and> at_home m') \<and>
        (cursor_ok Kernel64 (console m'') \<longrightarrow>
          (\<forall>a. \<not> in_buffer Kernel64 a \<longrightarrow> vmem (console m'') a = vmem (console m') a))" if "i < 16"
  proof -
    note line = that
    obtain m'' t where m'': "take_request devices i c m' =
        Inr (at_regs c \<lparr> scratch := leaves c (scratch (at_regs c) \<lparr> RDI := RSP (at_regs c) - 48 \<rparr>) \<rparr>,
          frame_words (at_frame c) @ at_stack c, m'')" "at_work syms mm ms m''"
        and put: "shows_same (console m'') (fold (putc Kernel64) t (console m'))" "t = [0x08] \<and> i = 1 \<or> 0x08 \<notin> set t"
      using take_request_works [OF work line, of devices c] by blast
    show ?thesis
      using m'' text_on_screen [OF put cursor]
      by (intro exI [of _ "at_regs c \<lparr> scratch := leaves c (scratch (at_regs c) \<lparr> RDI := RSP (at_regs c) - 48 \<rparr>) \<rparr>"] exI [of _ m''])
        (simp add: at_work_def watched_def)
  qed
  ultimately show ?thesis
    using state accepts_programmed accepted_line [of i "controllers m'"] by (simp only: simp_thms) blast
qed

text \<open>
  A request of the slave's line 10, which both controllers have in service while it is handled, and then
  one of the keyboard.
\<close>

theorem kernel_serves_interrupts_witness:
  "\<exists>start m1 m2 r1 r2 stack. kernel_main (\<lambda>port w. (0, w)) kernel_image clock_arrivals 0x9000 (blank_kernel_machine ()) = Inr start \<and>
    accepts 10 (controllers start) \<and> map_prod in_service in_service (accept 10 (controllers start)) = (4, 4) \<and>
    take_request (\<lambda>port w. (0, w)) 10 at_main start = Inr (r1, stack, m1) \<and> controllers m1 = programmed 0 0 \<and>
    take_request (\<lambda>port w. (0, w)) 1 at_main m1 = Inr (r2, stack, m2) \<and> controllers m2 = programmed 0 0"
proof -
  let ?d = "\<lambda>(port :: u16) (w :: unit). (0 :: u8, w)"
  note fresh = fresh_blank [of "\<lambda>_. 0" "()"]
  obtain start where run: "kernel_main ?d kernel_image clock_arrivals 0x9000 (blank_kernel_machine ()) = Inr start"
    using kernel_main_result [OF fresh kernel_image_ok low_params, of clock_arrivals] by blast
  note works = kernel_serves_interrupts [OF fresh kernel_image_ok low_params run, where c = at_main]
  have lets: "unmasked 0 0 10" "unmasked 0 0 1" by (simp_all add: unmasked_def)
  note first = works [OF rtranclp.rtrancl_refl, where i = 10]
  then have ten: "accepts 10 (controllers start)" "interrupts_on start" using lets(1) by blast+
  then obtain r1 m1 where m1: "take_request ?d 10 at_main start = Inr (r1, frame_words (at_frame at_main) @ at_stack at_main, m1)"
      "controllers m1 = programmed 0 0" "cursor_ok Kernel64 (console m1) \<or> (10 :: nat) = 1 \<and> at_home start"
    using first by blast
  have "screen_step ?d start m1" using kernel_step.request [OF ten(2,1) m1(1)] m1(3) by (simp add: screen_step_def)
  then have "(screen_step ?d)\<^sup>*\<^sup>* start m1" by simp
  note second = works [OF this, where i = 1]
  then have "accepts 1 (controllers m1)" using lets(2) by blast
  then obtain r2 m2 where m2: "take_request ?d 1 at_main m1 = Inr (r2, frame_words (at_frame at_main) @ at_stack at_main, m2)"
      "controllers m2 = programmed 0 0"
    using second by blast
  have "servicing 10 = (4, 4)" by (simp add: servicing_def)
  then show ?thesis using run ten first m1 m2 by metis
qed

end
