(* ===== verification/Session.thy ===== *)
theory Session
  imports Kernel
begin

text \<open>
  The running kernel and its user: keys pressed on the keyboard reach the driver through the interrupt
  controllers and the stubs of the kernel \<^verbatim>\<open>main\<close> has set up, in between the requests of other devices,
  and what is typed appears on the screen behind what \<^verbatim>\<open>main\<close> has written.
\<close>

section \<open>Text on the terminal\<close>

text \<open>The abstract terminal takes every text without tabs of which no backspace comes in the top left corner.\<close>

lemma terminal_of_text:
  assumes "cursor_ok b s" and "home_safe b cs s" and "0x09 \<notin> set cs"
  shows "terminal_of b (fold (putc b) cs s) = fold (term_putc (rows b)) cs (terminal_of b s)"
  using assms
proof (induction cs arbitrary: s)
  case (Cons c cs)
  have home: "screenX s \<noteq> 0 \<or> screenY s \<noteq> 0" if "c = 0x08" using Cons.prems(2) that by auto
  have "putc b c s = putc_plain b c s" using Cons.prems(3) by (auto simp: putc_def)
  moreover have "terminal_of b (putc_plain b c s) = term_putc (rows b) c (terminal_of b s)"
    by (rule terminal_of_putc_plain [OF Cons.prems(1) home])
  moreover have "cursor_ok b (putc_plain b c s)"
    by (rule cursor_ok_putc_plain [OF Cons.prems(1) home])
  ultimately show ?case using Cons.IH [of "putc_plain b c s"] Cons.prems(2,3) by simp
qed simp

text \<open>The terminal after \<^verbatim>\<open>clrscr\<close>; the writes made to ports are not on it.\<close>

definition cleared :: "build \<Rightarrow> terminal" where
  "cleared b = \<lparr> tcells = (\<lambda>i. if on_screen b i then blank i else 0), tx = 0, ty = 0 \<rparr>"

lemma terminal_of_ports [simp]: "terminal_of b (s \<lparr> ports := ps \<rparr>) = terminal_of b s"
  by (simp add: terminal_of_def cell_get_cong [of "s \<lparr> ports := ps \<rparr>" s] cong: if_cong)

lemma cursor_ok_ports [simp]: "cursor_ok b (s \<lparr> ports := ps \<rparr>) \<longleftrightarrow> cursor_ok b s"
  by (simp add: cursor_ok_def)

lemma terminal_of_clrscr: "terminal_of b (clrscr b s) = cleared b" "cursor_ok b (clrscr b s)"
proof -
  have "(if on_screen b i then cell_get b (clrscr b s) i else 0) = (if on_screen b i then blank i else 0)" for i
  proof (cases i)
    case (fields x y p)
    then show ?thesis using clrscr_blank [of x y b s] by (cases p) simp_all
  qed
  then show "terminal_of b (clrscr b s) = cleared b"
    by (simp add: terminal_of_def cleared_def fun_eq_iff clrscr_blank)
  show "cursor_ok b (clrscr b s)" using rows_bounds [of b] by (simp add: cursor_ok_def clrscr_blank)
qed

section \<open>A session\<close>

text \<open>
  An interrupt of the session is a byte from the keyboard, which every read of the data port yields
  from then on, or a request of another line.  \<open>masks\<close> is what the other ports yield.
\<close>

datatype interrupt = Key u8 | Line nat

definition session_devices :: "(u16 \<Rightarrow> u8) \<Rightarrow> u16 \<Rightarrow> u8 \<Rightarrow> u8 \<times> u8" where
  "session_devices masks port v = (if port = KEYBOARD_IN then v else masks port, v)"

fun serve :: "(u16 \<Rightarrow> u8) \<Rightarrow> interrupt \<times> interrupted \<Rightarrow> (u8, 'e) kernel_machine_scheme \<Rightarrow> (u8, 'e) kernel_machine_scheme res" where
  "serve masks (Key v, c) m = arrive (session_devices masks) [(1, c)] (m \<lparr> world := v \<rparr>)"
| "serve masks (Line i, c) m = arrive (session_devices masks) [(i, c)] m"

fun serve_all ::
  "(u16 \<Rightarrow> u8) \<Rightarrow> (interrupt \<times> interrupted) list \<Rightarrow> (u8, 'e) kernel_machine_scheme \<Rightarrow> (u8, 'e) kernel_machine_scheme res" where
  "serve_all masks [] m = Inr m"
| "serve_all masks (e # es) m = bindE (serve masks e m) (serve_all masks es)"

fun keys :: "(interrupt \<times> interrupted) list \<Rightarrow> u8 list" where
  "keys [] = []"
| "keys ((Key v, _) # es) = v # keys es"
| "keys ((Line i, _) # es) = keys es"

text \<open>The lines other devices use: line 1 is the keyboard's.\<close>

fun other_line :: "interrupt \<times> interrupted \<Rightarrow> bool" where
  "other_line (Key v, _) \<longleftrightarrow> True"
| "other_line (Line i, _) \<longleftrightarrow> i \<noteq> 1"

text \<open>The text the handler puts for a sequence of bytes, mistyped keys included; without those it is the text of a US keyboard.\<close>

fun typed_text :: "bool \<Rightarrow> u8 list \<Rightarrow> u8 list" where
  "typed_text shift [] = []"
| "typed_text shift (v # vs) =
     (let code = v AND 0x7F; pressed = (v AND 0x80 = 0) in
      if shift_key code then typed_text pressed vs
      else (if pressed then typed shift code else []) @ typed_text shift vs)"

lemma typed_text_us: "well_typed shift vs \<Longrightarrow> typed_text shift vs = us_text shift vs"
  by (induction shift vs rule: well_typed.induct) (auto simp: Let_def typed_us [OF and_7F_less] split: if_splits)

text \<open>A key request does what the handler does to the shift state and the screen; other requests do nothing there.\<close>

lemma serve_key:
  assumes "at_work syms mm ms m" and "\<not> bit mm 1"
  shows "\<exists>m'. serve masks (Key v, c) m = Inr m' \<and> at_work syms mm ms m' \<and>
    (let code = v AND 0x7F; pressed = (v AND 0x80 = 0);
         t = (if shift_key code \<or> \<not> pressed then [] else typed (capsOn m) code) in
     capsOn m' = (if shift_key code then pressed else capsOn m) \<and> shows_same (console m') (fold (putc Kernel64) t (console m)))"
proof -
  let ?v = "m \<lparr> world := v \<rparr>"
  have work: "at_work syms mm ms ?v" using kernel_step_works [OF kernel_step.device assms(1)] .
  then have on: "interrupts_on ?v" "accepts 1 (controllers ?v)" "irq_routines ?v = keyboard_only"
    using assms(2) by (simp_all add: at_work_def watched_def accepts_programmed unmasked_def)
  have one: "(1 :: nat) < 16" by simp
  obtain r stack m' where m': "take_request (session_devices masks) 1 c ?v = Inr (r, stack, m')" "at_work syms mm ms m'"
    using take_request_works [OF work one, of "session_devices masks" c] by blast
  obtain regs where "take_request (session_devices masks) 1 c ?v =
      bindE (Inr (keyboardHandler (session_devices masks) regs (?v \<lparr> pics := accept 1 (controllers ?v), seen := length (ports (console ?v)) \<rparr>)))
        (\<lambda>m. Inr (at_regs c \<lparr> scratch := leaves c (scratch (at_regs c) \<lparr> RDI := RSP (at_regs c) - 48 \<rparr>) \<rparr>,
          frame_words (at_frame c) @ at_stack c, m \<lparr> console := console m \<lparr> ports := eoi_writes 1 @ ports (console m) \<rparr> \<rparr>))"
    using take_request_eq [OF one, of "session_devices masks" c ?v] on(3) by (auto simp: keyboard_only_def)
  then have handled: "m' = (let h = keyboardHandler (session_devices masks) regs
        (?v \<lparr> pics := accept 1 (controllers ?v), seen := length (ports (console ?v)) \<rparr>)
      in h \<lparr> console := console h \<lparr> ports := eoi_writes 1 @ ports (console h) \<rparr> \<rparr>)"
    using m'(1) by (simp add: Let_def)
  have "serve masks (Key v, c) m = Inr m'" using on m'(1) by simp
  then show ?thesis
    using m'(2) unfolding handled
    by (intro exI [of _ m'] conjI; unfold handled)
      (auto simp: keyboardHandler_eq [where v = v and v' = v and w = v and w' = v] session_devices_def Let_def
        show_text_def shows_same_def)
qed

lemma serve_line:
  assumes "at_work syms mm ms m" and "i \<noteq> 1"
  shows "\<exists>m'. serve masks (Line i, c) m = Inr m' \<and> at_work syms mm ms m' \<and> capsOn m' = capsOn m \<and>
    shows_same (console m') (console m)"
proof (cases "interrupts_on m \<and> accepts i (controllers m)")
  case True
  then have i: "i < 16" using accepted_line by blast
  obtain r stack m' where m': "take_request (session_devices masks) i c m = Inr (r, stack, m')" "at_work syms mm ms m'"
    using take_request_works [OF assms(1) i, of "session_devices masks" c] by blast
  have "watched mm ms m" "irq_routines m i = None"
    using assms by (simp_all add: at_work_def keyboard_only_def)
  from idle_request [OF this i, of "session_devices masks" c] have quiet: "shown [] m m'" using m'(1) by auto
  show ?thesis using True m' shown_same [OF quiet] shown_sel(4) [OF quiet] by (intro exI [of _ m']) simp
qed (use assms in \<open>auto simp: shows_same_def\<close>)

lemma serve_all_types:
  fixes m :: "(u8, 'e) kernel_machine_scheme"
  assumes "at_work syms mm ms m" and "\<not> bit mm 1" and "list_all other_line es"
  shows "\<exists>m'. serve_all masks es m = Inr m' \<and> at_work syms mm ms m' \<and>
    shows_same (console m') (fold (putc Kernel64) (typed_text (capsOn m) (keys es)) (console m))"
  using assms(1,3)
proof (induction es arbitrary: m)
  case (Cons e es)
  obtain i c where e: "e = (i, c)" by (cases e)
  show ?case
  proof (cases i)
    case (Line n)
    obtain m1 where m1: "serve masks e m = Inr m1" "at_work syms mm ms m1" "capsOn m1 = capsOn m" "shows_same (console m1) (console m)"
      using serve_line [OF Cons.prems(1), of n masks c] Cons.prems(2) by (auto simp: e Line)
    obtain m2 where m2: "serve_all masks es m1 = Inr m2" "at_work syms mm ms m2"
        "shows_same (console m2) (fold (putc Kernel64) (typed_text (capsOn m) (keys es)) (console m1))"
      using Cons.IH [OF m1(2)] Cons.prems(2) m1(3) by auto
    have "shows_same (console m2) (fold (putc Kernel64) (typed_text (capsOn m) (keys es)) (console m))"
      using m2(3) text_same [OF m1(4)] by (simp add: shows_same_def)
    then show ?thesis using m1(1) m2(1,2) by (simp add: e Line)
  next
    case (Key v)
    let ?code = "v AND 0x7F" and ?pressed = "v AND 0x80 = 0"
    let ?t = "if shift_key ?code \<or> \<not> ?pressed then [] else typed (capsOn m) ?code"
    obtain m1 where m1: "serve masks e m = Inr m1" "at_work syms mm ms m1"
        "capsOn m1 = (if shift_key ?code then ?pressed else capsOn m)" "shows_same (console m1) (fold (putc Kernel64) ?t (console m))"
      using serve_key [OF Cons.prems(1) assms(2), of masks v c] by (auto simp: e Key Let_def)
    obtain m2 where m2: "serve_all masks es m1 = Inr m2" "at_work syms mm ms m2"
        "shows_same (console m2) (fold (putc Kernel64) (typed_text (capsOn m1) (keys es)) (console m1))"
      using Cons.IH [OF m1(2)] Cons.prems(2) by (auto simp: e Key)
    have "typed_text (capsOn m) (keys (e # es)) = ?t @ typed_text (capsOn m1) (keys es)"
      by (simp add: e Key m1(3) Let_def)
    then have "shows_same (console m2) (fold (putc Kernel64) (typed_text (capsOn m) (keys (e # es))) (console m))"
      using m2(3) text_same [OF m1(4), of Kernel64 "typed_text (capsOn m1) (keys es)"] by (simp add: shows_same_def)
    then show ?thesis using m1(1) m2(1,2) by simp
  qed
qed (simp add: shows_same_def)

section \<open>From the start to the user\<close>

lemma start_text_printable: "0x08 \<notin> set (start_text d n)" "0x09 \<notin> set (start_text d n)"
  by (simp_all add: start_text_def start_lines_printable hello_line_def device_line_def regions_line_def
      digits_printable signed_text_def)

text \<open>No key puts a tab: that of the tab key is in the table, but not in the handler's ranges.\<close>

lemma us_find_no_tab:
  "list_all (\<lambda>(start, plain, shifted). length shifted = length plain \<and> 0x09 \<notin> set (bytes_of plain) \<and> 0x09 \<notin> set (bytes_of shifted)) rs
    \<Longrightarrow> 0x09 \<notin> set (us_find rs shift code)"
proof (induction rs shift code rule: us_find.induct)
  case (2 start plain shifted rs shift code)
  let ?cs = "if shift then shifted else plain"
  have "of_nat (of_char (?cs ! (code - start))) \<in> set (bytes_of ?cs)" if "start \<le> code" "code < start + length plain"
    using 2(2) that by (auto simp: bytes_of_def)
  then have "of_nat (of_char (?cs ! (code - start))) \<noteq> (0x09 :: u8)" if "start \<le> code" "code < start + length plain"
    using 2(2) that by (cases shift) auto
  then show ?case using 2 by auto
qed simp

lemma typed_no_tab: "0x09 \<notin> set (typed shift (v AND 0x7F))"
proof (cases "v AND 0x7F \<in> set (mistyped shift)")
  case True
  have "\<forall>code \<in> set (mistyped shift). getAscii code - (if shift then 32 else 0) \<noteq> 0x09"
    by (cases shift) (simp_all add: mistyped_def getAscii_row ascii_row_def scancodeMap_def scancodes_def)
  then show ?thesis using True by (simp add: typed_cases [OF and_7F_less])
next
  case False
  have "0x09 \<notin> set (us_typed shift (v AND 0x7F))"
    unfolding us_typed_def by (rule us_find_no_tab) (simp add: us_rows_def)
  then show ?thesis using False by (simp add: typed_us [OF and_7F_less])
qed

lemma typed_text_no_tab: "0x09 \<notin> set (typed_text shift vs)"
  by (induction shift vs rule: typed_text.induct) (auto simp: Let_def typed_no_tab)

text \<open>
  C6: The kernel and its user end to end, from \<^verbatim>\<open>main\<close>'s entry in a machine as in \<open>kernel_main_starts\<close> whose
  controllers do not mask the keyboard's line.  Take any sequence of bytes from the keyboard, one
  interrupt each, with requests of other lines in between, and let no backspace of the text the driver
  puts for them come with the cursor in the top left corner (that one would leave the screen).  Then
  \<^verbatim>\<open>main\<close> starts, every interrupt is served without a fault, nothing is left in service, and the screen
  shows what a terminal shows that is cleared and given the lines of \<^verbatim>\<open>main\<close> and the text the driver puts.
  That is the text a US keyboard types if none of the keys is one the driver mistypes (left control, and
  with shift Enter, space and nine keys of punctuation); a mistyped key puts the byte \<open>typed\<close> gives
  instead.
\<close>

theorem kernel_types_keys:
  fixes m :: "(u8, 'e) kernel_machine_scheme"
  assumes "fresh_kernel (session_devices masks) mm ms m" and "tables_placed (pager_syms syms)"
    and "params_at p q" and "off_screen q" and "\<not> bit mm 1" and "list_all other_line es"
    and "greeting = start_text (BootDevice q m) (RegionCount q m)"
    and "home_safe Kernel64 (greeting @ typed_text False (keys es)) (clrscr Kernel64 (console m))"
  shows "(\<exists>start m'. kernel_main (session_devices masks) syms arrivals p m = Inr start \<and> serve_all masks es start = Inr m' \<and>
      controllers m' = programmed mm ms \<and>
      terminal_of Kernel64 (console m') = fold (term_putc 25) (greeting @ typed_text False (keys es)) (cleared Kernel64)) \<and>
    (well_typed False (keys es) \<longrightarrow> typed_text False (keys es) = us_text False (keys es))"
proof -
  let ?s = "clrscr Kernel64 (console m)" and ?t = "greeting @ typed_text False (keys es)"
  obtain start ps where start: "kernel_main (session_devices masks) syms arrivals p m = Inr start"
      "console start = fold (putc Kernel64) greeting ?s \<lparr> ports := ps \<rparr>" "\<not> capsOn start" "at_work syms mm ms start"
    using kernel_main_result [OF assms(1-4), of arrivals] unfolding assms(7) [symmetric] at_work_def by blast
  obtain m' where m': "serve_all masks es start = Inr m'" "at_work syms mm ms m'"
      "shows_same (console m') (fold (putc Kernel64) (typed_text False (keys es)) (console start))"
    using serve_all_types [OF start(4) assms(5,6)] start(3) by auto
  have "shows_same (console start) (fold (putc Kernel64) greeting ?s)" by (simp add: start(2) shows_same_def)
  from text_same [OF this, of Kernel64 "typed_text False (keys es)"]
  have "shows_same (console m') (fold (putc Kernel64) ?t ?s)" using m'(3) by (simp add: shows_same_def)
  then obtain ps' where console: "console m' = fold (putc Kernel64) ?t ?s \<lparr> ports := ps' \<rparr>"
    by (auto simp: shows_same_ports)
  have "0x09 \<notin> set ?t" by (simp add: assms(7) start_text_printable typed_text_no_tab)
  from terminal_of_text [OF terminal_of_clrscr(2) assms(8) this]
  have "terminal_of Kernel64 (console m') = fold (term_putc 25) ?t (cleared Kernel64)"
    unfolding console terminal_of_ports terminal_of_clrscr rows_simps .
  then show ?thesis
    using start(1) m'(1,2) typed_text_us by (auto simp: at_work_def watched_def)
qed

text \<open>
  H, a request of the timer's line and one of the slave's line 8, a slip of O, a backspace, and I: each key pressed
  and released, with shift held for the H.
\<close>

definition hi_events :: "(interrupt \<times> interrupted) list" where
  "hi_events = map (\<lambda>i. (i, at_main))
    [Key 0x2A, Key 0x23, Key 0xA3, Line 0, Key 0xAA, Key 0x18, Key 0x98, Line 8, Key 0x0E, Key 0x8E, Key 0x17, Key 0x97]"

text \<open>Once something has been put, the cursor is not in the top left corner.\<close>

lemma putc_leaves_home:
  assumes "cursor_ok b s" and "c \<notin> {0x08, 0x09, 0x0A, 0x0D}"
  shows "screenX (putc b c s) \<noteq> 0 \<or> screenY (putc b c s) \<noteq> 0"
proof -
  have "terminal_of b (putc b c s) = term_putc (rows b) c (terminal_of b s)"
    using terminal_of_putc_plain [OF assms(1), of c] assms(2) by (simp add: putc_def)
  moreover have "tx (term_putc (rows b) c t) \<noteq> 0 \<or> ty (term_putc (rows b) c t) \<noteq> 0" for t
    using assms(2) rows_bounds [of b] by (auto simp: term_putc_def term_settle_def term_scroll_def Let_def)
  ultimately show ?thesis by (metis terminal_of_sel unsigned_0)
qed

theorem kernel_types_keys_witness:
  "\<exists>start m'. kernel_main (session_devices (\<lambda>_. 0)) kernel_image clock_arrivals 0x9000 (blank_kernel_machine 0) = Inr start \<and>
    serve_all (\<lambda>_. 0) hi_events start = Inr m' \<and> controllers m' = programmed 0 0 \<and>
    terminal_of Kernel64 (console m') = fold (term_putc 25) (start_text (BootDevice 0x9000 (blank_kernel_machine (0 :: u8)))
      (RegionCount 0x9000 (blank_kernel_machine (0 :: u8))) @ bytes_of ''Ho'' @ [0x08] @ bytes_of ''i'') (cleared Kernel64)"
proof -
  let ?m = "blank_kernel_machine (0 :: u8)"
  let ?g = "start_text (BootDevice 0x9000 ?m) (RegionCount 0x9000 ?m)"
  have keys: "keys hi_events = [0x2A, 0x23, 0xA3, 0xAA, 0x18, 0x98, 0x0E, 0x8E, 0x17, 0x97]" "list_all other_line hi_events"
    by (simp_all add: hi_events_def)
  have "well_typed False (keys hi_events)" "us_text False (keys hi_events) = bytes_of ''Ho'' @ [0x08] @ bytes_of ''i''"
    unfolding keys(1) by (simp_all add: shift_key_def mistyped_def us_typed_def us_rows_def)
  then have typed: "typed_text False (keys hi_events) = bytes_of ''Ho'' @ [0x08] @ bytes_of ''i''" by (simp only: typed_text_us)
  have fresh: "fresh_kernel (session_devices (\<lambda>_. 0)) 0 0 ?m"
    by (simp add: fresh_kernel_def session_devices_def MASTER_DATA_def KEYBOARD_IN_def)
  have ho: "0x08 \<notin> set (?g @ bytes_of ''Ho'')" by (simp add: start_text_printable)
  have "\<not> in_buffer Kernel64 0" by (simp add: in_buffer_def screenBuffer_def)
  from text_outside [OF this terminal_of_clrscr(2) home_safe_no_backspace, of "?g @ bytes_of ''H''" blank_console]
  have "cursor_ok Kernel64 (fold (putc Kernel64) (?g @ bytes_of ''H'') (clrscr Kernel64 blank_console))" using ho by simp
  from putc_leaves_home [OF this, of "0x6F"]
  have "home_safe Kernel64 (?g @ bytes_of ''Ho'' @ [0x08] @ bytes_of ''i'') (clrscr Kernel64 blank_console)"
    using home_safe_no_backspace [OF ho, of Kernel64 "clrscr Kernel64 blank_console"]
    by (simp add: home_safe_append)
  then have "home_safe Kernel64 (?g @ typed_text False (keys hi_events)) (clrscr Kernel64 (console ?m))"
    unfolding typed by simp
  from kernel_types_keys [OF fresh kernel_image_ok low_params _ keys(2) refl this, of clock_arrivals]
  show ?thesis unfolding typed by simp
qed

end
