(* ===== verification/Boot_Sector.thy ===== *)
theory Boot_Sector
  imports Disk Gdt
begin

text \<open>
  The boot sector, \<^verbatim>\<open>boot.asm\<close>: it loads the second stage of the boot loader, which lies in the reserved
  sectors behind it, opens the A20 gate and enters protected mode.
\<close>

section \<open>State\<close>

text \<open>
  What the boot sector uses of the machine: the disk services of the BIOS, with the carry flag a read
  leaves, the keyboard service that waits for a key, and the I/O ports.
\<close>

record 'w boot_bios =
  services :: "'w bios"
  read_carry :: "read_regs \<Rightarrow> 'w \<Rightarrow> bool"
  wait_key :: "'w \<Rightarrow> 'w"
  port_in :: "u16 \<Rightarrow> 'w \<Rightarrow> u8 \<times> 'w"
  port_write :: "u16 \<Rightarrow> u8 \<Rightarrow> 'w \<Rightarrow> 'w"

text \<open>
  The memory by linear addresses, the characters given to the teletype service, the drive number
  in the boot record, the processor's descriptor table, \<open>CR0\<close> and interrupt flag.
\<close>

record 'w boot_machine =
  memory :: "u32 \<Rightarrow> u8"
  teletype :: "u8 list"
  ebr_drive_number :: u8
  boot_gdt :: "gdt_entry_struct list"
  boot_CR0 :: u32
  boot_IF :: bool
  firmware :: 'w

definition bdb_sectors_per_track :: u16 where "bdb_sectors_per_track = 18"
definition bdb_heads :: u16 where "bdb_heads = 2"

definition disk_read_fail :: "u8 list" where
  "disk_read_fail = bytes_of ''[Init] Failed to read from disk'' @ [0x0D, 0x0A, 0x00]"

definition disk_reset_fail :: "u8 list" where
  "disk_reset_fail = bytes_of ''[Init] Failed to reset disk'' @ [0x0D, 0x0A, 0x00]"

definition press_key :: "u8 list" where
  "press_key = bytes_of ''[Init] Press any key to reboot'' @ [0x0D, 0x0A, 0x00]"

definition CMOSRegisterB :: u16 where "CMOSRegisterB = 0x70"
definition CMOSRegisterC :: u16 where "CMOSRegisterC = 0x71"
definition KbdControllerDataPort :: u16 where "KbdControllerDataPort = 0x60"
definition KbdControllerCommandPort :: u16 where "KbdControllerCommandPort = 0x64"
definition KbdControllerDisableKeyboard :: u8 where "KbdControllerDisableKeyboard = 0xAD"
definition KbdControllerEnableKeyboard :: u8 where "KbdControllerEnableKeyboard = 0xAE"
definition KbdControllerReadCtrlOutputPort :: u8 where "KbdControllerReadCtrlOutputPort = 0xD0"
definition KbdControllerWriteCtrlOutputPort :: u8 where "KbdControllerWriteCtrlOutputPort = 0xD1"

definition g_GDT :: "gdt_entry_struct list" where
  "g_GDT =
    [\<lparr> limit = 0, base_low = 0, base_mid = 0, access = 0, flags = 0, base_high = 0 \<rparr>,
     \<lparr> limit = 0xFFFF, base_low = 0, base_mid = 0, access = 0x9A, flags = 0xCF, base_high = 0 \<rparr>,
     \<lparr> limit = 0xFFFF, base_low = 0, base_mid = 0, access = 0x92, flags = 0xCF, base_high = 0 \<rparr>,
     \<lparr> limit = 0xFFFF, base_low = 0, base_mid = 0, access = 0x9A, flags = 0x0F, base_high = 0 \<rparr>,
     \<lparr> limit = 0xFFFF, base_low = 0, base_mid = 0, access = 0x92, flags = 0x0F, base_high = 0 \<rparr>,
     \<lparr> limit = 0xFFFF, base_low = 0, base_mid = 0, access = 0x9A, flags = 0xAF, base_high = 0 \<rparr>,
     \<lparr> limit = 0xFFFF, base_low = 0, base_mid = 0, access = 0x92, flags = 0xAF, base_high = 0 \<rparr>]"

section \<open>Disk\<close>

text \<open>
  \<open>CH\<close>, \<open>CL\<close> and \<open>DH\<close> for a logical address; \<open>DX:AX\<close> is divided with \<open>DX = 0\<close>.
\<close>

definition boot_lba_to_chs :: "u16 \<Rightarrow> u8 \<times> u8 \<times> u8" where
  "boot_lba_to_chs lba =
     (let dx = lba mod bdb_sectors_per_track; ax = lba div bdb_sectors_per_track;
          cx = dx + 1;
          dx = ax mod bdb_heads; ax = ax div bdb_heads;
          dh = ucast dx;
          ch = ucast ax;
          ah = push_bit 6 (ucast (drop_bit 8 ax))
      in (ch, ucast cx OR ah, dh))"

definition store_at :: "u32 \<Rightarrow> u8 list \<Rightarrow> (u32 \<Rightarrow> u8) \<Rightarrow> u32 \<Rightarrow> u8" where
  "store_at a bs mem i = (if unat (i - a) < length bs then bs ! unat (i - a) else mem i)"

text \<open>The loop from \<^verbatim>\<open>.retry\<close> on, with the value of \<open>DI\<close>.\<close>

fun read_retry :: "'w boot_bios \<Rightarrow> read_regs \<Rightarrow> nat \<Rightarrow> 'w boot_machine \<Rightarrow> u16 \<times> 'w boot_machine" where
  "read_retry b r 0 m = (1, m)"
| "read_retry b r (Suc di) m =
     (let carry = read_carry b r (firmware m);
          (ah, stored, w) = int13_read (services b) r (firmware m);
          m = m \<lparr> memory := store_at (seg_linear (rES r, rBX r)) stored (memory m), firmware := w \<rparr>
      in if \<not> carry then (0, m)
         else let (ax, w) = boot_disk_reset (services b) (rDL r) (firmware m);
                  m = m \<lparr> firmware := w \<rparr>
              in if ax = 0 then read_retry b r di m else (2, m))"

definition boot_disk_read ::
  "'w boot_bios \<Rightarrow> u8 \<Rightarrow> u8 \<times> u8 \<times> u8 \<Rightarrow> u8 \<Rightarrow> u16 \<Rightarrow> u16 \<Rightarrow> 'w boot_machine \<Rightarrow> u16 \<times> 'w boot_machine" where
  "boot_disk_read b al chs dl es bx m =
     (let (ch, cl, dh) = chs in
      read_retry b \<lparr> rAL = al, rCH = ch, rCL = cl, rDH = dh, rDL = dl, rES = es, rBX = bx \<rparr> 3 m)"

section \<open>Messages\<close>

fun boot_print :: "u8 list \<Rightarrow> 'w boot_machine \<Rightarrow> 'w boot_machine" where
  "boot_print [] m = m"
| "boot_print (c # cs) m =
     (if c = 0 then m else boot_print cs (m \<lparr> teletype := teletype m @ [c] \<rparr>))"

text \<open>How the boot sector ends: with a far jump to a selector and an address, or with a restart.\<close>

datatype boot_outcome = Jumped u16 u32 | Restarted

definition boot_error :: "'w boot_bios \<Rightarrow> u8 list \<Rightarrow> 'w boot_machine \<Rightarrow> boot_outcome \<times> 'w boot_machine" where
  "boot_error b msg m =
     (let m = boot_print press_key (boot_print msg m) in (Restarted, m \<lparr> firmware := wait_key b (firmware m) \<rparr>))"

section \<open>The A20 gate\<close>

text \<open>The two loops read the status of the keyboard controller until it is ready; \<open>None\<close> if it never is.\<close>

partial_function (option) A20WaitInput :: "'w boot_bios \<Rightarrow> 'w \<Rightarrow> 'w option" where
  "A20WaitInput b w = (case port_in b KbdControllerCommandPort w of (al, w) \<Rightarrow>
     if al AND 2 \<noteq> 0 then A20WaitInput b w else Some w)"

partial_function (option) A20WaitOutput :: "'w boot_bios \<Rightarrow> 'w \<Rightarrow> 'w option" where
  "A20WaitOutput b w = (case port_in b KbdControllerCommandPort w of (al, w) \<Rightarrow>
     if al AND 1 = 0 then A20WaitOutput b w else Some w)"

definition send_command :: "'w boot_bios \<Rightarrow> u8 \<Rightarrow> 'w \<Rightarrow> 'w option" where
  "send_command b cmd w = map_option (port_write b KbdControllerCommandPort cmd) (A20WaitInput b w)"

definition EnableA20 :: "'w boot_bios \<Rightarrow> 'w \<Rightarrow> 'w option" where
  "EnableA20 b w =
     Option.bind (send_command b KbdControllerDisableKeyboard w) (\<lambda>w.
     Option.bind (send_command b KbdControllerReadCtrlOutputPort w) (\<lambda>w.
     Option.bind (A20WaitOutput b w) (\<lambda>w.
     let (al, w) = port_in b KbdControllerDataPort w in
     Option.bind (send_command b KbdControllerWriteCtrlOutputPort w) (\<lambda>w.
     Option.bind (A20WaitInput b w) (\<lambda>w.
     let w = port_write b KbdControllerDataPort (al OR 2) w in
     Option.bind (send_command b KbdControllerEnableKeyboard w) (A20WaitInput b))))))"

section \<open>\<^verbatim>\<open>main\<close>\<close>

text \<open>
  \<open>reserved_sectors\<close> comes from the linker, \<open>dl\<close> is the drive the BIOS booted from.
\<close>

definition boot_main :: "'w boot_bios \<Rightarrow> u16 \<Rightarrow> u8 \<Rightarrow> 'w boot_machine \<Rightarrow> (boot_outcome \<times> 'w boot_machine) option" where
  "boot_main b reserved_sectors dl m =
     (let m = m \<lparr> ebr_drive_number := dl \<rparr>;
          chs = boot_lba_to_chs 1;
          (ax, m) = boot_disk_read b (ucast reserved_sectors - 1) chs dl 0 0x7E00 m
      in if ax = 2 then Some (boot_error b disk_reset_fail m)
         else if ax = 1 then Some (boot_error b disk_read_fail m)
         else
           (let m = m \<lparr> boot_IF := False \<rparr>;
                (al, w) = port_in b CMOSRegisterB (firmware m);
                w = port_write b CMOSRegisterB (al OR 0x80) w;
                (al, w) = port_in b CMOSRegisterC w
            in map_option (\<lambda>w. (Jumped 0x08 0x7E00,
                 m \<lparr> firmware := w, boot_gdt := g_GDT, boot_CR0 := boot_CR0 m OR 1 \<rparr>)) (EnableA20 b w)))"

section \<open>Sector addresses\<close>

text \<open>The registers of both stages for the geometry of the boot record.\<close>

lemma boot_chs_request:
  assumes "sectors disk = bdb_sectors_per_track" and "heads disk = bdb_heads"
  obtains chs where "DISK_LBA2CHS disk (ucast lba) = Inr chs"
    "\<And>count dataOut. request disk chs count dataOut = (let (ch, cl, dh) = boot_lba_to_chs lba in
       \<lparr> rAL = count, rCH = ch, rCL = cl, rDH = dh, rDL = drive disk, rES = fst (LinearToSegOffset dataOut),
         rBX = snd (LinearToSegOffset dataOut) \<rparr>)"
proof -
  let ?q = "lba div bdb_sectors_per_track" and ?r = "lba mod bdb_sectors_per_track"
  have bdb: "bdb_sectors_per_track = 18" "bdb_heads = 2" by (simp_all add: bdb_sectors_per_track_def bdb_heads_def)
  have small: "unat lba < 65536" using unsigned_less [of lba, where ?'a = nat] by simp
  have wide: "unat (ucast lba :: u32) = unat lba"
    using small by (simp add: unsigned_ucast_eq take_bit_nat_eq_self)
  have word: "(ucast x :: u16) = y" if "unat x = unat y" for x :: u32 and y :: u16
    using that unsigned_less [of y, where ?'a = nat] by (simp add: word_unat_eq_iff unsigned_ucast_eq take_bit_nat_eq_self)
  have "(ucast (ucast lba div 18 div 2 :: u32) :: u16) = ?q div 2"
    "(ucast (ucast lba div 18 mod 2 :: u32) :: u16) = ?q mod 2"
    by (rule word, simp add: bdb unat_div unat_mod wide)+
  moreover have "(ucast (ucast lba mod 18 + 1 :: u32) :: u16) = ?r + 1"
  proof (rule word)
    have "unat lba mod 18 < 18" by simp
    then show "unat (ucast lba mod 18 + 1 :: u32) = unat (?r + 1)"
      by (simp add: bdb unat_word_ariths unat_mod wide)
  qed
  ultimately have chs: "DISK_LBA2CHS disk (ucast lba) = Inr (?q div 2, ?q mod 2, ?r + 1)"
    by (simp add: DISK_LBA2CHS_def assms bdb)
  have sec: "(ucast (?r + 1) AND 0x3F :: u8) = ucast (?r + 1)"
  proof -
    have "unat lba mod 18 < 18" by simp
    then have "unat (ucast (?r + 1) :: u8) < 2 ^ 6"
      by (simp add: unsigned_ucast_eq take_bit_nat_eq_self bdb unat_word_ariths unat_mod)
    then have "take_bit 6 (ucast (?r + 1) :: u8) = ucast (?r + 1)"
      by (simp add: word_unat_eq_iff unsigned_take_bit_eq take_bit_nat_eq_self)
    moreover have "(0x3F :: u8) = mask 6" by (simp add: mask_eq_exp_minus_1)
    ultimately show ?thesis by (simp only: take_bit_eq_mask)
  qed
  show ?thesis
  proof (rule that [OF chs])
    show "request disk (?q div 2, ?q mod 2, ?r + 1) count dataOut = (let (ch, cl, dh) = boot_lba_to_chs lba in
       \<lparr> rAL = count, rCH = ch, rCL = cl, rDH = dh, rDL = drive disk, rES = fst (LinearToSegOffset dataOut),
         rBX = snd (LinearToSegOffset dataOut) \<rparr>)" for count dataOut
      by (cases "LinearToSegOffset dataOut") (simp add: request_def boot_lba_to_chs_def Let_def sec bdb(2) or.commute)
  qed
qed

text \<open>
  C16: Both stages of the boot loader address the disk in the same way: for the geometry of the boot
  record and every sector number of 16 bits, \<^verbatim>\<open>boot_lba_to_chs\<close> leaves in \<open>CH\<close>, \<open>CL\<close> and \<open>DH\<close> what
  \<^verbatim>\<open>DISK_LBA2CHS\<close> and \<^verbatim>\<open>diskRead16\<close> pass to the BIOS.
\<close>

theorem boot_lba_agrees:
  assumes "sectors disk = bdb_sectors_per_track" and "heads disk = bdb_heads"
  shows "\<exists>chs. DISK_LBA2CHS disk (ucast lba) = Inr chs \<and>
    (\<forall>count dataOut. (rCH (request disk chs count dataOut), rCL (request disk chs count dataOut),
       rDH (request disk chs count dataOut)) = boot_lba_to_chs lba)"
proof -
  obtain chs where "DISK_LBA2CHS disk (ucast lba) = Inr chs"
    "\<And>count dataOut. request disk chs count dataOut = (let (ch, cl, dh) = boot_lba_to_chs lba in
       \<lparr> rAL = count, rCH = ch, rCL = cl, rDH = dh, rDL = drive disk, rES = fst (LinearToSegOffset dataOut),
         rBX = snd (LinearToSegOffset dataOut) \<rparr>)"
    using boot_chs_request [OF assms] by metis
  then show ?thesis by (intro exI [of _ chs]) (simp split: prod.splits)
qed

theorem boot_lba_agrees_witness:
  "\<exists>chs. DISK_LBA2CHS floppy (ucast (2879 :: u16)) = Inr chs \<and>
    (\<forall>count dataOut. (rCH (request floppy chs count dataOut), rCL (request floppy chs count dataOut),
       rDH (request floppy chs count dataOut)) = boot_lba_to_chs 2879)"
  by (rule boot_lba_agrees) (simp_all add: floppy_def bdb_sectors_per_track_def bdb_heads_def)

section \<open>Reading the second stage\<close>

text \<open>By its documentation, a read leaves the carry flag exactly when its status is an error.\<close>

definition carry_ok :: "'w boot_bios \<Rightarrow> bool" where
  "carry_ok b \<longleftrightarrow> (\<forall>r w. read_carry b r w \<longleftrightarrow> fst (int13_read (services b) r w) \<noteq> 0)"

text \<open>The memory from an address on holds the given bytes, and is unchanged elsewhere.\<close>

definition holds_from :: "u32 \<Rightarrow> u8 list \<Rightarrow> (u32 \<Rightarrow> u8) \<Rightarrow> bool" where
  "holds_from a bs mem \<longleftrightarrow> (\<forall>i < length bs. mem (a + of_nat i) = bs ! i)"

lemma store_at_holds:
  assumes "length bs < 2 ^ 32"
  shows "holds_from a bs (store_at a bs mem)"
  using assms by (simp add: holds_from_def store_at_def take_bit_nat_eq_self)

lemma store_at_other: "length bs \<le> unat (i - a) \<Longrightarrow> store_at a bs mem i = mem i"
  by (simp add: store_at_def)

lemma read_retry_result:
  assumes "reads_disk (services b) disk img" and "carry_ok b" and "rDL r = drive disk"
  defines "a \<equiv> seg_linear (rES r, rBX r)"
  shows "\<exists>ax mem w. read_retry b r di m = (ax, m \<lparr> memory := mem, firmware := w \<rparr>) \<and> ax \<in> {0, 1, 2} \<and>
    (\<forall>i. 512 * unat (rAL r) \<le> unat (i - a) \<longrightarrow> mem i = memory m i) \<and>
    (ax = 0 \<longrightarrow> holds_from a (sector_data img (request_lba disk r) (unat (rAL r))) mem)"
proof (induction di arbitrary: m)
  case 0
  then show ?case by (intro exI [of _ 1] exI [of _ "memory m"] exI [of _ "firmware m"]) simp
next
  case (Suc di)
  let ?n = "512 * unat (rAL r)"
  obtain ah stored w where read: "int13_read (services b) r (firmware m) = (ah, stored, w)"
    by (cases "int13_read (services b) r (firmware m)")
  have stored: "length stored \<le> ?n" "ah = 0 \<Longrightarrow> stored = sector_data img (request_lba disk r) (unat (rAL r))"
    using reads_diskD [OF assms(1,3) read] by simp_all
  have carry: "read_carry b r (firmware m) \<longleftrightarrow> ah \<noteq> 0" using assms(2) read by (simp add: carry_ok_def)
  let ?mem = "store_at a stored (memory m)"
  let ?m1 = "m \<lparr> memory := ?mem, firmware := w \<rparr>"
  have "unat (rAL r) < 256" using unsigned_less [of "rAL r", where ?'a = nat] by simp
  then have len: "length stored < 2 ^ 32" using stored(1) by simp
  have other: "\<forall>i. ?n \<le> unat (i - a) \<longrightarrow> ?mem i = memory m i"
    using stored(1) store_at_other order.trans by blast
  show ?case
  proof (cases "ah = 0")
    case True
    then show ?thesis
      using read carry stored(2) other store_at_holds [OF len]
      by (intro exI [of _ 0] exI [of _ ?mem] exI [of _ w]) (simp add: a_def)
  next
    case False
    obtain ax w2 where reset: "boot_disk_reset (services b) (rDL r) w = (ax, w2)"
      by (cases "boot_disk_reset (services b) (rDL r) w")
    have step: "read_retry b r (Suc di) m =
        (if ax = 0 then read_retry b r di (?m1 \<lparr> firmware := w2 \<rparr>) else (2, ?m1 \<lparr> firmware := w2 \<rparr>))"
      using read carry False reset by (simp add: a_def)
    show ?thesis
    proof (cases "ax = 0")
      case True
      then show ?thesis
        using Suc.IH [of "?m1 \<lparr> firmware := w2 \<rparr>"] other unfolding step by auto
    next
      case ax: False
      then show ?thesis
        using other unfolding step by (intro exI [of _ 2] exI [of _ ?mem] exI [of _ w2]) simp
    qed
  qed
qed

section \<open>The keyboard controller\<close>

text \<open>
  What the code relies on of the controller behind the two ports, by its documentation: how many status
  reads its input buffer stays full and the answer to a command takes, the answer, whether
  the next data byte goes to the output port, that port (bit 1 is the A20 gate), and whether the
  keyboard is enabled.
\<close>

record kbc =
  input_busy :: nat
  output_in :: nat
  output_byte :: "u8 option"
  port_next :: bool
  output_port :: u8
  keyboard_on :: bool

definition kbc_command :: "u8 \<Rightarrow> kbc \<Rightarrow> kbc" where
  "kbc_command cmd k =
     (if cmd = KbdControllerDisableKeyboard then k \<lparr> keyboard_on := False \<rparr>
      else if cmd = KbdControllerEnableKeyboard then k \<lparr> keyboard_on := True \<rparr>
      else if cmd = KbdControllerReadCtrlOutputPort then k \<lparr> output_byte := Some (output_port k) \<rparr>
      else if cmd = KbdControllerWriteCtrlOutputPort then k \<lparr> port_next := True \<rparr> else k)"

definition status_read :: "kbc \<Rightarrow> kbc" where
  "status_read k = k \<lparr> input_busy := input_busy k - 1, output_in := output_in k - 1 \<rparr>"

definition controller_ok :: "'w boot_bios \<Rightarrow> ('w \<Rightarrow> kbc) \<Rightarrow> bool" where
  "controller_ok b kbc \<longleftrightarrow>
     (\<forall>w. (bit (fst (port_in b KbdControllerCommandPort w)) 1 \<longleftrightarrow> 0 < input_busy (kbc w)) \<and>
       (bit (fst (port_in b KbdControllerCommandPort w)) 0 \<longleftrightarrow> output_byte (kbc w) \<noteq> None \<and> output_in (kbc w) = 0) \<and>
       kbc (snd (port_in b KbdControllerCommandPort w)) = status_read (kbc w)) \<and>
     (\<forall>w v. output_byte (kbc w) = Some v \<longrightarrow> output_in (kbc w) = 0 \<longrightarrow>
       fst (port_in b KbdControllerDataPort w) = v \<and>
       kbc (snd (port_in b KbdControllerDataPort w)) = (kbc w) \<lparr> output_byte := None \<rparr>) \<and>
     (\<forall>w cmd. input_busy (kbc w) = 0 \<longrightarrow> (cmd = KbdControllerReadCtrlOutputPort \<longrightarrow> output_byte (kbc w) = None) \<longrightarrow>
       (\<exists>d e. kbc (port_write b KbdControllerCommandPort cmd w) =
         (kbc_command cmd (kbc w)) \<lparr> input_busy := d, output_in := e \<rparr>)) \<and>
     (\<forall>w v. input_busy (kbc w) = 0 \<longrightarrow> port_next (kbc w) \<longrightarrow>
       (\<exists>d. kbc (port_write b KbdControllerDataPort v w) =
         (kbc w) \<lparr> input_busy := d, output_port := v, port_next := False \<rparr>)) \<and>
     (\<forall>w port v. port \<in> {CMOSRegisterB, CMOSRegisterC} \<longrightarrow>
       kbc (snd (port_in b port w)) = kbc w \<and> kbc (port_write b port v w) = kbc w)"

lemma kbc_commands:
  "kbc_command KbdControllerDisableKeyboard k = k \<lparr> keyboard_on := False \<rparr>"
  "kbc_command KbdControllerEnableKeyboard k = k \<lparr> keyboard_on := True \<rparr>"
  "kbc_command KbdControllerReadCtrlOutputPort k = k \<lparr> output_byte := Some (output_port k) \<rparr>"
  "kbc_command KbdControllerWriteCtrlOutputPort k = k \<lparr> port_next := True \<rparr>"
  by (simp_all add: kbc_command_def KbdControllerDisableKeyboard_def KbdControllerEnableKeyboard_def
      KbdControllerReadCtrlOutputPort_def KbdControllerWriteCtrlOutputPort_def)

lemma status_bits: "al AND 2 \<noteq> 0 \<longleftrightarrow> bit al 1" "al AND 1 = 0 \<longleftrightarrow> \<not> bit al 0" for al :: u8
proof -
  have "(2 :: u8) = push_bit 1 1" by simp
  then show "al AND 2 \<noteq> 0 \<longleftrightarrow> bit al 1"
    using and_exp_eq_0_iff_not_bit [of al 1] by simp
  show "al AND 1 = 0 \<longleftrightarrow> \<not> bit al 0" by (simp add: and_one_eq bit_0 even_iff_mod_2_eq_zero)
qed

lemma controllerD:
  assumes "controller_ok b kbc"
  shows "input_busy (kbc w) = 0 \<Longrightarrow> cmd = KbdControllerReadCtrlOutputPort \<longrightarrow> output_byte (kbc w) = None \<Longrightarrow>
      \<exists>d e. kbc (port_write b KbdControllerCommandPort cmd w) = (kbc_command cmd (kbc w)) \<lparr> input_busy := d, output_in := e \<rparr>"
    and "output_byte (kbc w) = Some v \<Longrightarrow> output_in (kbc w) = 0 \<Longrightarrow> port_in b KbdControllerDataPort w = (al, w') \<Longrightarrow>
      al = v \<and> kbc w' = (kbc w) \<lparr> output_byte := None \<rparr>"
    and "input_busy (kbc w) = 0 \<Longrightarrow> port_next (kbc w) \<Longrightarrow>
      \<exists>d. kbc (port_write b KbdControllerDataPort v w) = (kbc w) \<lparr> input_busy := d, output_port := v, port_next := False \<rparr>"
    and "port \<in> {CMOSRegisterB, CMOSRegisterC} \<Longrightarrow> kbc (snd (port_in b port w)) = kbc w \<and> kbc (port_write b port v w) = kbc w"
  using assms unfolding controller_ok_def by (simp_all only: simp_thms) (metis fst_conv snd_conv)

text \<open>Each wait ends, after as many reads of the status as the controller needs.\<close>

lemma wait_input:
  assumes "controller_ok b kbc"
  shows "\<exists>w' e. A20WaitInput b w = Some w' \<and> kbc w' = (kbc w) \<lparr> input_busy := 0, output_in := e \<rparr>"
proof (induction "input_busy (kbc w)" arbitrary: w)
  case (0 w)
  obtain al w1 where read: "port_in b KbdControllerCommandPort w = (al, w1)" by (cases "port_in b KbdControllerCommandPort w")
  have "\<not> bit al 1" "kbc w1 = status_read (kbc w)" using assms 0 read unfolding controller_ok_def by (metis fst_conv less_irrefl, metis snd_conv)
  then show ?case
    using 0 read by (subst A20WaitInput.simps) (simp only: status_bits prod.case if_False, auto simp: status_read_def)
next
  case (Suc n w)
  obtain al w1 where read: "port_in b KbdControllerCommandPort w = (al, w1)" by (cases "port_in b KbdControllerCommandPort w")
  have al: "bit al 1" and w1: "kbc w1 = status_read (kbc w)"
    using assms Suc.hyps(2) read unfolding controller_ok_def by (metis fst_conv zero_less_Suc, metis snd_conv)
  have step: "A20WaitInput b w = A20WaitInput b w1"
    using al by (subst A20WaitInput.simps) (simp only: read status_bits prod.case if_True)
  have "n = input_busy (kbc w1)" using Suc.hyps(2) w1 by (simp add: status_read_def)
  from Suc.hyps(1) [OF this] show ?case unfolding step by (auto simp: w1 status_read_def)
qed

lemma wait_output:
  assumes "controller_ok b kbc" and "output_byte (kbc w) = Some v"
  shows "\<exists>w' d. A20WaitOutput b w = Some w' \<and> kbc w' = (kbc w) \<lparr> input_busy := d, output_in := 0 \<rparr>"
  using assms(2)
proof (induction "output_in (kbc w)" arbitrary: w)
  case (0 w)
  obtain al w1 where read: "port_in b KbdControllerCommandPort w = (al, w1)" by (cases "port_in b KbdControllerCommandPort w")
  have "bit al 0" "kbc w1 = status_read (kbc w)"
    using assms(1) 0 read unfolding controller_ok_def by (metis fst_conv option.distinct(1), metis snd_conv)
  then show ?case
    using 0 read by (subst A20WaitOutput.simps) (simp only: status_bits prod.case simp_thms if_False, auto simp: status_read_def)
next
  case (Suc n w)
  obtain al w1 where read: "port_in b KbdControllerCommandPort w = (al, w1)" by (cases "port_in b KbdControllerCommandPort w")
  have al: "\<not> bit al 0" and w1: "kbc w1 = status_read (kbc w)"
    using assms(1) Suc.hyps(2) read unfolding controller_ok_def by (metis fst_conv nat.distinct(1), metis snd_conv)
  have step: "A20WaitOutput b w = A20WaitOutput b w1"
    using al by (subst A20WaitOutput.simps) (simp only: read status_bits prod.case if_True simp_thms)
  have "n = output_in (kbc w1)" "output_byte (kbc w1) = Some v" using Suc.hyps(2) Suc.prems w1 by (simp_all add: status_read_def)
  from Suc.hyps(1) [OF this] show ?case unfolding step by (auto simp: w1 status_read_def)
qed

lemma command_sent:
  assumes "controller_ok b kbc" and "cmd = KbdControllerReadCtrlOutputPort \<longrightarrow> output_byte (kbc w) = None"
  shows "\<exists>w' d e. send_command b cmd w = Some w' \<and> kbc w' = (kbc_command cmd (kbc w)) \<lparr> input_busy := d, output_in := e \<rparr>"
proof -
  obtain w1 e1 where w1: "A20WaitInput b w = Some w1" "kbc w1 = (kbc w) \<lparr> input_busy := 0, output_in := e1 \<rparr>"
    using wait_input [OF assms(1)] by blast
  then have "input_busy (kbc w1) = 0" "cmd = KbdControllerReadCtrlOutputPort \<longrightarrow> output_byte (kbc w1) = None"
    using assms(2) by simp_all
  from controllerD(1) [OF assms(1) this] obtain d e where "kbc (port_write b KbdControllerCommandPort cmd w1) =
      (kbc_command cmd (kbc w1)) \<lparr> input_busy := d, output_in := e \<rparr>" by (elim exE)
  then show ?thesis
    using w1 by (intro exI [of _ "port_write b KbdControllerCommandPort cmd w1"] exI [of _ d] exI [of _ e])
      (simp add: send_command_def kbc_command_def)
qed

text \<open>\<^verbatim>\<open>EnableA20\<close> ends, with the gate open and everything else as it was but the keyboard, which is enabled.\<close>

lemma EnableA20_opens:
  assumes "controller_ok b kbc" and "output_byte (kbc w) = None"
  shows "\<exists>w' e. EnableA20 b w = Some w' \<and>
    kbc w' = (kbc w) \<lparr> input_busy := 0, output_in := e, output_byte := None, port_next := False,
      output_port := output_port (kbc w) OR 2, keyboard_on := True \<rparr>"
proof -
  note send = command_sent [OF assms(1)]
  obtain w1 d1 e1 where w1: "send_command b KbdControllerDisableKeyboard w = Some w1"
    "kbc w1 = (kbc w) \<lparr> keyboard_on := False, input_busy := d1, output_in := e1 \<rparr>"
    using send [of KbdControllerDisableKeyboard w] assms(2) unfolding kbc_commands by blast
  obtain w2 d2 e2 where w2: "send_command b KbdControllerReadCtrlOutputPort w1 = Some w2"
    "kbc w2 = (kbc w) \<lparr> keyboard_on := False, output_byte := Some (output_port (kbc w)), input_busy := d2, output_in := e2 \<rparr>"
    using send [of KbdControllerReadCtrlOutputPort w1] assms(2) unfolding kbc_commands by (auto simp: w1(2))
  obtain w3 d3 where w3: "A20WaitOutput b w2 = Some w3" "kbc w3 = (kbc w2) \<lparr> input_busy := d3, output_in := 0 \<rparr>"
    using wait_output [OF assms(1), of w2] by (auto simp: w2(2))
  obtain al w4 where read: "port_in b KbdControllerDataPort w3 = (al, w4)" by (cases "port_in b KbdControllerDataPort w3")
  have "output_byte (kbc w3) = Some (output_port (kbc w))" "output_in (kbc w3) = 0" by (simp_all add: w3(2) w2(2))
  from controllerD(2) [OF assms(1) this read]
  have w4: "al = output_port (kbc w)" "kbc w4 = (kbc w3) \<lparr> output_byte := None \<rparr>" by simp_all
  obtain w5 d5 e5 where w5: "send_command b KbdControllerWriteCtrlOutputPort w4 = Some w5"
    "kbc w5 = (kbc w4) \<lparr> port_next := True, input_busy := d5, output_in := e5 \<rparr>"
    using send [of KbdControllerWriteCtrlOutputPort w4] unfolding kbc_commands by (auto simp: w4(2))
  obtain w6 e6 where w6: "A20WaitInput b w5 = Some w6" "kbc w6 = (kbc w5) \<lparr> input_busy := 0, output_in := e6 \<rparr>"
    using wait_input [OF assms(1)] by blast
  let ?w7 = "port_write b KbdControllerDataPort (al OR 2) w6"
  have "input_busy (kbc w6) = 0" "port_next (kbc w6)" by (simp_all add: w6(2) w5(2))
  from controllerD(3) [OF assms(1) this, of "al OR 2"]
  obtain d7 where w7: "kbc ?w7 = (kbc w6) \<lparr> input_busy := d7, output_port := al OR 2, port_next := False \<rparr>" by (elim exE)
  obtain w8 d8 e8 where w8: "send_command b KbdControllerEnableKeyboard ?w7 = Some w8"
    "kbc w8 = (kbc ?w7) \<lparr> keyboard_on := True, input_busy := d8, output_in := e8 \<rparr>"
    using send [of KbdControllerEnableKeyboard ?w7] unfolding kbc_commands by (auto simp: w7 w6(2) w5(2) w4(2))
  obtain w9 e9 where w9: "A20WaitInput b w8 = Some w9" "kbc w9 = (kbc w8) \<lparr> input_busy := 0, output_in := e9 \<rparr>"
    using wait_input [OF assms(1)] by blast
  have "EnableA20 b w = Some w9"
    by (simp add: EnableA20_def w1(1) w2(1) w3(1) read w5(1) w6(1) w8(1) w9(1))
  moreover have "kbc w9 = (kbc w) \<lparr> input_busy := 0, output_in := e9, output_byte := None, port_next := False,
      output_port := output_port (kbc w) OR 2, keyboard_on := True \<rparr>"
    by (simp add: w9(2) w8(2) w7 [unfolded w4(1)] w6(2) w5(2) w4 w3(2) w2(2))
  ultimately show ?thesis by blast
qed

section \<open>The whole boot sector\<close>

text \<open>The disk services do not leave a byte in the controller's output buffer.\<close>

definition services_quiet :: "'w boot_bios \<Rightarrow> ('w \<Rightarrow> kbc) \<Rightarrow> bool" where
  "services_quiet b kbc \<longleftrightarrow> (\<forall>w. output_byte (kbc w) = None \<longrightarrow>
     (\<forall>r. output_byte (kbc (snd (snd (int13_read (services b) r w)))) = None) \<and>
     (\<forall>dl. output_byte (kbc (snd (int13_reset (services b) dl w))) = None))"

lemma read_retry_quiet:
  assumes "services_quiet b kbc" and "output_byte (kbc (firmware m)) = None" and "read_retry b r di m = (ax, m')"
  shows "output_byte (kbc (firmware m')) = None"
  using assms(2,3)
proof (induction di arbitrary: m)
  case (Suc di)
  obtain ah stored w where read: "int13_read (services b) r (firmware m) = (ah, stored, w)"
    by (cases "int13_read (services b) r (firmware m)")
  obtain carry w2 where reset: "int13_reset (services b) (rDL r) w = (carry, w2)"
    by (cases "int13_reset (services b) (rDL r) w")
  have "output_byte (kbc w) = None" using assms(1) Suc.prems(1) read unfolding services_quiet_def by (metis snd_conv)
  moreover from this have "output_byte (kbc w2) = None" using assms(1) reset unfolding services_quiet_def by (metis snd_conv)
  ultimately show ?case
    using Suc.prems(2) read reset
      Suc.IH [of "m \<lparr> memory := store_at (seg_linear (rES r, rBX r)) stored (memory m), firmware := w2 \<rparr>"]
    by (auto simp: boot_disk_reset_def Let_def split: if_splits)
qed simp

text \<open>The state after \<open>n\<close> reads that failed and were followed by a successful reset each.\<close>

fun after_boot_failures :: "'w bios \<Rightarrow> read_regs \<Rightarrow> nat \<Rightarrow> 'w \<Rightarrow> 'w option" where
  "after_boot_failures bios r 0 w = Some w"
| "after_boot_failures bios r (Suc n) w =
     (let (ah, stored, w) = int13_read bios r w;
          (carry, w) = int13_reset bios (rDL r) w
      in if ah = 0 \<or> carry then None else after_boot_failures bios r n w)"

lemma read_retry_recovers:
  assumes "carry_ok b" and "after_boot_failures (services b) r n (firmware m) = Some w" and "n < di"
    and "fst (int13_read (services b) r w) = 0"
  shows "fst (read_retry b r di m) = 0"
  using assms(2,3)
proof (induction n arbitrary: di m)
  case 0
  then obtain di' where "di = Suc di'" by (cases di) auto
  then show ?case using 0 assms(1,4) by (auto simp: carry_ok_def Let_def split: prod.splits)
next
  case (Suc n)
  obtain di' where di: "di = Suc di'" using Suc.prems(2) by (cases di) auto
  obtain ah stored w1 where read: "int13_read (services b) r (firmware m) = (ah, stored, w1)"
    by (cases "int13_read (services b) r (firmware m)")
  obtain carry w2 where reset: "int13_reset (services b) (rDL r) w1 = (carry, w2)"
    by (cases "int13_reset (services b) (rDL r) w1")
  have "ah \<noteq> 0" "\<not> carry" and rest: "after_boot_failures (services b) r n w2 = Some w"
    using Suc.prems(1) read reset by (auto split: if_splits)
  moreover have "read_carry b r (firmware m)" using assms(1) read \<open>ah \<noteq> 0\<close> by (simp add: carry_ok_def)
  ultimately have "read_retry b r di m = read_retry b r di'
      (m \<lparr> memory := store_at (seg_linear (rES r, rBX r)) stored (memory m), firmware := w2 \<rparr>)"
    using read reset by (simp add: di boot_disk_reset_def)
  then show ?case using Suc.IH [of _ di'] rest Suc.prems(2) di by simp
qed

text \<open>The request for the second stage: the sectors from the second one on, for address 0x7E00.\<close>

definition stage2_request :: "u16 \<Rightarrow> u8 \<Rightarrow> read_regs" where
  "stage2_request reserved_sectors dl =
     \<lparr> rAL = ucast reserved_sectors - 1, rCH = 0, rCL = 2, rDH = 0, rDL = dl, rES = 0, rBX = 0x7E00 \<rparr>"

definition restarted_with :: "u8 list \<Rightarrow> 'w boot_machine \<Rightarrow> 'w boot_machine \<Rightarrow> bool" where
  "restarted_with msg m m' \<longleftrightarrow> teletype m' = teletype m @ butlast msg @ butlast press_key"

lemma boot_print_text: "0 \<notin> set cs \<Longrightarrow> boot_print (cs @ [0]) m = m \<lparr> teletype := teletype m @ cs \<rparr>"
  by (induction cs arbitrary: m) auto

lemma boot_error_restarts:
  assumes "msg \<in> {disk_reset_fail, disk_read_fail}"
  shows "\<exists>m'. boot_error b msg m = (Restarted, m') \<and> restarted_with msg m m'"
proof -
  have texts: "msg = butlast msg @ [0] \<and> 0 \<notin> set (butlast msg)" "press_key = butlast press_key @ [0]" "0 \<notin> set (butlast press_key)"
    using assms by (auto simp: disk_reset_fail_def disk_read_fail_def press_key_def)
  then have "boot_print msg m = m \<lparr> teletype := teletype m @ butlast msg \<rparr>"
    "boot_print press_key m1 = m1 \<lparr> teletype := teletype m1 @ butlast press_key \<rparr>" for m1 :: "'a boot_machine"
    by (metis boot_print_text)+
  then show ?thesis by (simp add: boot_error_def restarted_with_def)
qed

lemma boot_main_runs:
  assumes "controller_ok b kbc" and "services_quiet b kbc" and "output_byte (kbc (firmware m)) = None"
    and "reads_disk (services b) disk img" and "carry_ok b" and "drive disk = dl"
    and "sectors disk = bdb_sectors_per_track" and "heads disk = bdb_heads"
  obtains ax mem w where "read_retry b (stage2_request reserved dl) 3 (m \<lparr> ebr_drive_number := dl \<rparr>) =
      (ax, m \<lparr> ebr_drive_number := dl, memory := mem, firmware := w \<rparr>)"
    and "ax \<in> {0, 1, 2}"
    and "\<forall>i. 512 * unat (ucast reserved - 1 :: u8) \<le> unat (i - 0x7E00) \<longrightarrow> mem i = memory m i"
    and "ax = 0 \<Longrightarrow> holds_from 0x7E00 (sector_data img 1 (unat (ucast reserved - 1 :: u8))) mem"
    and "ax \<noteq> 0 \<Longrightarrow> \<exists>m'. boot_main b reserved dl m = Some (Restarted, m') \<and>
      restarted_with (if ax = 2 then disk_reset_fail else disk_read_fail) m m'"
    and "ax = 0 \<Longrightarrow> \<exists>w'. bit (output_port (kbc w')) 1 \<and> keyboard_on (kbc w') \<and>
      boot_main b reserved dl m = Some (Jumped 0x08 0x7E00, m \<lparr> ebr_drive_number := dl, memory := mem, firmware := w',
        boot_gdt := g_GDT, boot_CR0 := boot_CR0 m OR 1, boot_IF := False \<rparr>)"
proof -
  let ?r = "stage2_request reserved dl" and ?m = "m \<lparr> ebr_drive_number := dl \<rparr>"
  let ?n = "unat (ucast reserved - 1 :: u8)"
  have r: "rDL ?r = drive disk" "rAL ?r = ucast reserved - 1" "seg_linear (rES ?r, rBX ?r) = 0x7E00" "request_lba disk ?r = 1"
    by (simp_all add: stage2_request_def assms(6) seg_linear_def request_lba_def)
  from read_retry_result [OF assms(4,5) r(1), of 3 ?m, unfolded r(2-4)]
  obtain ax mem w where run: "read_retry b ?r 3 ?m = (ax, ?m \<lparr> memory := mem, firmware := w \<rparr>)" and ax: "ax \<in> {0, 1, 2}"
    and other: "\<forall>i. 512 * ?n \<le> unat (i - 0x7E00) \<longrightarrow> mem i = memory m i"
    and held: "ax = 0 \<longrightarrow> holds_from 0x7E00 (sector_data img 1 ?n) mem"
    by auto
  let ?m1 = "?m \<lparr> memory := mem, firmware := w \<rparr>"
  have "boot_lba_to_chs 1 = (0, 2, 0)"
    by (simp add: boot_lba_to_chs_def bdb_sectors_per_track_def bdb_heads_def)
  then have read: "boot_disk_read b (ucast reserved - 1) (boot_lba_to_chs 1) dl 0 0x7E00 ?m = (ax, ?m1)"
    using run by (simp add: boot_disk_read_def stage2_request_def)
  have quiet: "output_byte (kbc w) = None"
    using read_retry_quiet [OF assms(2) _ run] assms(3) by simp
  have failed: "\<exists>m'. boot_main b reserved dl m = Some (Restarted, m') \<and>
      restarted_with (if ax = 2 then disk_reset_fail else disk_read_fail) m m'" if "ax \<noteq> 0"
  proof -
    let ?msg = "if ax = 2 then disk_reset_fail else disk_read_fail"
    have main: "boot_main b reserved dl m = Some (boot_error b ?msg ?m1)"
      using ax that read by (auto simp: boot_main_def)
    have "?msg \<in> {disk_reset_fail, disk_read_fail}" by simp
    from boot_error_restarts [OF this] obtain m' where "boot_error b ?msg ?m1 = (Restarted, m')" "restarted_with ?msg ?m1 m'"
      by blast
    then show ?thesis using main by (simp add: restarted_with_def)
  qed
  have jumps: "\<exists>w'. bit (output_port (kbc w')) 1 \<and> keyboard_on (kbc w') \<and>
      boot_main b reserved dl m = Some (Jumped 0x08 0x7E00, m \<lparr> ebr_drive_number := dl, memory := mem, firmware := w',
        boot_gdt := g_GDT, boot_CR0 := boot_CR0 m OR 1, boot_IF := False \<rparr>)" if "ax = 0"
  proof -
    obtain v1 w1 where in1: "port_in b CMOSRegisterB w = (v1, w1)" by (cases "port_in b CMOSRegisterB w")
    let ?w2 = "port_write b CMOSRegisterB (v1 OR 0x80) w1"
    obtain v3 w3 where in3: "port_in b CMOSRegisterC ?w2 = (v3, w3)" by (cases "port_in b CMOSRegisterC ?w2")
    note cmos = controllerD(4) [OF assms(1)]
    have "kbc w1 = kbc w" using cmos [of CMOSRegisterB w] in1 by simp
    moreover have "kbc ?w2 = kbc w1" using cmos [of CMOSRegisterB] by simp
    moreover have "kbc w3 = kbc ?w2" using cmos [of CMOSRegisterC ?w2] in3 by simp
    ultimately have "output_byte (kbc w3) = None" using quiet by simp
    from EnableA20_opens [OF assms(1) this] obtain w' where w': "EnableA20 b w3 = Some w'"
      "output_port (kbc w') = output_port (kbc w3) OR 2" "keyboard_on (kbc w')" by auto
    have "bit (2 :: u8) 1" by (simp add: bit_numeral_rec)
    then have "bit (output_port (kbc w')) 1" by (simp add: w'(2) bit_simps)
    then show ?thesis
      using w' read in1 in3 that by (intro exI [of _ w']) (simp add: boot_main_def)
  qed
  show ?thesis using that [OF _ ax other _ failed jumps] run held by simp
qed

text \<open>
  C13: The boot sector never runs the second stage without having loaded it, and never hangs: on every BIOS
  that reads the disk it was started from, however often it fails, and with a keyboard controller that
  keeps to its protocol, it either has all of the second stage's sectors at 0x7E00, the A20 gate open, the
  keyboard enabled again, interrupts off, protected mode on and jumps there through its flat 32-bit code
  segment, or it says on the screen which step failed and restarts the machine.  No memory is
  changed outside the sectors read.  The sectors of the second stage are meant here as the code counts
  them, one less than the reserved sectors in 8 bits: with more than 256 reserved sectors only
  \<open>(reserved - 1) mod 256\<close> of them are read.
\<close>

theorem boot_main_outcome:
  assumes "controller_ok b kbc" and "services_quiet b kbc" and "output_byte (kbc (firmware m)) = None"
    and "reads_disk (services b) disk img" and "carry_ok b" and "drive disk = dl"
    and "sectors disk = bdb_sectors_per_track" and "heads disk = bdb_heads"
  shows "\<exists>out m'. boot_main b reserved dl m = Some (out, m') \<and>
    (out = Jumped 0x08 0x7E00 \<and> ebr_drive_number m' = dl \<and>
       holds_from 0x7E00 (sector_data img 1 (unat (ucast reserved - 1 :: u8))) (memory m') \<and>
       (\<forall>i. 512 * unat (ucast reserved - 1 :: u8) \<le> unat (i - 0x7E00) \<longrightarrow> memory m' i = memory m i) \<and>
       bit (output_port (kbc (firmware m'))) 1 \<and> keyboard_on (kbc (firmware m')) \<and>
       \<not> boot_IF m' \<and> bit (boot_CR0 m') 0 \<and> selected (boot_gdt m') 0x08 = Some (0, 0xFFFFF, 0x9A, 0xC) \<or>
     out = Restarted \<and> (restarted_with disk_reset_fail m m' \<or> restarted_with disk_read_fail m m'))"
proof (rule boot_main_runs [OF assms, of reserved])
  have sel: "selected g_GDT 0x08 = Some (0, 0xFFFFF, 0x9A, 0xC)"
    by (simp add: selected_def g_GDT_def descriptor_def descriptor_base_def descriptor_limit_def descriptor_flags_def)
  fix ax mem w
  assume other: "\<forall>i. 512 * unat (ucast reserved - 1 :: u8) \<le> unat (i - 0x7E00) \<longrightarrow> mem i = memory m i"
    and held: "ax = 0 \<Longrightarrow> holds_from 0x7E00 (sector_data img 1 (unat (ucast reserved - 1 :: u8))) mem"
    and failed: "ax \<noteq> (0 :: u16) \<Longrightarrow> \<exists>m'. boot_main b reserved dl m = Some (Restarted, m') \<and>
      restarted_with (if ax = 2 then disk_reset_fail else disk_read_fail) m m'"
    and jumps: "ax = 0 \<Longrightarrow> \<exists>w'. bit (output_port (kbc w')) 1 \<and> keyboard_on (kbc w') \<and>
      boot_main b reserved dl m = Some (Jumped 0x08 0x7E00, m \<lparr> ebr_drive_number := dl, memory := mem, firmware := w',
        boot_gdt := g_GDT, boot_CR0 := boot_CR0 m OR 1, boot_IF := False \<rparr>)"
  show ?thesis
  proof (cases "ax = 0")
    case True
    then show ?thesis using jumps held other sel by (auto simp: bit_simps)
  next
    case False
    then show ?thesis using failed by (auto split: if_splits)
  qed
qed

text \<open>With a disk that fails at most twice the second stage is reached.\<close>

lemma boot_main_ok:
  assumes "controller_ok b kbc" and "services_quiet b kbc" and "output_byte (kbc (firmware m)) = None"
    and "reads_disk (services b) disk img" and "carry_ok b" and "drive disk = dl"
    and "sectors disk = bdb_sectors_per_track" and "heads disk = bdb_heads"
    and "after_boot_failures (services b) (stage2_request reserved dl) n (firmware m) = Some w" and "n < 3"
    and "fst (int13_read (services b) (stage2_request reserved dl) w) = 0"
  shows "\<exists>m'. boot_main b reserved dl m = Some (Jumped 0x08 0x7E00, m') \<and> ebr_drive_number m' = dl \<and>
    holds_from 0x7E00 (sector_data img 1 (unat (ucast reserved - 1 :: u8))) (memory m')"
proof (rule boot_main_runs [OF assms(1-8), of reserved])
  fix ax mem w1
  assume run: "read_retry b (stage2_request reserved dl) 3 (m \<lparr> ebr_drive_number := dl \<rparr>) =
      (ax, m \<lparr> ebr_drive_number := dl, memory := mem, firmware := w1 \<rparr>)"
    and held: "ax = 0 \<Longrightarrow> holds_from 0x7E00 (sector_data img 1 (unat (ucast reserved - 1 :: u8))) mem"
    and jumps: "ax = 0 \<Longrightarrow> \<exists>w'. bit (output_port (kbc w')) 1 \<and> keyboard_on (kbc w') \<and>
      boot_main b reserved dl m = Some (Jumped 0x08 0x7E00, m \<lparr> ebr_drive_number := dl, memory := mem, firmware := w',
        boot_gdt := g_GDT, boot_CR0 := boot_CR0 m OR 1, boot_IF := False \<rparr>)"
  have "fst (read_retry b (stage2_request reserved dl) 3 (m \<lparr> ebr_drive_number := dl \<rparr>)) = 0"
    using read_retry_recovers [OF assms(5) _ assms(10,11), of "m \<lparr> ebr_drive_number := dl \<rparr>"] assms(9) by simp
  then show ?thesis using run held jumps by auto
qed

text \<open>
  A drive that fails up to twice before it reads does not keep the machine from booting: each failed
  read is followed by a reset of the drive the BIOS named, and the third attempt still loads the second
  stage, which is entered with the number of that drive in the boot record.
\<close>

theorem boot_main_recovers:
  assumes "controller_ok b kbc" and "services_quiet b kbc" and "output_byte (kbc (firmware m)) = None"
    and "reads_disk (services b) disk img" and "carry_ok b" and "drive disk = dl"
    and "sectors disk = bdb_sectors_per_track" and "heads disk = bdb_heads"
    and "after_boot_failures (services b) (stage2_request reserved dl) n (firmware m) = Some w" and "n < 3"
    and "fst (int13_read (services b) (stage2_request reserved dl) w) = 0"
  shows "\<exists>m'. boot_main b reserved dl m = Some (Jumped 0x08 0x7E00, m') \<and> ebr_drive_number m' = dl \<and>
    holds_from 0x7E00 (sector_data img 1 (unat (ucast reserved - 1 :: u8))) (memory m')"
  by (rule boot_main_ok [OF assms])

section \<open>A machine\<close>

text \<open>A controller that takes two status reads for a command and three for an answer, beside a BIOS.\<close>

definition kbc_in :: "u16 \<Rightarrow> kbc \<Rightarrow> u8 \<times> kbc" where
  "kbc_in port k =
     (if port = KbdControllerCommandPort then
        ((if 0 < input_busy k then 2 else 0) OR (if output_byte k \<noteq> None \<and> output_in k = 0 then 1 else 0), status_read k)
      else if port = KbdControllerDataPort then
        (case output_byte k of None \<Rightarrow> (0, k) | Some v \<Rightarrow> (v, k \<lparr> output_byte := None \<rparr>))
      else (0, k))"

definition kbc_write :: "u16 \<Rightarrow> u8 \<Rightarrow> kbc \<Rightarrow> kbc" where
  "kbc_write port v k =
     (if port = KbdControllerCommandPort then (kbc_command v k) \<lparr> input_busy := 2, output_in := 3 \<rparr>
      else if port = KbdControllerDataPort \<and> port_next k then
        k \<lparr> input_busy := 2, output_port := v, port_next := False \<rparr>
      else k)"

definition beside :: "'v bios \<Rightarrow> ('v \<times> 'k) bios" where
  "beside bios = \<lparr>
     int13_reset = (\<lambda>dl (w, k). let (c, w) = int13_reset bios dl w in (c, w, k)),
     int13_read = (\<lambda>r (w, k). let (ah, stored, w) = int13_read bios r w in (ah, stored, w, k)),
     int13_params = (\<lambda>dl (w, k). let (p, w) = int13_params bios dl w in (p, w, k)),
     int15_e820 = (\<lambda>cont (w, k). let (r, w) = int15_e820 bios cont w in (r, w, k)),
     cpuid_vendor = cpuid_vendor bios, cr0_high = cr0_high bios, reset_return = reset_return bios \<rparr>"

definition pc :: "'v bios \<Rightarrow> ('v \<times> kbc) boot_bios" where
  "pc bios = \<lparr> services = beside bios, read_carry = (\<lambda>r (w, k). fst (int13_read bios r w) \<noteq> 0), wait_key = (\<lambda>w. w),
     port_in = (\<lambda>port (w, k). let (v, k) = kbc_in port k in (v, w, k)),
     port_write = (\<lambda>port v (w, k). (w, kbc_write port v k)) \<rparr>"

definition idle_kbc :: kbc where
  "idle_kbc = \<lparr> input_busy = 0, output_in = 0, output_byte = None, port_next = False, output_port = 0xC1, keyboard_on = True \<rparr>"

definition power_on :: "'v \<Rightarrow> ('v \<times> kbc) boot_machine" where
  "power_on w = \<lparr> memory = (\<lambda>a. 0), teletype = [], ebr_drive_number = 0, boot_gdt = [], boot_CR0 = 0x10, boot_IF = True,
     firmware = (w, idle_kbc) \<rparr>"

lemma status_byte:
  "bit ((if p then 2 else 0) OR (if q then 1 else 0) :: u8) 1 \<longleftrightarrow> p"
  "bit ((if p then 2 else 0) OR (if q then 1 else 0) :: u8) 0 \<longleftrightarrow> q"
  by (simp_all add: bit_numeral_rec bit_simps)

lemma ports_distinct:
  "KbdControllerDataPort \<noteq> KbdControllerCommandPort" "CMOSRegisterB \<noteq> KbdControllerCommandPort"
  "CMOSRegisterB \<noteq> KbdControllerDataPort" "CMOSRegisterC \<noteq> KbdControllerCommandPort" "CMOSRegisterC \<noteq> KbdControllerDataPort"
  by (simp_all add: KbdControllerDataPort_def KbdControllerCommandPort_def CMOSRegisterB_def CMOSRegisterC_def)

lemma pc_controller: "controller_ok (pc bios) snd"
proof -
  have "\<exists>d e. (kbc_command cmd k) \<lparr> input_busy := 2, output_in := 3 \<rparr> = (kbc_command cmd k) \<lparr> input_busy := d, output_in := e \<rparr>"
    "\<exists>d. k \<lparr> input_busy := 2, output_port := v, port_next := False \<rparr> =
      k \<lparr> input_busy := d, output_port := v, port_next := False \<rparr>" for cmd k v
    by blast+
  then show ?thesis
    by (auto simp: controller_ok_def pc_def kbc_in_def kbc_write_def ports_distinct status_byte Let_def split: prod.splits)
qed

lemma pc_quiet: "services_quiet (pc bios) snd"
  by (auto simp: services_quiet_def pc_def beside_def split: prod.splits)

lemma pc_carry: "carry_ok (pc bios)"
  by (auto simp: carry_ok_def pc_def beside_def split: prod.splits)

lemma beside_reads: "reads_disk bios disk img \<Longrightarrow> reads_disk (services (pc bios)) disk img"
  unfolding reads_disk_def pc_def beside_def by (simp split: prod.splits) metis

theorem boot_main_outcome_witness:
  "\<exists>out m'. boot_main (pc (flaky_bios floppy test_image)) 80 0 (power_on 5) = Some (out, m') \<and>
    (out = Jumped 0x08 0x7E00 \<and> ebr_drive_number m' = 0 \<and>
       holds_from 0x7E00 (sector_data test_image 1 (unat (ucast (80 :: u16) - 1 :: u8))) (memory m') \<and>
       (\<forall>i. 512 * unat (ucast (80 :: u16) - 1 :: u8) \<le> unat (i - 0x7E00) \<longrightarrow> memory m' i = memory (power_on (5 :: nat)) i) \<and>
       bit (output_port (snd (firmware m'))) 1 \<and> keyboard_on (snd (firmware m')) \<and>
       \<not> boot_IF m' \<and> bit (boot_CR0 m') 0 \<and> selected (boot_gdt m') 0x08 = Some (0, 0xFFFFF, 0x9A, 0xC) \<or>
     out = Restarted \<and> (restarted_with disk_reset_fail (power_on 5) m' \<or> restarted_with disk_read_fail (power_on 5) m'))"
  by (rule boot_main_outcome [OF pc_controller pc_quiet _ beside_reads [OF flaky_reads_disk] pc_carry])
    (simp_all add: power_on_def idle_kbc_def length_test_image floppy_def bdb_sectors_per_track_def bdb_heads_def)

theorem boot_main_recovers_witness:
  "\<exists>m'. boot_main (pc (flaky_bios floppy test_image)) 80 0 (power_on 2) = Some (Jumped 0x08 0x7E00, m') \<and>
    ebr_drive_number m' = 0 \<and> holds_from 0x7E00 (sector_data test_image 1 (unat (ucast (80 :: u16) - 1 :: u8))) (memory m')"
proof (rule boot_main_recovers [OF pc_controller pc_quiet _ beside_reads [OF flaky_reads_disk] pc_carry])
  show "after_boot_failures (services (pc (flaky_bios floppy test_image))) (stage2_request 80 0) 2 (firmware (power_on 2)) =
      Some (0, idle_kbc)"
  proof -
    have "(2 :: nat) = Suc (Suc 0)" "(4 :: u8) \<noteq> 0" by simp_all
    then show ?thesis
      by (simp only: after_boot_failures.simps) (simp add: power_on_def pc_def beside_def flaky_bios_def)
  qed
  show "fst (int13_read (services (pc (flaky_bios floppy test_image))) (stage2_request 80 0) (0, idle_kbc)) = 0"
    by (simp add: pc_def beside_def flaky_bios_def)
qed (simp_all add: power_on_def idle_kbc_def length_test_image floppy_def bdb_sectors_per_track_def bdb_heads_def)

end
