(* ===== verification/Boot_Record.thy ===== *)
theory Boot_Record
  imports Boot_Sector Fat_Open
begin

text \<open>
  The boot record: \<^verbatim>\<open>FAT_BootSector\<close> of \<^verbatim>\<open>libs/fat.c\<close>, the view the loader has of the first sector of the
  disk, and the sector \<^verbatim>\<open>boot.asm\<close> assembles, which is to be one.
\<close>

section \<open>The view of the loader\<close>

text \<open>The packed structure, and the union that makes it a view of 512 bytes.\<close>

record FAT_BootSector =
  BootJumpInstruction :: "u8 list"
  OemIdentifier :: "u8 list"
  BytesPerSector :: u16
  SectorsPerCluster :: u8
  ReservedSectors :: u16
  FatCount :: u8
  DirEntryCount :: u16
  TotalSectors :: u16
  MediaDescriptorType :: u8
  SectorsPerFat :: u16
  SectorsPerTrack :: u16
  Heads :: u16
  HiddenSectors :: u32
  LargeSectorCount :: u32
  DriveNumber :: u8
  bs_Reserved :: u8
  Signature :: u8
  VolumeId :: u32
  VolumeLabel :: "u8 list"
  SystemId :: "u8 list"

definition bytes_at :: "u8 list \<Rightarrow> nat \<Rightarrow> nat \<Rightarrow> u8 list" where
  "bytes_at bs i n = take n (drop i bs)"

definition le32_at :: "u8 list \<Rightarrow> nat \<Rightarrow> u32" where
  "le32_at bs i = le32 (bs ! i) (bs ! (i + 1)) (bs ! (i + 2)) (bs ! (i + 3))"

definition BootSector :: "u8 list \<Rightarrow> FAT_BootSector" where
  "BootSector bs = \<lparr> BootJumpInstruction = bytes_at bs 0 3, OemIdentifier = bytes_at bs 3 8,
     BytesPerSector = le16_at bs 11, SectorsPerCluster = bs ! 13, ReservedSectors = le16_at bs 14, FatCount = bs ! 16,
     DirEntryCount = le16_at bs 17, TotalSectors = le16_at bs 19, MediaDescriptorType = bs ! 21, SectorsPerFat = le16_at bs 22,
     SectorsPerTrack = le16_at bs 24, Heads = le16_at bs 26, HiddenSectors = le32_at bs 28, LargeSectorCount = le32_at bs 32,
     DriveNumber = bs ! 36, bs_Reserved = bs ! 37, Signature = bs ! 38, VolumeId = le32_at bs 39,
     VolumeLabel = bytes_at bs 43 11, SystemId = bytes_at bs 54 8 \<rparr>"

text \<open>The fields the operations on the volume read are those of the structure.\<close>

lemma fields_of_BootSector:
  "Fat12.BytesPerSector m = BytesPerSector (BootSector (BootSectorBytes m))"
  "Fat12.SectorsPerCluster m = SectorsPerCluster (BootSector (BootSectorBytes m))"
  "Fat12.ReservedSectors m = ReservedSectors (BootSector (BootSectorBytes m))"
  "Fat12.FatCount m = FatCount (BootSector (BootSectorBytes m))"
  "Fat12.DirEntryCount m = DirEntryCount (BootSector (BootSectorBytes m))"
  "Fat12.SectorsPerFat m = SectorsPerFat (BootSector (BootSectorBytes m))"
  "Fat12.Signature m = Signature (BootSector (BootSectorBytes m))"
  by (simp_all add: BootSector_def Fat12.BytesPerSector_def Fat12.SectorsPerCluster_def Fat12.ReservedSectors_def
      Fat12.FatCount_def Fat12.DirEntryCount_def Fat12.SectorsPerFat_def Fat12.Signature_def)

section \<open>The sector of the boot loader\<close>

text \<open>
  The bytes \<^verbatim>\<open>boot.asm\<close> assembles: a short jump over the record and a \<^verbatim>\<open>nop\<close>, the record, with
  \<^verbatim>\<open>reserved_sectors\<close> from the linker, the code, padded, and the boot signature.
\<close>

definition dw :: "u16 \<Rightarrow> u8 list" where "dw w = [ucast w, ucast (drop_bit 8 w)]"
definition dd :: "u32 \<Rightarrow> u8 list" where
  "dd w = [ucast w, ucast (drop_bit 8 w), ucast (drop_bit 16 w), ucast (drop_bit 24 w)]"

definition boot_record :: "u16 \<Rightarrow> u8 list" where
  "boot_record rsv =
     [0xEB, 0x3C, 0x90] @ bytes_of ''MSWIN4.1'' @ dw 512 @ [1] @ dw rsv @ [2] @ dw 0xE0 @ dw 2880 @ [0xF0] @
     dw 9 @ dw bdb_sectors_per_track @ dw bdb_heads @ dd 0 @ dd 0 @
     [0, 0, 0x29] @ [0x03, 0x17, 0x20, 0x04] @ bytes_of ''HTTP OS    '' @ bytes_of ''FAT12   ''"

text \<open>\<^verbatim>\<open>linker.ld\<close>: the sectors the boot sector and the second stage take, from where the image ends.\<close>

definition reserved_sectors :: "nat \<Rightarrow> nat" where
  "reserved_sectors image_end = (image_end - 0x7C00) div 512 + 1"

definition boot_image :: "u16 \<Rightarrow> u8 list \<Rightarrow> u8 list" where
  "boot_image rsv code =
     boot_record rsv @ code @ replicate (510 - 62 - length code) 0 @ dw 0xAA55"

lemma length_boot_record: "length (boot_record rsv) = 62"
  by (simp add: boot_record_def dw_def dd_def)

lemma length_boot_image: "length code \<le> 448 \<Longrightarrow> length (boot_image rsv code) = 512"
  by (simp add: boot_image_def length_boot_record dw_def)

lemma le16_dw: "le16 (ucast w) (ucast (drop_bit 8 w)) = w" for w :: u16
  unfolding le16_def by (rule bit_word_eqI) (auto simp: bit_simps)

lemma BootSector_prefix:
  assumes "length bs = 62"
  shows "BootSector (bs @ rest) = BootSector bs"
  using assms by (simp add: BootSector_def bytes_at_def le16_at_def le32_at_def nth_append)

lemma BootSector_record:
  "BootSector (boot_record rsv) = \<lparr> BootJumpInstruction = [0xEB, 0x3C, 0x90], OemIdentifier = bytes_of ''MSWIN4.1'',
     BytesPerSector = 512, SectorsPerCluster = 1, ReservedSectors = rsv, FatCount = 2, DirEntryCount = 0xE0,
     TotalSectors = 2880, MediaDescriptorType = 0xF0, SectorsPerFat = 9, SectorsPerTrack = bdb_sectors_per_track,
     Heads = bdb_heads, HiddenSectors = 0, LargeSectorCount = 0, DriveNumber = 0, bs_Reserved = 0, Signature = 0x29,
     VolumeId = 0x04201703, VolumeLabel = bytes_of ''HTTP OS    '', SystemId = bytes_of ''FAT12   '' \<rparr>"
  by (simp add: BootSector_def boot_record_def bytes_at_def le16_at_def le32_at_def le16_dw [unfolded le16_def] dw_def dd_def le32_def le16_def
      bdb_sectors_per_track_def bdb_heads_def)

lemma boot_image_layout:
  fixes rsv :: u16 and code :: "u8 list"
  defines "b \<equiv> boot_image rsv code"
  shows "table_lba b = unat rsv" "table_sectors b = 9" "root_entries b = 224" "root_lba b = unat rsv + 18"
    "data_lba b = unat rsv + 32" "b ! 38 = 0x29" "le16_at b 11 = 512" "BootSector b = BootSector (boot_record rsv)"
proof -
  show same: "BootSector b = BootSector (boot_record rsv)"
    unfolding b_def boot_image_def by (rule BootSector_prefix [OF length_boot_record])
  show "b ! 38 = 0x29" "le16_at b 11 = 512" "table_lba b = unat rsv" "table_sectors b = 9" "root_entries b = 224"
      "root_lba b = unat rsv + 18" "data_lba b = unat rsv + 32"
    using same unfolding BootSector_record
    by (simp_all add: BootSector_def data_lba_def root_lba_def table_lba_def table_sectors_def root_entries_def)
qed

text \<open>
  C17: The sector the boot loader is assembled into is a boot record the loader of the second stage reads
  right: \<^verbatim>\<open>FAT_BootSector\<close> has in every field the value \<^verbatim>\<open>boot.asm\<close> gives it, and the jump at its start lands
  on the byte behind it.  The sectors the linker reserves hold the image up to its end; and on a disk
  of 2880 sectors the record describes a volume \<^verbatim>\<open>FAT_Initialize\<close> accepts, with the table behind those
  sectors, the root directory behind two tables and the data behind its 224 entries.
\<close>

theorem boot_image_record:
  assumes "length code \<le> 448" and "0x7C00 \<le> image_end" and "image_end \<le> 0x7C00 + 512 * 2846"
    and "rsv = of_nat (reserved_sectors image_end)" and "disk_size disk = 2880"
  shows "length (boot_image rsv code) = 512 \<and>
    BootSector (boot_image rsv code) = \<lparr> BootJumpInstruction = [0xEB, 0x3C, 0x90], OemIdentifier = bytes_of ''MSWIN4.1'',
      BytesPerSector = 512, SectorsPerCluster = 1, ReservedSectors = rsv, FatCount = 2, DirEntryCount = 0xE0,
      TotalSectors = 2880, MediaDescriptorType = 0xF0, SectorsPerFat = 9, SectorsPerTrack = bdb_sectors_per_track,
      Heads = bdb_heads, HiddenSectors = 0, LargeSectorCount = 0, DriveNumber = 0, bs_Reserved = 0, Signature = 0x29,
      VolumeId = 0x04201703, VolumeLabel = bytes_of ''HTTP OS    '', SystemId = bytes_of ''FAT12   '' \<rparr> \<and>
    drop (2 + unat (boot_image rsv code ! 1)) (boot_image rsv code) = code @ replicate (448 - length code) 0 @ dw 0xAA55 \<and>
    image_end < 0x7C00 + 512 * table_lba (boot_image rsv code) \<and>
    volume_ok disk (boot_image rsv code) \<and> root_entries (boot_image rsv code) = 224 \<and>
    root_lba (boot_image rsv code) = table_lba (boot_image rsv code) + 18 \<and>
    data_lba (boot_image rsv code) = table_lba (boot_image rsv code) + 32"
proof -
  note layout = boot_image_layout [of rsv code]
  let ?n = "(image_end - 0x7C00) div 512"
  have n: "?n < 2847" using assms(3) by simp
  then have rsv: "unat rsv = ?n + 1"
    unfolding assms(4) reserved_sectors_def by (subst unat_of_nat_small) simp_all
  have "volume_ok disk (boot_image rsv code)"
    using assms(5) rsv n by (simp add: volume_ok_def layout)
  moreover have "image_end < 0x7C00 + 512 * table_lba (boot_image rsv code)"
    using assms(2) unfolding layout(1) rsv by simp
  moreover have "boot_image rsv code ! 1 = 0x3C"
    by (simp add: boot_image_def boot_record_def)
  then have "drop (2 + unat (boot_image rsv code ! 1)) (boot_image rsv code) = code @ replicate (448 - length code) 0 @ dw 0xAA55"
    by (simp add: boot_image_def length_boot_record)
  ultimately show ?thesis
    using length_boot_image [OF assms(1), of rsv] layout(1,3,4,5,8) by (simp only: BootSector_record simp_thms)
qed

text \<open>An image of 16 kB.\<close>

theorem boot_image_record_witness:
  "volume_ok floppy (boot_image 33 [0x31, 0xC0]) \<and>
   data_lba (boot_image 33 [0x31, 0xC0]) = table_lba (boot_image 33 [0x31, 0xC0]) + 32"
  using boot_image_record [of "[0x31, 0xC0]" "0xBC00" 33 floppy]
  by (simp add: floppy_def disk_size_def reserved_sectors_def)

end
