(* ===== verification/Prekernel.thy ===== *)
theory Prekernel
  imports Pager
begin

text \<open>
  \<^verbatim>\<open>prekernel.asm\<close>, the first code of the kernel: the page tables and segment descriptors it is assembled
  with, and \<^verbatim>\<open>kinit\<close>, which takes the processor from 32-bit protected mode to \<^verbatim>\<open>main\<close> in long mode.
\<close>

section \<open>Data\<close>

text \<open>
  The addresses the linker gives to the data section of this file (which is aligned to pages, as the
  largest alignment in it is), to the stack and to \<^verbatim>\<open>main\<close>.  The labels in the section follow from its
  layout: the alignments in it never need padding.
\<close>

record prekernel_symbols =
  data_section :: u64
  stack_top :: u64
  addr_main :: u64

definition init_page_pml4 :: "prekernel_symbols \<Rightarrow> u64" where
  "init_page_pml4 syms = data_section syms"

definition init_page_dir_tab :: "prekernel_symbols \<Rightarrow> u64" where
  "init_page_dir_tab syms = init_page_pml4 syms + 512 * 8"

definition kern_page_dir_tab :: "prekernel_symbols \<Rightarrow> u64" where
  "kern_page_dir_tab syms = init_page_dir_tab syms + 512 * 8"

definition init_page_dir :: "prekernel_symbols \<Rightarrow> u64" where
  "init_page_dir syms = kern_page_dir_tab syms + 512 * 8"

definition init_GDT :: "prekernel_symbols \<Rightarrow> u64" where
  "init_GDT syms = init_page_dir syms + 512 * 8"

definition init_GDTDesc :: "prekernel_symbols \<Rightarrow> u64" where
  "init_GDTDesc syms = init_GDT syms + 5 * 8"

text \<open>
  An entry that leads to a table: \<^verbatim>\<open>((label-$$-0xffffffffc0000000) | 1) + $$\<close>.
\<close>

definition table_entry :: "prekernel_symbols \<Rightarrow> u64 \<Rightarrow> u64" where
  "table_entry syms label = ((label - data_section syms - 0xffffffffc0000000) OR 1) + data_section syms"

definition init_pml4_words :: "prekernel_symbols \<Rightarrow> u64 list" where
  "init_pml4_words syms = [table_entry syms (init_page_dir_tab syms)] @ replicate (512 - 2) 0 @
     [table_entry syms (kern_page_dir_tab syms)]"

definition init_dir_tab_words :: "prekernel_symbols \<Rightarrow> u64 list" where
  "init_dir_tab_words syms = [table_entry syms (init_page_dir syms)] @ replicate (512 - 1) 0"

definition kern_dir_tab_words :: "prekernel_symbols \<Rightarrow> u64 list" where
  "kern_dir_tab_words syms = replicate (512 - 1) 0 @ [table_entry syms (init_page_dir syms)]"

definition init_page_dir_words :: "u64 list" where
  "init_page_dir_words = map (\<lambda>i. push_bit 21 (of_nat i) OR 0x83) [0..<512]"

definition init_GDT_entries :: "gdt_entry_struct list" where
  "init_GDT_entries =
    [\<lparr> limit = 0, base_low = 0, base_mid = 0, access = 0, flags = 0, base_high = 0 \<rparr>,
     \<lparr> limit = 0xFFFF, base_low = 0, base_mid = 0, access = 0x9A, flags = 0xCF, base_high = 0 \<rparr>,
     \<lparr> limit = 0xFFFF, base_low = 0, base_mid = 0, access = 0x92, flags = 0xCF, base_high = 0 \<rparr>,
     \<lparr> limit = 0xFFFF, base_low = 0, base_mid = 0, access = 0x9A, flags = 0xAF, base_high = 0 \<rparr>,
     \<lparr> limit = 0xFFFF, base_low = 0, base_mid = 0, access = 0x92, flags = 0xAF, base_high = 0 \<rparr>]"

text \<open>The tables at their physical addresses.\<close>

definition prekernel_tables :: "prekernel_symbols \<Rightarrow> (u64 \<times> (nat \<Rightarrow> u64)) list" where
  "prekernel_tables syms =
    [(getAddress (init_page_pml4 syms), nth (init_pml4_words syms)),
     (getAddress (init_page_dir_tab syms), nth (init_dir_tab_words syms)),
     (getAddress (kern_page_dir_tab syms), nth (kern_dir_tab_words syms)),
     (getAddress (init_page_dir syms), nth init_page_dir_words)]"

section \<open>\<^verbatim>\<open>kinit\<close>\<close>

text \<open>The registers \<^verbatim>\<open>kinit\<close> changes besides its scratch registers; \<open>CPC\<close> is the next instruction.\<close>

record cpu =
  CGDTR :: "u16 \<times> u32"
  CR0 :: u32
  CR3 :: u32
  CR4 :: u32
  EFER :: u64
  CESP :: u32
  CCS :: u16
  CPC :: u64

definition kinit :: "prekernel_symbols \<Rightarrow> cpu \<Rightarrow> cpu" where
  "kinit syms c =
     (let c = c \<lparr> CGDTR := (ucast (init_GDTDesc syms - kernelPage - (init_GDT syms - kernelPage) - 1),
                           ucast (init_GDT syms - kernelPage)) \<rparr>;
          c = c \<lparr> CR3 := ucast (init_page_pml4 syms - kernelPage) \<rparr>;
          c = c \<lparr> CR4 := CR4 c OR push_bit 5 1 \<rparr>;
          c = c \<lparr> EFER := EFER c OR push_bit 8 1 \<rparr>;
          c = c \<lparr> CR0 := CR0 c OR push_bit 31 1 \<rparr>;
          c = c \<lparr> CESP := ucast (stack_top syms - kernelPage) \<rparr>;
          c = c \<lparr> CCS := 0x18 \<rparr>
      in c \<lparr> CPC := addr_main syms \<rparr>)"

section \<open>What the processor makes of it\<close>

text \<open>
  Long mode: protected mode with paging and physical address extension, the long mode bit, and a present
  code segment whose long bit (bit 1 of the four flags) is set.
\<close>

definition long_mode :: "gdt_entry_struct list \<Rightarrow> cpu \<Rightarrow> bool" where
  "long_mode es c \<longleftrightarrow> bit (CR0 c) 0 \<and> bit (CR0 c) 31 \<and> bit (CR4 c) 5 \<and> bit (EFER c) 8 \<and>
     (case selected es (CCS c) of None \<Rightarrow> False
      | Some (base, lim, acc, fl) \<Rightarrow> bit acc 7 \<and> bit acc 4 \<and> bit acc 3 \<and> bit fl 1 \<and> \<not> bit fl 2)"

text \<open>Where the linker may put the data: at a page of the kernel's gigabyte, all of it in the gigabyte.\<close>

definition prekernel_placed :: "prekernel_symbols \<Rightarrow> bool" where
  "prekernel_placed syms \<longleftrightarrow> page_aligned (data_section syms) \<and> unat (getAddress (data_section syms)) + 16384 \<le> 2 ^ 30"

lemma labels:
  "init_page_dir_tab syms = data_section syms + 4096" "kern_page_dir_tab syms = data_section syms + 8192"
  "init_page_dir syms = data_section syms + 12288"
  by (simp_all add: init_page_dir_tab_def kern_page_dir_tab_def init_page_dir_def init_page_pml4_def)

lemma placed_label:
  assumes "prekernel_placed syms" and "k \<in> {0, 1, 2, 3}"
  shows "unat (getAddress (data_section syms + of_nat (4096 * k))) = unat (getAddress (data_section syms)) + 4096 * k"
    and "page_aligned (data_section syms + of_nat (4096 * k))"
proof -
  let ?d = "data_section syms"
  have d: "kernelPage \<le> ?d" "unat (getAddress ?d) mod 4096 = 0" "unat (getAddress ?d) + 16384 \<le> 2 ^ 30"
    using assms(1) by (simp_all add: prekernel_placed_def page_aligned_def)
  have k: "unat (of_nat (4096 * k) :: u64) = 4096 * k" using assms(2) by (intro unat_of_nat_small) auto
  have le: "4096 * k \<le> 12288" using assms(2) by auto
  have base: "unat ?d = 0xffffffffc0000000 + unat (getAddress ?d)"
    using getAddress_nat(1) [OF d(1)] d(1) by (simp add: word_le_nat_alt kernelPage_def)
  have sum: "unat (?d + of_nat (4096 * k)) = unat ?d + 4096 * k"
    unfolding unat_word_ariths k using base d(3) le by (intro mod_less) simp
  have "kernelPage \<le> ?d + of_nat (4096 * k)" using d(1) by (simp only: word_le_nat_alt sum)
  note addr = getAddress_nat(1) [OF this]
  show eq: "unat (getAddress (?d + of_nat (4096 * k))) = unat (getAddress ?d) + 4096 * k"
    unfolding addr sum base by simp
  show "page_aligned (?d + of_nat (4096 * k))"
    using \<open>kernelPage \<le> ?d + of_nat (4096 * k)\<close> d(2) unfolding page_aligned_def eq by simp
qed

lemma table_entry_eq:
  assumes "prekernel_placed syms" and "k \<in> {1, 2, 3}"
  shows "table_entry syms (data_section syms + of_nat (4096 * k)) = getAddress (data_section syms + of_nat (4096 * k)) OR 1"
proof -
  have odd: "x OR 1 = x + 1" if "x AND 1 = 0" for x :: u64
    using that by (rule disjunctive_add_eq_or [symmetric])
  have "(of_nat (4096 * k) - 0xffffffffc0000000 :: u64) AND 1 = 0" using assms(2) by auto
  moreover have "getAddress (data_section syms + of_nat (4096 * k)) AND 1 = 0"
    using placed_label(2) [OF assms(1), of k] assms(2)
    by (auto simp: page_aligned_def and_one_eq word_unat_eq_iff unat_mod mod_eq_0_iff_dvd elim: dvdE)
  ultimately show ?thesis
    by (simp add: table_entry_def odd getAddress_def kernelPage_def)
qed

lemma prekernel_tables_apart:
  assumes "prekernel_placed syms"
  shows "tables_apart (prekernel_tables syms)"
proof -
  note at = placed_label [OF assms]
  have "page_aligned a \<Longrightarrow> unat (getAddress a) mod 4096 = 0 \<and> unat (getAddress a) < 2 ^ 30" for a
    using getAddress_nat(2) by (simp add: page_aligned_def)
  then show ?thesis
    using at(2) [of 0] at(2) [of 1] at(2) [of 2] at(2) [of 3]
    by (simp add: tables_apart_def prekernel_tables_def labels init_page_pml4_def getAddress_inj)
qed

lemma directory_entry:
  assumes "i < 512"
  shows "init_page_dir_words ! i = large_page (of_nat i)"
proof -
  let ?a = "push_bit 21 (of_nat i) :: u64"
  have small: "unat (of_nat i :: u16) = i" using assms by (intro unat_of_nat_small) simp
  then have "(of_nat i :: u16) < 512" using assms by (simp only: word_less_nat_alt) simp
  then have page: "unat (large_page (of_nat i)) = i * 2 ^ 21 + 0x83" using unat_large_page small by simp
  have a: "unat ?a = i * 2 ^ 21"
    using assms by (simp add: unsigned_push_bit_eq push_bit_nat_def take_bit_nat_eq_self)
  have "(0x83 :: u64) = take_bit 8 0x83" by simp
  then have lt: "bit (0x83 :: u64) n \<Longrightarrow> n < 8" for n by (metis bit_take_bit_iff)
  have "?a AND 0x83 = 0"
  proof (rule bit_word_eqI)
    show "bit (?a AND 0x83) n = bit 0 n" for n using lt [of n] by (auto simp: bit_simps)
  qed
  then have "?a OR 0x83 = ?a + 0x83" by (rule disjunctive_add_eq_or [symmetric])
  then have "unat (?a OR 0x83) = i * 2 ^ 21 + 0x83"
    using a assms by (simp add: unat_word_ariths)
  then show ?thesis
    using assms page by (simp add: init_page_dir_words_def word_unat_eq_iff)
qed

text \<open>The entries on the two paths through the tables.\<close>

lemma prekernel_entries:
  assumes "prekernel_placed syms"
  shows "entry_at (prekernel_tables syms) (getAddress (init_page_pml4 syms)) 0 = Some (getAddress (init_page_dir_tab syms) OR 1)"
    and "entry_at (prekernel_tables syms) (getAddress (init_page_pml4 syms)) 511 = Some (getAddress (kern_page_dir_tab syms) OR 1)"
    and "entry_at (prekernel_tables syms) (getAddress (init_page_dir_tab syms)) 0 = Some (getAddress (init_page_dir syms) OR 1)"
    and "entry_at (prekernel_tables syms) (getAddress (kern_page_dir_tab syms)) 511 = Some (getAddress (init_page_dir syms) OR 1)"
    and "i < 512 \<Longrightarrow> entry_at (prekernel_tables syms) (getAddress (init_page_dir syms)) i = Some (large_page (of_nat i))"
proof -
  note at = entry_at_apart [OF prekernel_tables_apart [OF assms]]
  note entry = table_entry_eq [OF assms, of 1, simplified] table_entry_eq [OF assms, of 2, simplified]
    table_entry_eq [OF assms, of 3, simplified]
  have last: "(replicate (512 - 1) 0 @ [x]) ! 511 = x" "([y] @ replicate (512 - 2) 0 @ [x]) ! 511 = x" for x y :: u64
    by (simp_all add: nth_append)
  have bit: "bit (x OR 1) 0" for x :: u64 by (simp add: bit_simps)
  show "entry_at (prekernel_tables syms) (getAddress (init_page_pml4 syms)) 0 = Some (getAddress (init_page_dir_tab syms) OR 1)"
    "entry_at (prekernel_tables syms) (getAddress (init_page_pml4 syms)) 511 = Some (getAddress (kern_page_dir_tab syms) OR 1)"
    "entry_at (prekernel_tables syms) (getAddress (init_page_dir_tab syms)) 0 = Some (getAddress (init_page_dir syms) OR 1)"
    "entry_at (prekernel_tables syms) (getAddress (kern_page_dir_tab syms)) 511 = Some (getAddress (init_page_dir syms) OR 1)"
    using at [of _ "nth (init_pml4_words syms)" 0] at [of _ "nth (init_pml4_words syms)" 511]
      at [of _ "nth (init_dir_tab_words syms)" 0] at [of _ "nth (kern_dir_tab_words syms)" 511] bit
    unfolding init_pml4_words_def init_dir_tab_words_def kern_dir_tab_words_def last labels entry
    by (simp_all add: prekernel_tables_def init_pml4_words_def init_dir_tab_words_def kern_dir_tab_words_def labels entry)
  show "entry_at (prekernel_tables syms) (getAddress (init_page_dir syms)) i = Some (large_page (of_nat i))" if "i < 512"
    using at [of _ "nth init_page_dir_words" i] that directory_entry [OF that] large_page_entry(1) [OF that]
    by (simp add: prekernel_tables_def)
qed

lemma kinit_CR3:
  assumes "prekernel_placed syms"
  shows "ucast (CR3 (kinit syms c)) = getAddress (init_page_pml4 syms)"
proof -
  have "unat (getAddress (data_section syms)) < 2 ^ 32"
    using assms by (simp add: prekernel_placed_def)
  then show ?thesis
    by (simp add: kinit_def init_page_pml4_def getAddress_def word_unat_eq_iff unsigned_ucast_eq unsigned_take_bit_eq take_bit_nat_eq_self)
qed

lemma prekernel_walk:
  assumes "prekernel_placed syms"
    and root: "root = ucast (CR3 (kinit syms c))"
  shows "kernelPage \<le> va \<Longrightarrow> walk (prekernel_tables syms) root va = Some (va - kernelPage)"
    and "unat va < 2 ^ 30 \<Longrightarrow> walk (prekernel_tables syms) root va = Some va"
proof -
  note entry = prekernel_entries [OF assms(1)]
  note aligned = placed_label(2) [OF assms(1), of 0, simplified] placed_label(2) [OF assms(1), of 1, simplified]
    placed_label(2) [OF assms(1), of 2, simplified] placed_label(2) [OF assms(1), of 3, simplified]
  note ptr = aligned [folded labels init_page_pml4_def, THEN page_base_pointer(1)]
    aligned [folded labels init_page_pml4_def, THEN page_base_pointer(2)]
  have lt: "table_index 1 va < 512" by (simp add: table_index_def)
  show "walk (prekernel_tables syms) root va = Some (va - kernelPage)" if "kernelPage \<le> va"
  proof -
    note i = kernel_index [OF that]
    have "(of_nat (table_index 1 va * 2 ^ 21) + of_nat (unat va mod 2 ^ 21) :: u64) = getAddress va"
      unfolding of_nat_add [symmetric] i(3) by simp
    then show ?thesis
      unfolding root kinit_CR3 [OF assms(1)]
      using lt by (simp add: walk_def i entry ptr large_page_entry getAddress_def [of va] del: of_nat_mult)
  qed
  show "walk (prekernel_tables syms) root va = Some va" if "unat va < 2 ^ 30"
  proof -
    note i = low_index [OF that]
    have "(of_nat (table_index 1 va * 2 ^ 21) + of_nat (unat va mod 2 ^ 21) :: u64) = va"
      unfolding of_nat_add [symmetric] i(3) by simp
    then show ?thesis
      unfolding root kinit_CR3 [OF assms(1)]
      using lt by (simp add: walk_def i entry ptr large_page_entry del: of_nat_mult)
  qed
qed

text \<open>
  C14: Entered in 32-bit protected mode, \<^verbatim>\<open>kinit\<close> leaves the processor in long mode at \<^verbatim>\<open>main\<close>, in a flat
  code segment of ring 0 (a present, readable one of 4 GiB by its descriptor) taken from a table of
  five descriptors, and with page tables that translate every address of the first gigabyte to itself
  and every address of the last to its offset in it: the kernel runs where it was linked from the
  memory it was loaded to.
\<close>

theorem kinit_enters_long_mode:
  assumes "prekernel_placed syms" and "bit (CR0 c) 0"
  shows "long_mode init_GDT_entries (kinit syms c) \<and> CPC (kinit syms c) = addr_main syms \<and>
    selected init_GDT_entries (CCS (kinit syms c)) = Some (0, 0xFFFFF, 0x9A, 0xA) \<and>
    CGDTR (kinit syms c) = (of_nat (8 * length init_GDT_entries - 1), ucast (getAddress (init_GDT syms))) \<and>
    (\<forall>va. (kernelPage \<le> va \<longrightarrow> walk (prekernel_tables syms) (ucast (CR3 (kinit syms c))) va = Some (va - kernelPage)) \<and>
      (va < 0x40000000 \<longrightarrow> walk (prekernel_tables syms) (ucast (CR3 (kinit syms c))) va = Some va))"
proof -
  have sel: "selected init_GDT_entries 0x18 = Some (0, 0xFFFFF, 0x9A, 0xA)"
    by (simp add: selected_def init_GDT_entries_def descriptor_def descriptor_base_def descriptor_limit_def descriptor_flags_def)
  have bits: "bit (0x9A :: u8) 7" "bit (0x9A :: u8) 4" "bit (0x9A :: u8) 3" "bit (0xA :: u8) (Suc 0)" "\<not> bit (0xA :: u8) 2"
    by (simp_all add: bit_numeral_rec)
  have "long_mode init_GDT_entries (kinit syms c)"
    using assms(2) sel bits by (simp add: long_mode_def kinit_def bit_simps)
  moreover have "walk (prekernel_tables syms) (ucast (CR3 (kinit syms c))) va = Some va" if "va < 0x40000000" for va
    using that by (intro prekernel_walk(2) [OF assms(1) refl]) (simp add: word_less_nat_alt)
  ultimately show ?thesis
    using prekernel_walk(1) [OF assms(1) refl] sel
    by (simp add: kinit_def init_GDTDesc_def init_GDT_entries_def getAddress_def)
qed

definition image_symbols :: prekernel_symbols where
  "image_symbols = \<lparr> data_section = 0xffffffffc0108000, stack_top = 0xffffffffc0114000, addr_main = 0xffffffffc0101000 \<rparr>"

definition protected_cpu :: cpu where
  "protected_cpu = \<lparr> CGDTR = (55, 0x7DC2), CR0 = 0x11, CR3 = 0, CR4 = 0, EFER = 0, CESP = 0x7BF0, CCS = 8, CPC = 0x100000 \<rparr>"

theorem kinit_enters_long_mode_witness:
  "long_mode init_GDT_entries (kinit image_symbols protected_cpu) \<and>
   walk (prekernel_tables image_symbols) (ucast (CR3 (kinit image_symbols protected_cpu))) 0xffffffffc0101234 = Some 0x101234 \<and>
   walk (prekernel_tables image_symbols) (ucast (CR3 (kinit image_symbols protected_cpu))) 0x3fffffff = Some 0x3fffffff"
  using kinit_enters_long_mode [of image_symbols protected_cpu]
  by (simp add: image_symbols_def protected_cpu_def prekernel_placed_def page_aligned_def getAddress_def kernelPage_def bit_numeral_rec)

section \<open>The change of tables\<close>

text \<open>
  C15: When \<^verbatim>\<open>main\<close> switches from these tables to those of \<^verbatim>\<open>initPaging\<close>, no address of the kernel's gigabyte
  or of the first 2 MiB changes its meaning, while the rest of the first gigabyte is no longer mapped
  (the other entries of \<^verbatim>\<open>basePageDir\<close> being zero at that time).  The stack, whose address
  \<^verbatim>\<open>kinit\<close> takes from the first gigabyte, goes on being mapped exactly if its top is within 2 MiB.
\<close>

theorem initPaging_keeps_kinit:
  assumes "prekernel_placed psyms" and "kernelPage < stack_top psyms"
    and "distinct (table_addrs syms)" and "list_all page_aligned (table_addrs syms)"
    and "\<forall>i. 1 \<le> i \<and> i < 512 \<longrightarrow> \<not> bit (basePageDir m i) 0"
  shows "(\<forall>va. (kernelPage \<le> va \<or> va < 0x200000 \<longrightarrow>
        translate syms (initPaging syms m) va = walk (prekernel_tables psyms) (ucast (CR3 (kinit psyms c))) va) \<and>
      (0x200000 \<le> va \<and> va < 0x40000000 \<longrightarrow> translate syms (initPaging syms m) va = None)) \<and>
    ((\<forall>va < ucast (CESP (kinit psyms c)). translate syms (initPaging syms m) va = Some va) \<longleftrightarrow>
      CESP (kinit psyms c) \<le> 0x200000)"
proof -
  note after = initPaging_translation [OF assms(3,4), of _ m]
  note unmapped = initPaging_unmapped [OF assms(3-5)]
  have "translate syms (initPaging syms m) va = walk (prekernel_tables psyms) (ucast (CR3 (kinit psyms c))) va"
    if "kernelPage \<le> va \<or> va < 0x200000" for va
    using that
  proof
    assume "kernelPage \<le> va"
    then show ?thesis using after [of va] prekernel_walk(1) [OF assms(1) refl, of va c] by (simp only: simp_thms)
  next
    assume low: "va < 0x200000"
    then have "unat va < 2 ^ 30" by (simp add: word_less_nat_alt)
    then show ?thesis using low after [of va] prekernel_walk(2) [OF assms(1) refl, of va c] by (simp only: simp_thms)
  qed
  moreover have "(\<forall>va < ucast (CESP (kinit psyms c)). translate syms (initPaging syms m) va = Some va) \<longleftrightarrow>
      CESP (kinit psyms c) \<le> 0x200000"
  proof -
    have esp: "CESP (kinit psyms c) = ucast (getAddress (stack_top psyms))" by (simp add: kinit_def getAddress_def)
    have top: "kernelPage \<le> stack_top psyms" using assms(2) by simp
    note small = getAddress_nat(2) [OF top]
    let ?sp = "getAddress (stack_top psyms)"
    have sp: "(ucast (CESP (kinit psyms c)) :: u64) = ?sp" "unat (CESP (kinit psyms c)) = unat ?sp"
      unfolding esp using small by (simp_all add: word_unat_eq_iff unsigned_ucast_eq unsigned_take_bit_eq take_bit_nat_eq_self)
    have "?sp \<noteq> 0" using assms(2) by (auto simp: getAddress_def)
    then have pred: "unat (?sp - 1) = unat ?sp - 1" "?sp - 1 < ?sp"
      by (simp_all add: unat_minus_one word_less_nat_alt unat_gt_0)
    show ?thesis
    proof
      assume mapped: "\<forall>va < ucast (CESP (kinit psyms c)). translate syms (initPaging syms m) va = Some va"
      show "CESP (kinit psyms c) \<le> 0x200000"
      proof (rule ccontr)
        assume "\<not> CESP (kinit psyms c) \<le> 0x200000"
        then have "0x200000 \<le> ?sp - 1" "?sp - 1 < 0x40000000"
          using sp(2) pred small by (simp_all add: word_le_nat_alt word_less_nat_alt)
        from unmapped [OF this] have "translate syms (initPaging syms m) (?sp - 1) = None" .
        moreover have "translate syms (initPaging syms m) (?sp - 1) = Some (?sp - 1)"
          using mapped [unfolded sp(1)] pred(2) by blast
        ultimately show False by simp
      qed
    next
      assume "CESP (kinit psyms c) \<le> 0x200000"
      then have "va < 0x200000" if "va < ?sp" for va
        using that sp(2) by (simp add: word_le_nat_alt word_less_nat_alt)
      then show "\<forall>va < ucast (CESP (kinit psyms c)). translate syms (initPaging syms m) va = Some va"
        using after by (simp add: sp(1))
    qed
  qed
  ultimately show ?thesis using unmapped by blast
qed

definition fresh_pager :: "(unit, unit) pager_machine" where
  "fresh_pager = blank_pager_machine ()"

theorem initPaging_keeps_kinit_witness:
  "translate kernel_tables (initPaging kernel_tables fresh_pager) 0xffffffffc0101234 =
      walk (prekernel_tables image_symbols) (ucast (CR3 (kinit image_symbols protected_cpu))) 0xffffffffc0101234 \<and>
    translate kernel_tables (initPaging kernel_tables fresh_pager) 0x200000 = None \<and>
    translate kernel_tables (initPaging kernel_tables fresh_pager) 0x113ff8 = Some 0x113ff8"
proof -
  have "prekernel_placed image_symbols" "kernelPage < stack_top image_symbols"
    "distinct (table_addrs kernel_tables)" "list_all page_aligned (table_addrs kernel_tables)"
    "\<forall>i. 1 \<le> i \<and> i < 512 \<longrightarrow> \<not> bit (basePageDir fresh_pager i) 0"
    by (simp_all add: image_symbols_def prekernel_placed_def page_aligned_def getAddress_def kernelPage_def kernel_tables_def
        table_addrs_def fresh_pager_def blank_pager_machine_def idt_machine.defs)
  note keeps = initPaging_keeps_kinit [OF this, of protected_cpu]
  have "CESP (kinit image_symbols protected_cpu) = 0x114000"
    by (simp add: kinit_def image_symbols_def kernelPage_def)
  then show ?thesis
    using keeps [THEN conjunct1, THEN spec, of "0xffffffffc0101234"] keeps [THEN conjunct1, THEN spec, of "0x200000"]
      keeps [THEN conjunct2]
    by (simp add: kernelPage_def)
qed

end
