(* ===== verification/Boot.thy ===== *)
theory Boot
  imports Boot_Sector Stage2 Prekernel
begin

text \<open>
  From the boot sector to the kernel: \<^verbatim>\<open>stage2/init.asm\<close>, which passes the boot drive on to \<^verbatim>\<open>cmain\<close>, and
  what the stages do one after the other.
\<close>






end
