(* ===== verification/Spec2Isabelle.thy ===== *)
theory Spec2Isabelle
  imports Prelude Store Libc_String Console Printf Logger Machine Disk Fat12 Fat_Names Fat_Read Fat_Handles Fat_Open Fat_Checks
    Fat_Directories Memdetect Stage2 Gdt Idt Pager Keyboard Pit Kernel Session Boot_Sector Boot_Record Prekernel Boot
begin

text \<open>
  Netclover is a small operating system for the PC: a boot sector, a second boot stage that finds the kernel
  on a FAT12 floppy disk and loads it, a 64-bit kernel that sets up its tables and types what the keyboard
  sends, and a C library that is compiled for both, for 32 bits and for 64 bits.  This library models that code as
  executable functions, component by component, and proves what each component promises and how the
  components fit together.  Paths are relative to \<^verbatim>\<open>src/src\<close>.

  \<^bold>\<open>The way a machine starts.\<close>  The BIOS runs the boot sector (\<open>Boot_Sector\<close>), which reads the second stage
  behind it and enters protected mode; \<^verbatim>\<open>_start\<close> (\<open>Boot\<close>) calls \<^verbatim>\<open>cmain\<close> (\<open>Stage2\<close>), which initialises the disk
  driver (\<open>Disk\<close>), mounts the volume (\<open>Fat_Open\<close>), takes the memory map from the BIOS (\<open>Memdetect\<close>), loads
  \<^verbatim>\<open>/kernel.bin\<close> chunk by chunk (\<open>Fat_Read\<close>) and calls it; \<^verbatim>\<open>kinit\<close> (\<open>Prekernel\<close>) enters long mode and jumps to
  \<^verbatim>\<open>main\<close> (\<open>Kernel\<close>), which installs the segment descriptors (\<open>Gdt\<close>), the interrupt gates (\<open>Idt\<close>), the keyboard
  driver (\<open>Keyboard\<close>) and the page tables (\<open>Pager\<close>) and then only serves interrupts.  Every stage writes to the
  text screen through \<^verbatim>\<open>libc/stdio\<close> (\<open>Console\<close>, \<open>Printf\<close>, \<open>Logger\<close>).

  \<^bold>\<open>Theories.\<close>

  \<^item> \<open>Prelude\<close>: machine integers, the result type \<open>res\<close> (\<open>Inl\<close> an error, \<open>Inr\<close> a value) with \<open>bindE\<close>, the
    counted loop \<open>for_up\<close>, little-endian reads, string literals as bytes.
  \<^item> \<open>Store\<close>: the interfaces \<open>indexed_store\<close> and \<open>cell_store\<close> (what is stored at an index is found there), with
    the lemmas about runs of stores.  They are interpreted on the screen cells, the segment table, the interrupt
    table, the handler table and the page directory.
  \<^item> \<open>Libc_String\<close>: \<^verbatim>\<open>libc/string\<close>, \<^verbatim>\<open>libc/ctype\<close> and \<^verbatim>\<open>libc/netclover/minmax\<close> over a byte memory whose address
    type is a parameter.
  \<^item> \<open>Console\<close>: \<^verbatim>\<open>putc.c\<close>, \<^verbatim>\<open>puts.c\<close> and the other screen functions of \<^verbatim>\<open>libc/stdio\<close>.  The state is the screen
    memory, the cursor and the port writes; an abstract terminal (a grid and a cursor) is refined by \<^verbatim>\<open>putc\<close>.
  \<^item> \<open>Printf\<close>: \<^verbatim>\<open>printf.c\<close> with the 64-bit division of the 32-bit build; a format is a list of directives with a
    meaning of its own, which the state machine of \<^verbatim>\<open>printf\<close> is proved to print.
  \<^item> \<open>Logger\<close>: \<^verbatim>\<open>vprintf.c\<close> and \<^verbatim>\<open>boot/stage2/libs/logger.c\<close>.
  \<^item> \<open>Machine\<close>: the state above libc, a console and the state of the devices and of the firmware, \<open>world\<close>.
  \<^item> \<open>Disk\<close>: \<^verbatim>\<open>libs/disk.c\<close> and the assembler stubs of \<^verbatim>\<open>libs/x86.asm\<close>, over a BIOS that is a record of functions.
  \<^item> \<open>Fat12\<close>: the operations of \<^verbatim>\<open>libs/fat.c\<close> on \<^verbatim>\<open>FAT_Data\<close> (boot sector, root directory, ten open files) and the
    table behind it; \<open>Fat_Names\<close>: names of directory entries; \<open>Fat_Read\<close>: reading along a cluster chain;
    \<open>Fat_Handles\<close>: what every operation keeps of the open files (the interface \<open>file_invariant\<close>, interpreted for
    opening and for reading); \<open>Fat_Open\<close>: mounting, searching and opening on a disk without errors (the search over the interface
    \<open>directory\<close>, interpreted for the root directory and for those below it);
    \<open>Fat_Checks\<close>: mounting from a disk that fails or holds something else; \<open>Fat_Directories\<close>: directories below the
    root and the resolution of paths, a relation that \<^verbatim>\<open>FAT_Open\<close> is proved to compute.
  \<^item> \<open>Memdetect\<close>: \<^verbatim>\<open>libs/memdetect.c\<close>; \<open>Stage2\<close>: \<^verbatim>\<open>stage2/main.c\<close>; \<open>Boot_Sector\<close>: \<^verbatim>\<open>boot/boot.asm\<close>; \<open>Boot_Record\<close>:
    the record at its start, byte by byte, and the view \<^verbatim>\<open>libs/fat.c\<close> has of it; \<open>Prekernel\<close>:
    \<^verbatim>\<open>kernel/prekernel.asm\<close>; \<open>Boot\<close>: \<^verbatim>\<open>stage2/init.asm\<close> and the stages one after the other.
  \<^item> \<open>Gdt\<close>, \<open>Idt\<close>: \<^verbatim>\<open>kernel/x86\<close>; \<open>Pager\<close>: \<^verbatim>\<open>kernel/memory\<close>, with the processor's walk through page tables;
    \<open>Keyboard\<close>, \<open>Pit\<close>: \<^verbatim>\<open>kernel/drivers\<close>; \<open>Kernel\<close>: \<^verbatim>\<open>kernel/main.c\<close>, the stubs of \<^verbatim>\<open>x86/idt.asm\<close> on the registers of
    the interrupted program, the requests the interrupt controllers let through, and the step relation of the
    running kernel;
    \<open>Session\<close>: what a user sees who types on it.
  \<^item> This theory: what the kernel makes of the parameters the boot loader leaves for it.

  \<^bold>\<open>State and operations.\<close>  The static variables of a source file are the fields of a record that extends the one of
  the component below (\<open>console\<close>, \<open>machine\<close>, \<open>fat_machine\<close>; \<open>gdt_machine\<close>, \<open>idt_machine\<close>, \<open>pager_machine\<close>,
  \<open>keyboard_machine\<close>, \<open>pit_machine\<close>, and \<open>kernel_machine\<close>, which adds the two interrupt controllers), and an
  operation takes the record and returns it updated.  What C leaves
  undefined, or what stops the processor, is an error of \<open>res\<close>: division by zero, a null pointer, an access
  outside an object or to an address that is not mapped.  Integers are words of the width the C type has.  The values of variables that are read before
  they are assigned to, and the addresses the linker chooses, are arguments.  Objects that are handed over by
  pointer are passed as their bytes where no two pointers meet (the destination of \<^verbatim>\<open>DISK_ReadSectors\<close>), and as
  addresses in a byte memory where they may (\<open>Libc_String\<close>, the boot parameters in \<open>Kernel\<close>).

  \<^bold>\<open>What is outside the program\<close> is a parameter: the services of the BIOS (\<open>bios\<close>, \<open>boot_bios\<close>), the ports of
  the devices, the names the linker defines.  What a theorem relies on of them is a named hypothesis:
  \<open>reads_disk\<close> and \<open>reads_ok\<close> (a read that reports success has delivered the sectors; every read does),
  \<open>e820_map\<close> (the memory map service enumerates a list of blocks), \<open>carry_ok\<close>, \<open>controller_ok\<close> and
  \<open>services_quiet\<close> (the carry flag, the keyboard controller and the disk services by their documentation).
  Each theorem with hypotheses is followed by one that applies it to a concrete machine.

  \<^bold>\<open>Loops.\<close>  A loop over a counter or a list is a recursion that is proved to end.  The loops that may not end
  (the string functions without a terminator, the search in a directory, the loop that loads the kernel, the
  waits for the keyboard controller) are partial functions with \<open>None\<close> for not returning; that they return is
  part of the theorems about them: \<open>FAT_Open_finds\<close>, \<open>FAT_Open_resolves\<close>, \<open>load_loop_loads_file\<close>, \<open>boot_main_outcome\<close>.  No fuel is used.

  \<^bold>\<open>What the lemmas show.\<close>  Of the library: the string functions meet their contracts; \<^verbatim>\<open>putc\<close> refines the
  terminal and writes inside the screen buffer; \<^verbatim>\<open>printf\<close> and \<^verbatim>\<open>vprintf\<close> print what the format means.  Of the boot
  loader: sector addresses are right and unique, reads survive transient failures and never leave their
  destination; the table of clusters is decoded as it was packed; names are looked up in their padded form, the first
  entry of a name is found, paths lead through directories, open files stay untouched by others, a file is read
  byte by byte along its chain; the boot record is the one the loader reads;
  and a machine with a good disk ends up in the kernel it has on the disk, mapped where it was linked.  Of the
  kernel: descriptors and gates decode to what they were made of, page tables translate as intended
  and the change of tables keeps what is in use, the keyboard types the characters of its layout, the screen shows
  them behind the lines of \<^verbatim>\<open>main\<close>, and in every reachable state every interrupt request that is not masked is
  let through, served and acknowledged.  Where the code does not do what it means to, the
  theorem states what it does: the last region of the memory map is lost, an error of the BIOS overruns the regions,
  kernels of certain sizes and directories of more than one sector make the loading bar divide by zero, the kernel reads the boot device from behind the
  parameters, and through tables that may no longer map them, a backspace in the top left corner leaves the
  screen, the interrupt stubs lose RDI, and others beside them in the theories.

  \<^bold>\<open>Interrupts.\<close>  A request arrives after a statement of \<^verbatim>\<open>main\<close> once interrupts are on (the argument \<open>arrivals\<close>),
  or in its last loop (\<open>kernel_step\<close>); in between, the program holds values in registers the stubs do not restore
  (\<open>stubs_lose_RDI\<close>), and what happens then depends on the compiled code and is not modelled.  The controllers
  follow the bytes written to them and the requests accepted; spurious requests are left out.

  \<^bold>\<open>Memory.\<close>  The variables and tables of a program are fields of its record and apart from the memory the console
  and the boot parameters are in.  That they do not overlap in the machine is part of what the theorems leave to
  the linker and to their hypotheses: \<open>machine_boots\<close> bounds the reserved sectors so that the second stage ends
  below \<^verbatim>\<open>MEMORY_FAT_ADDR\<close>, \<open>off_screen\<close> keeps the parameters off the screen, and \<open>tables_placed\<close> puts the page
  tables on pages of their own.

  \<^bold>\<open>Not modelled.\<close>  Segment registers, and the stack but for the one of the interrupt stubs (the effect of
  \<^verbatim>\<open>pusha\<close> and the like is that of the values they save), \<^verbatim>\<open>tss_flush\<close>, which nothing calls, the lifetime of the array of
  memory regions (\<open>Regions\<close> has them as \<^verbatim>\<open>MemDetect\<close> found them, while the C code leaves a pointer to a dead
  stack frame), the time the hardware takes, and the makefiles, linker scripts (but for the number of
  reserved sectors) and emulator configuration.  The
  headers that only declare functions have no counterpart.
\<close>

section \<open>The handover\<close>

lemma le32_of_bytes: "le32 (ucast w) (ucast (drop_bit 8 w)) (ucast (drop_bit 16 w)) (ucast (drop_bit 24 w)) = w" for w :: u32
proof -
  let ?n = "unat w"
  have byte: "unat (ucast (drop_bit k w) :: u8) = ?n div 2 ^ k mod 256" for k
    by (simp add: unsigned_ucast_eq take_bit_eq_mod [where 'a = nat] unat_drop_bit)
  have "?n < 2 ^ 32" using unsigned_less [of w, where ?'a = nat] by simp
  then have top: "?n div 16777216 mod 256 = ?n div 16777216" by (simp add: less_mult_imp_div_less)
  have parts: "?n = 256 * (?n div 256) + ?n mod 256" "?n div 256 = 256 * (?n div 65536) + ?n div 256 mod 256"
    "?n div 65536 = 256 * (?n div 16777216) + ?n div 65536 mod 256"
    using div_mult2_eq [of ?n 256 256] div_mult2_eq [of ?n 65536 256] by simp_all
  have "unat (le32 (ucast w) (ucast (drop_bit 8 w)) (ucast (drop_bit 16 w)) (ucast (drop_bit 24 w))) =
      ?n mod 256 + 256 * (?n div 256 mod 256) + 65536 * (?n div 65536 mod 256) + 16777216 * (?n div 16777216 mod 256)"
    unfolding unat_le32 byte using byte [of 0] by simp
  also have "\<dots> = ?n" using parts unfolding top by linarith
  finally show ?thesis by (simp add: word_unat_eq_iff)
qed

text \<open>
  C27: The boot loader is a 32-bit program and stores the boot device at byte 8 of \<^verbatim>\<open>bootParams\<close>; the
  64-bit kernel reads the structure's first field as it was stored but takes the boot device from
  byte 16, behind the structure: memory with the same structure can have any other device there.
\<close>

theorem kernel_misreads_boot_device:
  fixes m :: "('w, 'e) machine_scheme"
  assumes "map (\<lambda>i. peek m (p + of_nat i)) [0..<9] = params32 regions params"
  shows "Kernel.RegionCount p m = bootParamsStruct.RegionCount params \<and>
    (\<exists>m' :: ('w, 'e) machine_scheme. map (\<lambda>i. peek m' (p + of_nat i)) [0..<9] = params32 regions params \<and>
       Kernel.BootDevice p m' \<noteq> bootParamsStruct.BootDevice params)"
proof -
  have bytes: "[0..<9] = [0, 1, 2, 3, 4, 5, 6, 7, 8]" by (simp add: upt_rec)
  let ?d = "bootParamsStruct.BootDevice params + 1"
  let ?m = "m \<lparr> console := (console m) \<lparr> vmem := (vmem (console m)) (unat (p + 16) := ?d) \<rparr> \<rparr>"
  have "peek ?m (p + of_nat i) = peek m (p + of_nat i)" if "i < 9" for i
  proof -
    have "of_nat i \<noteq> (16 :: u64)"
    proof
      assume "of_nat i = (16 :: u64)"
      then have "unat (of_nat i :: u64) = 16" by simp
      then show False using that by simp
    qed
    then have "p + of_nat i \<noteq> p + 16" by simp
    then show ?thesis by (simp add: peek_def word_unat_eq_iff)
  qed
  then have "map (\<lambda>i. peek ?m (p + of_nat i)) [0..<9] = map (\<lambda>i. peek m (p + of_nat i)) [0..<9]" by simp
  moreover have "Kernel.BootDevice p ?m = ?d" by (simp add: Kernel.BootDevice_def peek_def)
  moreover have "Kernel.RegionCount p m = bootParamsStruct.RegionCount params"
    using assms by (simp add: bytes params32_def le32_bytes_def Kernel.RegionCount_def le32_of_bytes)
  moreover have "?d \<noteq> bootParamsStruct.BootDevice params" by simp
  ultimately show ?thesis by (intro conjI exI [of _ ?m]) (simp_all only: assms not_False_eq_True)
qed

definition handed_over :: "bootParamsStruct \<Rightarrow> u32 \<Rightarrow> unit machine" where
  "handed_over params regions = (blank_machine ()) \<lparr> console := blank_console
     \<lparr> vmem := (\<lambda>a. if a < 9 then params32 regions params ! a else 0) \<rparr> \<rparr>"

theorem kernel_misreads_boot_device_witness:
  "Kernel.RegionCount 0 (handed_over \<lparr> bootParamsStruct.RegionCount = 5, Regions = [], bootParamsStruct.BootDevice = 0x80 \<rparr> 0x9000) = 5 \<and>
    (\<exists>m' :: unit machine. map (\<lambda>i. peek m' (0 + of_nat i)) [0..<9] =
         params32 0x9000 \<lparr> bootParamsStruct.RegionCount = 5, Regions = [], bootParamsStruct.BootDevice = 0x80 \<rparr> \<and>
       Kernel.BootDevice 0 m' \<noteq> 0x80)"
proof -
  let ?params = "\<lparr> bootParamsStruct.RegionCount = 5, Regions = [], bootParamsStruct.BootDevice = 0x80 \<rparr>"
  have "length (params32 0x9000 ?params) = 9" by (simp add: params32_def le32_bytes_def)
  then have "map (\<lambda>i. peek (handed_over ?params 0x9000) (0 + of_nat i)) [0..<9] = params32 0x9000 ?params"
    by (intro nth_equalityI) (simp_all add: handed_over_def peek_def del: upt_rec_numeral)
  from kernel_misreads_boot_device [OF this] show ?thesis by simp
qed

end
